(* ===== verification/Xv6fs_Prelude.thy ===== *)
theory Xv6fs_Prelude
  imports Main "HOL-Library.Word"
begin

text \<open>
  The prelude of the development: the machine types the driver uses, the
  little-endian encoding of its 16- and 32-bit fields, byte-range reads and
  writes inside a block, and the generic facts on lists and words that the
  component theories share.  Facts that every component uses are declared
  \<open>simp\<close>; the collections \<open>codec\<close> (encodings and their inverses) and \<open>frame\<close>
  (what an operation leaves alone) are given to \<open>simp\<close> by name.
\<close>

unbundle bit_operations_syntax

named_theorems codec \<open>encodings and their inverses\<close>
named_theorems frame \<open>what an operation leaves unchanged\<close>

section \<open>Machine types\<close>

type_synonym byte = "8 word"
type_synonym u16 = "16 word"
type_synonym u32 = "32 word"
type_synonym u64 = "64 word"

text \<open>The contents of one disk block, as the bytes of \<open>b_data\<close>.\<close>

type_synonym block = "byte list"

section \<open>Little-endian fields\<close>

text \<open>
  The bytes of a \<open>__le16\<close> and of a \<open>__le32\<close> in memory, and the value
  \<open>le16_to_cpu\<close> and \<open>le32_to_cpu\<close> read from them.
\<close>

definition cpu_to_le16 :: "u16 \<Rightarrow> byte list" where
  "cpu_to_le16 w = [ucast w, ucast (drop_bit 8 w)]"

definition le16_to_cpu :: "byte list \<Rightarrow> u16" where
  "le16_to_cpu bs = ucast (bs ! 0) OR push_bit 8 (ucast (bs ! 1))"

definition cpu_to_le32 :: "u32 \<Rightarrow> byte list" where
  "cpu_to_le32 w =
     [ucast w, ucast (drop_bit 8 w), ucast (drop_bit 16 w), ucast (drop_bit 24 w)]"

definition le32_to_cpu :: "byte list \<Rightarrow> u32" where
  "le32_to_cpu bs =
     ucast (bs ! 0) OR push_bit 8 (ucast (bs ! 1)) OR
     push_bit 16 (ucast (bs ! 2)) OR push_bit 24 (ucast (bs ! 3))"

section \<open>Byte ranges of a block\<close>

definition get_bytes :: "nat \<Rightarrow> nat \<Rightarrow> block \<Rightarrow> byte list" where
  "get_bytes off n d = take n (drop off d)"

definition put_bytes :: "nat \<Rightarrow> byte list \<Rightarrow> block \<Rightarrow> block" where
  "put_bytes off bs d = take off d @ bs @ drop (off + length bs) d"

text \<open>Bit \<open>n\<close> of a little-endian bitmap held in a byte array.\<close>

definition test_bit_le :: "block \<Rightarrow> nat \<Rightarrow> bool" where
  "test_bit_le d n = bit (d ! (n div 8)) (n mod 8)"

section \<open>Facts on the little-endian fields\<close>

lemma length_cpu_to_le16 [simp]: "length (cpu_to_le16 w) = 2"
  by (simp add: cpu_to_le16_def)

lemma length_cpu_to_le32 [simp]: "length (cpu_to_le32 w) = 4"
  by (simp add: cpu_to_le32_def)

lemma le16_roundtrip [simp, codec]: "le16_to_cpu (cpu_to_le16 w) = w"
  by (rule bit_word_eqI)
     (auto simp: le16_to_cpu_def cpu_to_le16_def bit_simps not_less)

lemma le32_roundtrip [simp, codec]: "le32_to_cpu (cpu_to_le32 w) = w"
proof (rule bit_word_eqI)
  fix n assume n: "n < LENGTH(32)"
  consider "n < 8" | "8 \<le> n" "n < 16" | "16 \<le> n" "n < 24" | "24 \<le> n" by linarith
  then show "bit (le32_to_cpu (cpu_to_le32 w)) n = bit w n"
    using n by cases (auto simp: le32_to_cpu_def cpu_to_le32_def bit_simps)
qed

lemma bit_byte_ge [simp]: "8 \<le> n \<Longrightarrow> \<not> bit (a :: byte) n"
  using bit_imp_le_length [of a n] by auto

lemma length_2_conv: "length bs = 2 \<longleftrightarrow> (\<exists>a b. bs = [a, b])"
  by (auto simp: numeral_2_eq_2 length_Suc_conv)

lemma length_4_conv: "length bs = 4 \<longleftrightarrow> (\<exists>a b c d. bs = [a, b, c, d])"
  by (auto simp: numeral_eq_Suc length_Suc_conv)

lemma le16_encode_decode [codec]:
  assumes "length bs = 2" shows "cpu_to_le16 (le16_to_cpu bs) = bs"
proof -
  from assms obtain a b where bs: "bs = [a, b]" by (auto simp: length_2_conv)
  have "ucast (le16_to_cpu bs) = a"
    by (rule bit_word_eqI) (auto simp: bs le16_to_cpu_def bit_simps)
  moreover have "ucast (drop_bit 8 (le16_to_cpu bs)) = b"
    by (rule bit_word_eqI) (auto simp: bs le16_to_cpu_def bit_simps)
  ultimately show ?thesis by (simp add: cpu_to_le16_def bs)
qed

lemma le32_encode_decode [codec]:
  assumes "length bs = 4" shows "cpu_to_le32 (le32_to_cpu bs) = bs"
proof -
  from assms obtain a b c d where bs: "bs = [a, b, c, d]" by (auto simp: length_4_conv)
  have "ucast (le32_to_cpu bs) = a"
    by (rule bit_word_eqI) (auto simp: bs le32_to_cpu_def bit_simps)
  moreover have "ucast (drop_bit 8 (le32_to_cpu bs)) = b"
    by (rule bit_word_eqI) (auto simp: bs le32_to_cpu_def bit_simps)
  moreover have "ucast (drop_bit 16 (le32_to_cpu bs)) = c"
    by (rule bit_word_eqI) (auto simp: bs le32_to_cpu_def bit_simps)
  moreover have "ucast (drop_bit 24 (le32_to_cpu bs)) = d"
    by (rule bit_word_eqI) (auto simp: bs le32_to_cpu_def bit_simps)
  ultimately show ?thesis by (simp add: cpu_to_le32_def bs)
qed

section \<open>Facts on byte ranges\<close>

lemma length_get_bytes [simp]: "off + n \<le> length d \<Longrightarrow> length (get_bytes off n d) = n"
  by (simp add: get_bytes_def)

lemma length_put_bytes [simp]:
  "off + length bs \<le> length d \<Longrightarrow> length (put_bytes off bs d) = length d"
  by (simp add: put_bytes_def)

lemma get_put_bytes [simp, codec]:
  "off + length bs \<le> length d \<Longrightarrow> n = length bs \<Longrightarrow> get_bytes off n (put_bytes off bs d) = bs"
  by (simp add: get_bytes_def put_bytes_def)

lemma nth_put_bytes:
  "off + length bs \<le> length d \<Longrightarrow> i < length d \<Longrightarrow>
   put_bytes off bs d ! i = (if off \<le> i \<and> i < off + length bs then bs ! (i - off) else d ! i)"
  by (auto simp: put_bytes_def nth_append min_def)

lemma get_put_bytes_disjoint [codec]:
  assumes "off + length bs \<le> length d" "off' + n \<le> length d"
    and "off' + n \<le> off \<or> off + length bs \<le> off'"
  shows "get_bytes off' n (put_bytes off bs d) = get_bytes off' n d"
proof (rule nth_equalityI)
  show "length (get_bytes off' n (put_bytes off bs d)) = length (get_bytes off' n d)"
    using assms by simp
next
  fix i assume "i < length (get_bytes off' n (put_bytes off bs d))"
  then have "i < n" using assms by simp
  with assms show "get_bytes off' n (put_bytes off bs d) ! i = get_bytes off' n d ! i"
    by (auto simp: get_bytes_def nth_put_bytes)
qed

lemma put_get_bytes [simp, codec]: "off + n \<le> length d \<Longrightarrow> put_bytes off (get_bytes off n d) d = d"
  by (simp add: put_bytes_def get_bytes_def min_def)
     (metis add.commute append_take_drop_id drop_drop)

text \<open>A slot of an array of fixed-size records inside a block.\<close>

lemma slot_fits: "i < n \<Longrightarrow> w * n \<le> l \<Longrightarrow> w * i + w \<le> (l::nat)"
  by (metis Suc_leI add.commute le_trans mult_Suc_right mult_le_mono2)

lemma slots_disjoint:
  assumes "i \<noteq> j" shows "w * j + w \<le> w * i \<or> w * i + w \<le> w * (j::nat)"
proof (cases "j < i")
  case True
  then show ?thesis using slot_fits [of j i w "w * i"] by simp
next
  case False
  then show ?thesis using assms slot_fits [of i j w "w * j"] by simp
qed

section \<open>Machine arithmetic\<close>

lemma unat_u32_less [simp]: "unat (w :: u32) < 4294967296"
  using unsigned_less [of w] by simp

lemma unat_of_nat_u32: "n < 4294967296 \<Longrightarrow> unat (of_nat n :: u32) = n"
  by (simp add: unat_of_nat take_bit_nat_eq_self_iff)

lemma word_of_unat_u32_eq_0 [simp]: "unat (w :: u32) = 0 \<longleftrightarrow> w = 0"
  by (rule unat_eq_zero)

text \<open>Counting the elements that satisfy a predicate below a bound.\<close>

lemma card_shift:
  "card {i. a \<le> i \<and> i < a + n \<and> P i} = card {i. i < (n::nat) \<and> P (a + i)}"
proof -
  have "{i. a \<le> i \<and> i < a + n \<and> P i} = (\<lambda>i. a + i) ` {i. i < n \<and> P (a + i)}"
    by (auto simp: image_iff) (metis add_less_cancel_left le_Suc_ex)
  then show ?thesis by (simp add: card_image)
qed

end
