(* ===== verification/Xv6fs_Layout.thy ===== *)
theory Xv6fs_Layout
  imports Xv6fs_Prelude
begin

text \<open>
  The on-disk format and the in-memory types of \<^verbatim>\<open>src/xv6fs.h\<close>: the constants,
  the superblock, inode and directory-entry structures with their byte
  layout, the macros that place inodes and bitmap bits in blocks, and the
  endian-conversion helpers.  A \<open>__le16\<close>/\<open>__le32\<close> member of a structure is
  kept as the value \<open>le16_to_cpu\<close>/\<open>le32_to_cpu\<close> reads from its bytes; the
  functions ending in \<open>_bytes\<close> give the bytes the compiler lays out for the
  structure, and those starting with \<open>bytes_\<close> read them back.

  The lemmas show that the layout and the conversions are lossless and that
  distinct array slots of a block do not overlap.
\<close>

section \<open>Constants\<close>

abbreviation (input) XV6FS_MAGIC :: u32 where "XV6FS_MAGIC \<equiv> 0x10203040"
abbreviation (input) XV6FS_BSIZE :: nat where "XV6FS_BSIZE \<equiv> 512"
abbreviation (input) XV6FS_DIRSIZ :: nat where "XV6FS_DIRSIZ \<equiv> 14"
abbreviation (input) XV6FS_NDIRECT :: nat where "XV6FS_NDIRECT \<equiv> 12"
abbreviation (input) XV6FS_NINDIRECT :: nat where "XV6FS_NINDIRECT \<equiv> 128"
abbreviation (input) XV6FS_MAXFILE :: nat where "XV6FS_MAXFILE \<equiv> XV6FS_NDIRECT + XV6FS_NINDIRECT"
abbreviation (input) XV6FS_ROOTINO :: nat where "XV6FS_ROOTINO \<equiv> 1"
abbreviation (input) XV6FS_T_DIR :: u16 where "XV6FS_T_DIR \<equiv> 1"
abbreviation (input) XV6FS_T_FILE :: u16 where "XV6FS_T_FILE \<equiv> 2"
abbreviation (input) XV6FS_T_DEV :: u16 where "XV6FS_T_DEV \<equiv> 3"
abbreviation (input) XV6FS_IPB :: nat where "XV6FS_IPB \<equiv> 8"
abbreviation (input) XV6FS_BPB :: nat where "XV6FS_BPB \<equiv> 4096"

text \<open>\<open>sizeof (union xv6fs_dinode)\<close> and \<open>sizeof (struct xv6fs_dirent)\<close>.\<close>

abbreviation (input) sizeof_dinode :: nat where "sizeof_dinode \<equiv> 64"
abbreviation (input) sizeof_dirent :: nat where "sizeof_dirent \<equiv> 16"

section \<open>Structures\<close>

record xv6fs_superblock =
  sb_magic :: u32
  sb_size :: u32
  sb_nblocks :: u32
  sb_ninodes :: u32
  sb_nlog :: u32
  sb_logstart :: u32
  sb_inodestart :: u32
  sb_bmapstart :: u32

record xv6fs_dinode =
  d_type :: u16
  d_major :: u16
  d_minor :: u16
  d_nlink :: u16
  d_size :: u32
  d_addrs :: "u32 list"

record xv6fs_dirent =
  inum :: u16
  de_name :: "byte list"

text \<open>
  The operation tables an inode can be given: the defaults of a fresh inode,
  the directory tables, the regular-file tables, and those
  \<open>init_special_inode\<close> installs.
\<close>

datatype op_table = Ops_default | Ops_dir | Ops_file | Ops_special

text \<open>
  \<open>struct xv6fs_inode_info\<close> with the fields of the embedded VFS inode the
  driver reads or writes.  \<open>i_type\<close>, \<open>i_major\<close> and \<open>i_minor\<close> are \<open>__s16\<close>
  bit patterns, \<open>i_nlink\<close> is an \<open>unsigned int\<close>, \<open>i_size\<close> a \<open>loff_t\<close>.
\<close>

record xv6fs_inode_info =
  i_addrs :: "u32 list"
  i_type :: u16
  i_major :: u16
  i_minor :: u16
  i_nlink :: u32
  i_size :: int
  i_blocks :: int
  i_mode :: u16
  i_uid :: nat
  i_gid :: nat
  i_atime :: int
  i_mtime :: int
  i_ctime :: int
  i_op :: op_table
  i_fop :: op_table
  i_aops :: op_table
  i_rdev :: u32

section \<open>Derived block numbers\<close>

text \<open>
  Inode numbers and block numbers are 64-bit in the macros' arguments, so the
  sums below cannot wrap; \<open>XV6FS_DSTART\<close> is a sum of \<open>__u32\<close> values and does.
\<close>

definition XV6FS_IBLOCK :: "nat \<Rightarrow> xv6fs_superblock \<Rightarrow> nat" where
  "XV6FS_IBLOCK ino sb = ino div XV6FS_IPB + unat (sb_inodestart sb)"

definition XV6FS_IOFFSET :: "nat \<Rightarrow> nat" where
  "XV6FS_IOFFSET ino = ino mod XV6FS_IPB"

definition XV6FS_BBLOCK :: "nat \<Rightarrow> xv6fs_superblock \<Rightarrow> nat" where
  "XV6FS_BBLOCK b sb = b div XV6FS_BPB + unat (sb_bmapstart sb)"

definition XV6FS_BOFFSET :: "nat \<Rightarrow> nat" where
  "XV6FS_BOFFSET b = b mod XV6FS_BPB"

definition XV6FS_DSTART :: "xv6fs_superblock \<Rightarrow> nat" where
  "XV6FS_DSTART sb = unat (sb_bmapstart sb + sb_size sb div 4096 + 1)"

section \<open>Byte layout\<close>

definition le32_array :: "u32 list \<Rightarrow> byte list" where
  "le32_array xs = concat (map cpu_to_le32 xs)"

definition le32_at :: "block \<Rightarrow> nat \<Rightarrow> u32" where
  "le32_at d i = le32_to_cpu (get_bytes (4 * i) 4 d)"

definition put_le32 :: "nat \<Rightarrow> u32 \<Rightarrow> block \<Rightarrow> block" where
  "put_le32 i v d = put_bytes (4 * i) (cpu_to_le32 v) d"

definition dinode_bytes :: "xv6fs_dinode \<Rightarrow> byte list" where
  "dinode_bytes di =
     cpu_to_le16 (d_type di) @ cpu_to_le16 (d_major di) @ cpu_to_le16 (d_minor di) @
     cpu_to_le16 (d_nlink di) @ cpu_to_le32 (d_size di) @ le32_array (d_addrs di)"

definition bytes_dinode :: "byte list \<Rightarrow> xv6fs_dinode" where
  "bytes_dinode bs =
     \<lparr>d_type = le16_to_cpu (get_bytes 0 2 bs),
      d_major = le16_to_cpu (get_bytes 2 2 bs),
      d_minor = le16_to_cpu (get_bytes 4 2 bs),
      d_nlink = le16_to_cpu (get_bytes 6 2 bs),
      d_size = le32_to_cpu (get_bytes 8 4 bs),
      d_addrs = map (le32_at (get_bytes 12 52 bs)) [0..<XV6FS_NDIRECT + 1]\<rparr>"

definition zero_dinode :: xv6fs_dinode where
  "zero_dinode = \<lparr>d_type = 0, d_major = 0, d_minor = 0, d_nlink = 0, d_size = 0,
                  d_addrs = replicate (XV6FS_NDIRECT + 1) 0\<rparr>"

text \<open>\<open>((union xv6fs_dinode *) b_data)[i]\<close>, read and assigned.\<close>

definition dinode_at :: "block \<Rightarrow> nat \<Rightarrow> xv6fs_dinode" where
  "dinode_at d i = bytes_dinode (get_bytes (sizeof_dinode * i) sizeof_dinode d)"

definition put_dinode :: "nat \<Rightarrow> xv6fs_dinode \<Rightarrow> block \<Rightarrow> block" where
  "put_dinode i di d = put_bytes (sizeof_dinode * i) (dinode_bytes di) d"

definition dirent_bytes :: "xv6fs_dirent \<Rightarrow> byte list" where
  "dirent_bytes de = cpu_to_le16 (inum de) @ de_name de"

definition bytes_dirent :: "byte list \<Rightarrow> xv6fs_dirent" where
  "bytes_dirent bs = \<lparr>inum = le16_to_cpu (get_bytes 0 2 bs), de_name = get_bytes 2 XV6FS_DIRSIZ bs\<rparr>"

text \<open>\<open>(struct xv6fs_dirent *)(b_data + off)\<close>, read and assigned.\<close>

definition dirent_at :: "block \<Rightarrow> nat \<Rightarrow> xv6fs_dirent" where
  "dirent_at d off = bytes_dirent (get_bytes off sizeof_dirent d)"

definition put_dirent :: "nat \<Rightarrow> xv6fs_dirent \<Rightarrow> block \<Rightarrow> block" where
  "put_dirent off de d = put_bytes off (dirent_bytes de) d"

section \<open>Endian-conversion helpers\<close>

definition xv6fs_sb_to_cpu :: "byte list \<Rightarrow> xv6fs_superblock" where
  "xv6fs_sb_to_cpu d =
     \<lparr>sb_magic = le32_at d 0, sb_size = le32_at d 1, sb_nblocks = le32_at d 2,
      sb_ninodes = le32_at d 3, sb_nlog = le32_at d 4, sb_logstart = le32_at d 5,
      sb_inodestart = le32_at d 6, sb_bmapstart = le32_at d 7\<rparr>"

definition xv6fs_sb_to_disk :: "xv6fs_superblock \<Rightarrow> byte list" where
  "xv6fs_sb_to_disk sb =
     le32_array [sb_magic sb, sb_size sb, sb_nblocks sb, sb_ninodes sb, sb_nlog sb,
                 sb_logstart sb, sb_inodestart sb, sb_bmapstart sb]"

text \<open>
  \<open>xv6fs_dinode_to_cpu\<close> assigns the fields the structure carries and leaves the
  rest of the in-memory inode alone; \<open>xv6fs_dinode_to_disk\<close> truncates the link
  count to 16 and the size to 32 bits, as the assignments to \<open>__le16\<close> and
  \<open>__le32\<close> do.
\<close>

definition xv6fs_dinode_to_cpu :: "xv6fs_dinode \<Rightarrow> xv6fs_inode_info \<Rightarrow> xv6fs_inode_info" where
  "xv6fs_dinode_to_cpu raw ei =
     ei\<lparr>i_type := d_type raw, i_major := d_major raw, i_minor := d_minor raw,
        i_nlink := ucast (d_nlink raw), i_size := uint (d_size raw),
        i_addrs := d_addrs raw\<rparr>"

definition xv6fs_dinode_to_disk :: "xv6fs_inode_info \<Rightarrow> xv6fs_dinode" where
  "xv6fs_dinode_to_disk ei =
     \<lparr>d_type = i_type ei, d_major = i_major ei, d_minor = i_minor ei,
      d_nlink = ucast (i_nlink ei), d_size = word_of_int (i_size ei),
      d_addrs = i_addrs ei\<rparr>"

definition xv6fs_dirent_to_cpu :: "byte list \<Rightarrow> xv6fs_dirent" where
  "xv6fs_dirent_to_cpu disk =
     \<lparr>inum = le16_to_cpu (get_bytes 0 2 disk), de_name = get_bytes 2 XV6FS_DIRSIZ disk\<rparr>"

definition xv6fs_dirent_to_disk :: "xv6fs_dirent \<Rightarrow> byte list" where
  "xv6fs_dirent_to_disk host = cpu_to_le16 (inum host) @ take XV6FS_DIRSIZ (de_name host)"

section \<open>Arrays of 32-bit fields\<close>

lemma length_le32_array [simp]: "length (le32_array xs) = 4 * length xs"
  by (induction xs) (simp_all add: le32_array_def)

lemma le32_at_Cons_0 [simp]: "le32_at (le32_array (x # xs) @ r) 0 = x"
  by (simp add: le32_at_def le32_array_def get_bytes_def)

lemma le32_at_Cons_Suc [simp]:
  "le32_at (le32_array (x # xs) @ r) (Suc i) = le32_at (le32_array xs @ r) i"
  by (simp add: le32_at_def le32_array_def get_bytes_def)

lemma le32_at_array_app [codec]: "i < length xs \<Longrightarrow> le32_at (le32_array xs @ r) i = xs ! i"
  by (induction xs arbitrary: i) (auto simp: less_Suc_eq_0_disj)

lemma le32_at_array [simp, codec]: "i < length xs \<Longrightarrow> le32_at (le32_array xs) i = xs ! i"
  using le32_at_array_app [of i xs "[]"] by simp

lemma le32_array_inverse [codec]: "map (le32_at (le32_array xs)) [0..<length xs] = xs"
  by (rule nth_equalityI) simp_all

lemma get_bytes_drop: "get_bytes (a + k) n d = get_bytes a n (drop k d)"
  by (simp add: get_bytes_def add.commute)

lemma le32_at_Suc: "le32_at d (Suc i) = le32_at (drop 4 d) i"
  using get_bytes_drop [of "4 * i" 4 4 d] by (simp add: le32_at_def add.commute)

lemma le32_array_of_bytes [codec]:
  "length bs = 4 * n \<Longrightarrow> le32_array (map (le32_at bs) [0..<n]) = bs"
proof (induction n arbitrary: bs)
  case 0
  then show ?case by (simp add: le32_array_def)
next
  case (Suc n)
  have "map (le32_at bs) [0..<Suc n] = le32_at bs 0 # map (le32_at (drop 4 bs)) [0..<n]"
    by (rule nth_equalityI) (auto simp: nth_Cons le32_at_Suc simp del: upt_Suc split: nat.split)
  moreover have "le32_array (map (le32_at (drop 4 bs)) [0..<n]) = drop 4 bs"
    using Suc by simp
  moreover have "cpu_to_le32 (le32_at bs 0) = take 4 bs"
    using Suc.prems by (simp add: le32_at_def get_bytes_def le32_encode_decode)
  ultimately show ?case by (simp add: le32_array_def)
qed

lemma length_put_le32 [simp]: "4 * i + 4 \<le> length d \<Longrightarrow> length (put_le32 i v d) = length d"
  by (simp add: put_le32_def)

lemma le32_at_put_same [simp, codec]: "4 * i + 4 \<le> length d \<Longrightarrow> le32_at (put_le32 i v d) i = v"
  by (simp add: le32_at_def put_le32_def)

lemma le32_at_put_other [codec]:
  "i \<noteq> j \<Longrightarrow> 4 * i + 4 \<le> length d \<Longrightarrow> 4 * j + 4 \<le> length d \<Longrightarrow>
   le32_at (put_le32 i v d) j = le32_at d j"
  using slots_disjoint [of i j 4] by (simp add: le32_at_def put_le32_def get_put_bytes_disjoint)

section \<open>Inode and directory-entry slots\<close>

definition wf_dinode :: "xv6fs_dinode \<Rightarrow> bool" where
  "wf_dinode di \<longleftrightarrow> length (d_addrs di) = XV6FS_NDIRECT + 1"

definition wf_dirent :: "xv6fs_dirent \<Rightarrow> bool" where
  "wf_dirent de \<longleftrightarrow> length (de_name de) = XV6FS_DIRSIZ"

lemma length_dinode_bytes [simp]: "wf_dinode di \<Longrightarrow> length (dinode_bytes di) = 64"
  by (simp add: wf_dinode_def dinode_bytes_def)

lemma length_dirent_bytes [simp]: "wf_dirent de \<Longrightarrow> length (dirent_bytes de) = 16"
  by (simp add: wf_dirent_def dirent_bytes_def)

lemma wf_bytes_dinode [simp]: "wf_dinode (bytes_dinode bs)"
  by (simp add: wf_dinode_def bytes_dinode_def)

lemma wf_zero_dinode [simp]: "wf_dinode zero_dinode"
  by (simp add: wf_dinode_def zero_dinode_def)

lemma d_type_zero_dinode [simp]: "d_type zero_dinode = 0"
  by (simp add: zero_dinode_def)

lemma wf_dinode_at [simp]: "wf_dinode (dinode_at d i)"
  by (simp add: dinode_at_def)

lemma get_bytes_app1 [simp]:
  "off + n \<le> length xs \<Longrightarrow> get_bytes off n (xs @ ys) = get_bytes off n xs"
  by (simp add: get_bytes_def)

lemma get_bytes_app2:
  "length xs \<le> off \<Longrightarrow> get_bytes off n (xs @ ys) = get_bytes (off - length xs) n ys"
  by (simp add: get_bytes_def)

lemma get_bytes_all [simp]: "n = length xs \<Longrightarrow> get_bytes 0 n xs = xs"
  by (simp add: get_bytes_def)

lemma bytes_dinode_inverse [simp, codec]: "wf_dinode di \<Longrightarrow> bytes_dinode (dinode_bytes di) = di"
  using le32_array_inverse [of "d_addrs di"]
  by (cases di)
     (simp add: bytes_dinode_def dinode_bytes_def wf_dinode_def get_bytes_app2 del: upt_Suc)

lemma get_bytes_append_consec:
  "b = a + n \<Longrightarrow> k = n + m \<Longrightarrow> get_bytes a n d @ get_bytes b m d = get_bytes a k d"
  by (simp add: get_bytes_def take_add add.commute [of a n])

lemma dinode_bytes_inverse [simp, codec]:
  assumes "length bs = 64" shows "dinode_bytes (bytes_dinode bs) = bs"
proof -
  have addrs: "le32_array (map (le32_at (get_bytes 12 52 bs)) [0..<13]) = get_bytes 12 52 bs"
    using assms by (intro le32_array_of_bytes) simp
  have "dinode_bytes (bytes_dinode bs) =
        get_bytes 0 2 bs @ get_bytes 2 2 bs @ get_bytes 4 2 bs @ get_bytes 6 2 bs @
        get_bytes 8 4 bs @ get_bytes 12 52 bs"
    using assms addrs
    by (simp add: dinode_bytes_def bytes_dinode_def le16_encode_decode le32_encode_decode
             del: upt_Suc)
  also have "\<dots> = get_bytes 0 64 bs"
    by (simp add: get_bytes_append_consec [of 12 8 4 56 52] get_bytes_append_consec [of 8 6 2 58 56]
      get_bytes_append_consec [of 6 4 2 60 58] get_bytes_append_consec [of 4 2 2 62 60]
      get_bytes_append_consec [of 2 0 2 64 62])
  finally show ?thesis using assms by simp
qed

lemma dinode_slot_fits [simp]: "i < 8 \<Longrightarrow> length d = 512 \<Longrightarrow> 64 * i + 64 \<le> length d"
  by simp

lemma length_put_dinode [simp]:
  "i < 8 \<Longrightarrow> length d = 512 \<Longrightarrow> wf_dinode di \<Longrightarrow> length (put_dinode i di d) = 512"
  by (simp add: put_dinode_def)

lemma dinode_at_put_same [simp, codec]:
  "i < 8 \<Longrightarrow> length d = 512 \<Longrightarrow> wf_dinode di \<Longrightarrow> dinode_at (put_dinode i di d) i = di"
  by (simp add: dinode_at_def put_dinode_def)

lemma dinode_at_put_other [codec]:
  "i \<noteq> j \<Longrightarrow> i < 8 \<Longrightarrow> j < 8 \<Longrightarrow> length d = 512 \<Longrightarrow> wf_dinode di \<Longrightarrow>
   dinode_at (put_dinode i di d) j = dinode_at d j"
  using slots_disjoint [of i j 64]
  by (simp add: dinode_at_def put_dinode_def get_put_bytes_disjoint)

lemma wf_dirent_at [simp]: "off + 16 \<le> length d \<Longrightarrow> wf_dirent (dirent_at d off)"
  by (simp add: wf_dirent_def dirent_at_def bytes_dirent_def)

lemma bytes_dirent_inverse [simp, codec]: "wf_dirent de \<Longrightarrow> bytes_dirent (dirent_bytes de) = de"
  by (cases de) (simp add: bytes_dirent_def dirent_bytes_def wf_dirent_def get_bytes_app2)

lemma dirent_bytes_inverse [simp, codec]:
  "length bs = 16 \<Longrightarrow> dirent_bytes (bytes_dirent bs) = bs"
  by (simp add: bytes_dirent_def dirent_bytes_def le16_encode_decode
        get_bytes_append_consec [of 2 0 2 16 14])

lemma length_put_dirent [simp]:
  "off + 16 \<le> length d \<Longrightarrow> wf_dirent de \<Longrightarrow> length (put_dirent off de d) = length d"
  by (simp add: put_dirent_def)

lemma dirent_at_put_same [simp, codec]:
  "off + 16 \<le> length d \<Longrightarrow> wf_dirent de \<Longrightarrow> dirent_at (put_dirent off de d) off = de"
  by (simp add: dirent_at_def put_dirent_def)

lemma dirent_at_put_other [codec]:
  "off + 16 \<le> off' \<or> off' + 16 \<le> off \<Longrightarrow> off + 16 \<le> length d \<Longrightarrow> off' + 16 \<le> length d \<Longrightarrow>
   wf_dirent de \<Longrightarrow> dirent_at (put_dirent off de d) off' = dirent_at d off'"
  by (simp add: dirent_at_def put_dirent_def) (subst get_put_bytes_disjoint; auto)

section \<open>Placement of inodes, bitmap bits and data blocks\<close>

lemma IBLOCK_IOFFSET_inj:
  "XV6FS_IBLOCK i sb = XV6FS_IBLOCK j sb \<Longrightarrow> XV6FS_IOFFSET i = XV6FS_IOFFSET j \<Longrightarrow> i = j"
  by (simp add: XV6FS_IBLOCK_def XV6FS_IOFFSET_def) (metis div_mult_mod_eq)

lemma BBLOCK_BOFFSET_inj:
  "XV6FS_BBLOCK i sb = XV6FS_BBLOCK j sb \<Longrightarrow> XV6FS_BOFFSET i = XV6FS_BOFFSET j \<Longrightarrow> i = j"
  by (simp add: XV6FS_BBLOCK_def XV6FS_BOFFSET_def) (metis div_mult_mod_eq)

lemma IOFFSET_less [simp]: "XV6FS_IOFFSET ino < 8"
  by (simp add: XV6FS_IOFFSET_def)

lemma BOFFSET_less [simp]: "XV6FS_BOFFSET b < 4096"
  by (simp add: XV6FS_BOFFSET_def)

text \<open>
  A superblock whose bitmap and data area do not wrap around the 32-bit block
  space, and whose metadata ends inside the device.
\<close>

definition layout_ok :: "xv6fs_superblock \<Rightarrow> bool" where
  "layout_ok sb \<longleftrightarrow>
     unat (sb_bmapstart sb) + unat (sb_size sb) div 4096 + 1 \<le> unat (sb_size sb) \<and>
     2 \<le> unat (sb_inodestart sb) \<and>
     unat (sb_inodestart sb) + unat (sb_ninodes sb) div 8 + 1 \<le> unat (sb_bmapstart sb)"

lemma DSTART_nowrap:
  assumes "unat (sb_bmapstart sb) + unat (sb_size sb) div 4096 + 1 < 4294967296"
  shows "XV6FS_DSTART sb = unat (sb_bmapstart sb) + unat (sb_size sb) div 4096 + 1"
proof -
  have "unat (sb_size sb div 4096) = unat (sb_size sb) div 4096"
    by (simp add: unat_div)
  then show ?thesis using assms
    by (simp add: XV6FS_DSTART_def unat_word_ariths)
qed

lemma DSTART_layout:
  assumes "layout_ok sb"
  shows "XV6FS_DSTART sb = unat (sb_bmapstart sb) + unat (sb_size sb) div 4096 + 1"
proof (rule DSTART_nowrap)
  show "unat (sb_bmapstart sb) + unat (sb_size sb) div 4096 + 1 < 4294967296"
    using assms unat_u32_less [of "sb_size sb"] unfolding layout_ok_def by linarith
qed

lemma DSTART_le_size: "layout_ok sb \<Longrightarrow> XV6FS_DSTART sb \<le> unat (sb_size sb)"
  by (simp add: DSTART_layout layout_ok_def)

lemma BBLOCK_less_DSTART: "layout_ok sb \<Longrightarrow> b < unat (sb_size sb) \<Longrightarrow> XV6FS_BBLOCK b sb < XV6FS_DSTART sb"
  using div_le_mono [of b "unat (sb_size sb)" 4096]
  by (simp add: DSTART_layout XV6FS_BBLOCK_def)

lemma IBLOCK_less_DSTART:
  "layout_ok sb \<Longrightarrow> ino < unat (sb_ninodes sb) \<Longrightarrow> XV6FS_IBLOCK ino sb < XV6FS_DSTART sb"
  using div_le_mono [of ino "unat (sb_ninodes sb)" 8]
  by (simp add: DSTART_layout XV6FS_IBLOCK_def layout_ok_def)

lemma IBLOCK_not_BBLOCK:
  "layout_ok sb \<Longrightarrow> ino < unat (sb_ninodes sb) \<Longrightarrow> XV6FS_IBLOCK ino sb \<noteq> XV6FS_BBLOCK b sb"
  using div_le_mono [of ino "unat (sb_ninodes sb)" 8]
  by (simp add: XV6FS_BBLOCK_def XV6FS_IBLOCK_def layout_ok_def)

lemma DSTART_pos: "layout_ok sb \<Longrightarrow> 0 < XV6FS_DSTART sb"
  by (simp add: DSTART_layout)

section \<open>Properties\<close>

text \<open>
  The superblock conversions are inverse to each other: what
  \<open>xv6fs_sb_to_disk\<close> writes \<open>xv6fs_sb_to_cpu\<close> reads back, and reading the first
  32 bytes of a block and writing them again changes nothing.
\<close>

lemma superblock_roundtrip:
  assumes "length bs = 32"
  shows "xv6fs_sb_to_cpu (xv6fs_sb_to_disk sb @ rest) = sb \<and> xv6fs_sb_to_disk (xv6fs_sb_to_cpu bs) = bs"
proof
  show "xv6fs_sb_to_cpu (xv6fs_sb_to_disk sb @ rest) = sb"
    by (simp add: xv6fs_sb_to_cpu_def xv6fs_sb_to_disk_def le32_at_array_app)
  have "map (le32_at bs) [0..<8] =
      [le32_at bs 0, le32_at bs 1, le32_at bs 2, le32_at bs 3, le32_at bs 4, le32_at bs 5,
       le32_at bs 6, le32_at bs 7]"
    by (simp add: upt_conv_Cons eval_nat_numeral)
  then show "xv6fs_sb_to_disk (xv6fs_sb_to_cpu bs) = bs"
    using le32_array_of_bytes [of bs 8] assms by (simp add: xv6fs_sb_to_cpu_def xv6fs_sb_to_disk_def)
qed

text \<open>
  Directory entries survive the conversions and occupy their slot only:
  a converted entry reads back as itself, and storing an entry at one of the
  32 slots of a block changes what is read at that slot and at no other.
\<close>

lemma dirent_roundtrip:
  assumes "wf_dirent de" "length d = XV6FS_BSIZE" "i < 32" "j < 32"
  shows "xv6fs_dirent_to_cpu (xv6fs_dirent_to_disk de) = de \<and>
    dirent_at (put_dirent (16 * i) de d) (16 * j) = (if j = i then de else dirent_at d (16 * j)) \<and>
    length (put_dirent (16 * i) de d) = XV6FS_BSIZE"
proof -
  have fit: "16 * i + 16 \<le> length d" "16 * j + 16 \<le> length d" using assms(2-4) by auto
  have "dirent_at (put_dirent (16 * i) de d) (16 * j) = dirent_at d (16 * j)" if "j \<noteq> i"
    using that fit assms(1) by (intro dirent_at_put_other) auto
  moreover have "xv6fs_dirent_to_cpu (xv6fs_dirent_to_disk de) = de"
    using assms(1) bytes_dirent_inverse [OF assms(1)]
    by (simp add: xv6fs_dirent_to_cpu_def xv6fs_dirent_to_disk_def bytes_dirent_def dirent_bytes_def
          wf_dirent_def)
  ultimately show ?thesis using fit assms(1,2) by simp
qed

end
