(* ===== verification/Xv6fs_Kernel.thy ===== *)
theory Xv6fs_Kernel
  imports Xv6fs_Layout
begin

text \<open>
  What the driver shares with the kernel.  The state \<open>fs\<close> of one mounted
  file system holds the buffer cache as the driver sees it through \<open>b_data\<close>,
  the set of buffers marked dirty, the number of buffer references the driver
  holds, the fields of \<open>struct xv6fs_sb_info\<close>, the VFS inode cache and the
  set of inodes marked dirty.  Two reads of the same block give the same
  buffer, so a store through one of them is seen through the other.

  Everything the kernel decides is a field of the record \<open>kernel\<close>, an argument
  of the operations: whether a block can be read, whether an allocation
  succeeds, which pages of an inode are in the page cache (\<open>page_cached K s ino p\<close>
  for page \<open>p\<close>), and the bit operations of the kernel's bitmap library.  The
  locale \<open>le_bitops\<close> states the documented behaviour of those bit operations;
  theorems that need it have the locale predicate as a hypothesis.
  Buffer and list locks are not modelled: an operation is one step.
\<close>

section \<open>Error codes\<close>

datatype errno = EIO | ENOMEM | EINVAL | ENOSPC | EFBIG | ENAMETOOLONG | ENOENT
  | ENOTEMPTY | EPERM | EMLINK | Errno int

section \<open>The state of a mounted file system\<close>

record fs =
  disk :: "nat \<Rightarrow> block"
  dirty :: "nat set"
  holds :: int
  raw_sb :: xv6fs_superblock
  dinodes :: "xv6fs_dinode list"
  free_inodes_list :: "nat list"
  free_inodes :: u32
  icache :: "nat \<rightharpoonup> xv6fs_inode_info"
  idirty :: "nat set"

section \<open>The kernel's side\<close>

text \<open>The attributes \<open>setattr\<close> is asked to change.\<close>

record iattr =
  ia_valid_size :: bool
  ia_size :: int

record kernel =
  sb_bread_ok :: "nat \<Rightarrow> bool"
  sb_getblk_ok :: "nat \<Rightarrow> bool"
  sync_dirty_buffer :: "nat \<Rightarrow> errno option"
  find_next_zero_bit_le :: "block \<Rightarrow> nat \<Rightarrow> nat \<Rightarrow> nat"
  set_bit_le :: "nat \<Rightarrow> block \<Rightarrow> block"
  clear_bit_le :: "nat \<Rightarrow> block \<Rightarrow> block"
  bitmap_weight :: "block \<Rightarrow> nat \<Rightarrow> nat"
  kzalloc_ok :: bool
  kvmalloc_ok :: "nat \<Rightarrow> bool"
  set_blocksize_ok :: bool
  inode_alloc_ok :: "nat \<Rightarrow> bool"
  d_make_root_ok :: bool
  fresh_inode :: xv6fs_inode_info
  setattr_prepare :: "nat \<Rightarrow> iattr \<Rightarrow> errno option"
  setattr_copy :: "iattr \<Rightarrow> xv6fs_inode_info \<Rightarrow> xv6fs_inode_info"
  page_cached :: "fs \<Rightarrow> nat \<Rightarrow> nat \<Rightarrow> bool"

section \<open>Buffers and inodes\<close>

text \<open>
  \<open>sb_bread\<close> returns a referenced buffer (\<open>Some\<close>, with the reference counted)
  or \<open>NULL\<close> (\<open>None\<close>); the buffer is named by its block number.
\<close>

definition sb_bread :: "kernel \<Rightarrow> fs \<Rightarrow> nat \<Rightarrow> fs option" where
  "sb_bread K s b = (if sb_bread_ok K b then Some (s\<lparr>holds := holds s + 1\<rparr>) else None)"

definition sb_getblk :: "kernel \<Rightarrow> fs \<Rightarrow> nat \<Rightarrow> fs option" where
  "sb_getblk K s b = (if sb_getblk_ok K b then Some (s\<lparr>holds := holds s + 1\<rparr>) else None)"

definition brelse :: "fs \<Rightarrow> fs" where
  "brelse s = s\<lparr>holds := holds s - 1\<rparr>"

definition b_store :: "nat \<Rightarrow> block \<Rightarrow> fs \<Rightarrow> fs" where
  "b_store b d s = s\<lparr>disk := (disk s)(b := d)\<rparr>"

definition mark_buffer_dirty :: "nat \<Rightarrow> fs \<Rightarrow> fs" where
  "mark_buffer_dirty b s = s\<lparr>dirty := insert b (dirty s)\<rparr>"

text \<open>
  \<open>xv6fs_i\<close> on a VFS inode the caller holds a reference to; the in-memory
  inode of number \<open>ino\<close> is the entry of the inode cache.
\<close>

definition xv6fs_i :: "fs \<Rightarrow> nat \<Rightarrow> xv6fs_inode_info" where
  "xv6fs_i s ino = the (icache s ino)"

definition set_inode :: "nat \<Rightarrow> xv6fs_inode_info \<Rightarrow> fs \<Rightarrow> fs" where
  "set_inode ino ei s = s\<lparr>icache := (icache s)(ino \<mapsto> ei)\<rparr>"

definition mark_inode_dirty :: "nat \<Rightarrow> fs \<Rightarrow> fs" where
  "mark_inode_dirty ino s = s\<lparr>idirty := insert ino (idirty s)\<rparr>"

section \<open>Reference bit operations\<close>

text \<open>
  Executable functions with the documented behaviour of the kernel's bit
  operations, and a kernel in which nothing fails.
\<close>

definition ref_find_next_zero_bit_le :: "block \<Rightarrow> nat \<Rightarrow> nat \<Rightarrow> nat" where
  "ref_find_next_zero_bit_le d n off =
     (case find (\<lambda>i. \<not> test_bit_le d i) [off..<n] of Some i \<Rightarrow> i | None \<Rightarrow> n)"

definition ref_set_bit_le :: "nat \<Rightarrow> block \<Rightarrow> block" where
  "ref_set_bit_le n d = d[n div 8 := d ! (n div 8) OR push_bit (n mod 8) 1]"

definition ref_clear_bit_le :: "nat \<Rightarrow> block \<Rightarrow> block" where
  "ref_clear_bit_le n d = d[n div 8 := d ! (n div 8) AND NOT (push_bit (n mod 8) 1)]"

definition ref_bitmap_weight :: "block \<Rightarrow> nat \<Rightarrow> nat" where
  "ref_bitmap_weight d n = length (filter (test_bit_le d) [0..<n])"

definition blank_inode :: xv6fs_inode_info where
  "blank_inode =
     \<lparr>i_addrs = replicate 13 0, i_type = 0, i_major = 0, i_minor = 0, i_nlink = 1, i_size = 0,
      i_blocks = 0, i_mode = 0, i_uid = 0, i_gid = 0, i_atime = 0, i_mtime = 0, i_ctime = 0,
      i_op = Ops_default, i_fop = Ops_default, i_aops = Ops_default, i_rdev = 0\<rparr>"

definition ref_kernel :: kernel where
  "ref_kernel =
     \<lparr>sb_bread_ok = (\<lambda>_. True), sb_getblk_ok = (\<lambda>_. True), sync_dirty_buffer = (\<lambda>_. None),
      find_next_zero_bit_le = ref_find_next_zero_bit_le, set_bit_le = ref_set_bit_le,
      clear_bit_le = ref_clear_bit_le, bitmap_weight = ref_bitmap_weight,
      kzalloc_ok = True, kvmalloc_ok = (\<lambda>_. True), set_blocksize_ok = True,
      inode_alloc_ok = (\<lambda>_. True), d_make_root_ok = True, fresh_inode = blank_inode,
      setattr_prepare = (\<lambda>_ _. None), setattr_copy = (\<lambda>_ ei. ei),
      page_cached = (\<lambda>_ _ _. True)\<rparr>"

section \<open>The documented behaviour of the bit operations\<close>

locale le_bitops =
  fixes find_zero :: "block \<Rightarrow> nat \<Rightarrow> nat \<Rightarrow> nat"
    and set_b :: "nat \<Rightarrow> block \<Rightarrow> block"
    and clear_b :: "nat \<Rightarrow> block \<Rightarrow> block"
    and weight :: "block \<Rightarrow> nat \<Rightarrow> nat"
  assumes find_zero_found:
      "n \<le> 8 * length d \<Longrightarrow> find_zero d n off < n \<Longrightarrow>
       off \<le> find_zero d n off \<and> \<not> test_bit_le d (find_zero d n off) \<and>
       (\<forall>i. off \<le> i \<and> i < find_zero d n off \<longrightarrow> test_bit_le d i)"
    and find_zero_none:
      "n \<le> 8 * length d \<Longrightarrow> \<not> find_zero d n off < n \<Longrightarrow> off \<le> i \<Longrightarrow> i < n \<Longrightarrow> test_bit_le d i"
    and length_set_b: "n < 8 * length d \<Longrightarrow> length (set_b n d) = length d"
    and test_set_b:
      "n < 8 * length d \<Longrightarrow> i < 8 * length d \<Longrightarrow> test_bit_le (set_b n d) i \<longleftrightarrow> i = n \<or> test_bit_le d i"
    and length_clear_b: "n < 8 * length d \<Longrightarrow> length (clear_b n d) = length d"
    and test_clear_b:
      "n < 8 * length d \<Longrightarrow> i < 8 * length d \<Longrightarrow>
       test_bit_le (clear_b n d) i \<longleftrightarrow> i \<noteq> n \<and> test_bit_le d i"
    and weight_card: "n \<le> 8 * length d \<Longrightarrow> weight d n = card {i. i < n \<and> test_bit_le d i}"
begin

lemma find_zero_least:
  assumes "n \<le> 8 * length d" "off \<le> i" "i < n" "\<not> test_bit_le d i"
  shows "find_zero d n off < n \<and> find_zero d n off \<le> i"
proof -
  have "find_zero d n off < n"
    using assms find_zero_none by blast
  moreover from this have "\<not> i < find_zero d n off"
    using assms find_zero_found by blast
  ultimately show ?thesis by simp
qed

end

abbreviation kernel_bitops :: "kernel \<Rightarrow> bool" where
  "kernel_bitops K \<equiv>
     le_bitops (find_next_zero_bit_le K) (set_bit_le K) (clear_bit_le K) (bitmap_weight K)"

lemma length_ref_set_bit [simp]: "length (ref_set_bit_le n d) = length d"
  by (simp add: ref_set_bit_le_def)

lemma length_ref_clear_bit [simp]: "length (ref_clear_bit_le n d) = length d"
  by (simp add: ref_clear_bit_le_def)

lemma bit_mask_byte: "m < 8 \<Longrightarrow> j < 8 \<Longrightarrow> bit (push_bit m 1 :: byte) j \<longleftrightarrow> j = m"
  by (auto simp: bit_simps)

lemma div_mod_8_eq: "(i::nat) div 8 = n div 8 \<Longrightarrow> i mod 8 = n mod 8 \<Longrightarrow> i = n"
  by (metis div_mult_mod_eq)

lemma ref_test_set_bit:
  assumes "n < 8 * length d" "i < 8 * length d"
  shows "test_bit_le (ref_set_bit_le n d) i \<longleftrightarrow> i = n \<or> test_bit_le d i"
proof (cases "i div 8 = n div 8")
  case True
  then show ?thesis using assms bit_mask_byte [of "n mod 8" "i mod 8"] div_mod_8_eq [OF True]
    by (auto simp: test_bit_le_def ref_set_bit_le_def bit_or_iff)
next
  case False
  then show ?thesis using assms by (auto simp: test_bit_le_def ref_set_bit_le_def)
qed

lemma ref_test_clear_bit:
  assumes "n < 8 * length d" "i < 8 * length d"
  shows "test_bit_le (ref_clear_bit_le n d) i \<longleftrightarrow> i \<noteq> n \<and> test_bit_le d i"
proof (cases "i div 8 = n div 8")
  case True
  then show ?thesis using assms bit_mask_byte [of "n mod 8" "i mod 8"] div_mod_8_eq [OF True]
    by (auto simp: test_bit_le_def ref_clear_bit_le_def bit_and_iff bit_not_iff)
next
  case False
  then show ?thesis using assms by (auto simp: test_bit_le_def ref_clear_bit_le_def)
qed

lemma find_upt_least:
  assumes "find P [off..<n] = Some i"
  shows "off \<le> i \<and> i < n \<and> P i \<and> (\<forall>j. off \<le> j \<and> j < i \<longrightarrow> \<not> P j)"
proof -
  from assms obtain k where k: "k < length [off..<n]" "P ([off..<n] ! k)" "i = [off..<n] ! k"
    and least: "\<forall>j<k. \<not> P ([off..<n] ! j)"
    by (auto simp: find_Some_iff)
  have "\<not> P j" if "off \<le> j" "j < i" for j
    using that k least by (auto dest: spec [of _ "j - off"])
  then show ?thesis using k by auto
qed

interpretation ref_bits: le_bitops ref_find_next_zero_bit_le ref_set_bit_le ref_clear_bit_le
  ref_bitmap_weight
proof
  fix n d off assume "ref_find_next_zero_bit_le d n off < n"
  then obtain i where "find (\<lambda>i. \<not> test_bit_le d i) [off..<n] = Some i"
    and "ref_find_next_zero_bit_le d n off = i"
    by (auto simp: ref_find_next_zero_bit_le_def split: option.splits)
  then show "off \<le> ref_find_next_zero_bit_le d n off \<and>
    \<not> test_bit_le d (ref_find_next_zero_bit_le d n off) \<and>
    (\<forall>i. off \<le> i \<and> i < ref_find_next_zero_bit_le d n off \<longrightarrow> test_bit_le d i)"
    using find_upt_least [of "\<lambda>i. \<not> test_bit_le d i" off n i] by auto
next
  fix n d off i
  assume "\<not> ref_find_next_zero_bit_le d n off < n" "off \<le> i" "i < n"
  then show "test_bit_le d i"
    by (auto simp: ref_find_next_zero_bit_le_def find_None_iff split: option.splits
             dest: find_upt_least)
next
  fix n d
  have "{i. i < n \<and> test_bit_le d i} = set (filter (test_bit_le d) [0..<n])" by auto
  then show "ref_bitmap_weight d n = card {i. i < n \<and> test_bit_le d i}"
    by (simp only: ref_bitmap_weight_def distinct_card distinct_filter distinct_upt)
qed (simp_all add: ref_test_set_bit ref_test_clear_bit)

lemma ref_kernel_bitops: "kernel_bitops ref_kernel"
  by (simp add: ref_kernel_def ref_bits.le_bitops_axioms)

section \<open>Facts on buffers and inodes\<close>

lemmas buffer_defs = sb_bread_def sb_getblk_def brelse_def b_store_def mark_buffer_dirty_def
lemmas inode_defs = xv6fs_i_def set_inode_def mark_inode_dirty_def

lemma brelse_bread [simp]: "sb_bread K s b = Some s' \<Longrightarrow> brelse s' = s"
  by (auto simp: buffer_defs split: if_splits)

lemma sb_bread_None [simp]: "sb_bread K s b = None \<longleftrightarrow> \<not> sb_bread_ok K b"
  by (simp add: sb_bread_def)

text \<open>Selectors through the updates that touch neither buffers' contents nor inodes.\<close>

lemma ghost_sel [simp]:
  "disk (mark_inode_dirty j s) = disk s" "disk (mark_buffer_dirty b s) = disk s"
  "disk (brelse s) = disk s"
  "raw_sb (mark_inode_dirty j s) = raw_sb s" "raw_sb (mark_buffer_dirty b s) = raw_sb s"
  "raw_sb (brelse s) = raw_sb s" "raw_sb (b_store b d s) = raw_sb s"
  "icache (mark_inode_dirty j s) = icache s" "icache (mark_buffer_dirty b s) = icache s"
  "icache (brelse s) = icache s" "icache (b_store b d s) = icache s"
  "holds (mark_inode_dirty j s) = holds s" "holds (mark_buffer_dirty b s) = holds s"
  "holds (brelse s) = holds s - 1" "holds (b_store b d s) = holds s"
  "dirty (mark_inode_dirty j s) = dirty s" "dirty (mark_buffer_dirty b s) = insert b (dirty s)"
  "dirty (brelse s) = dirty s" "dirty (b_store b d s) = dirty s"
  "disk (b_store b d s) = (disk s)(b := d)"
  by (simp_all add: inode_defs buffer_defs)

text \<open>The tables of \<open>xv6fs_sb_info\<close> that only inode allocation and eviction change.\<close>

lemma table_sel [simp]:
  "dinodes (mark_inode_dirty j s) = dinodes s" "dinodes (mark_buffer_dirty b s) = dinodes s"
  "dinodes (brelse s) = dinodes s" "dinodes (b_store b d s) = dinodes s"
  "dinodes (set_inode j ei s) = dinodes s"
  "free_inodes_list (mark_inode_dirty j s) = free_inodes_list s"
  "free_inodes_list (mark_buffer_dirty b s) = free_inodes_list s"
  "free_inodes_list (brelse s) = free_inodes_list s"
  "free_inodes_list (b_store b d s) = free_inodes_list s"
  "free_inodes_list (set_inode j ei s) = free_inodes_list s"
  "free_inodes (mark_inode_dirty j s) = free_inodes s"
  "free_inodes (mark_buffer_dirty b s) = free_inodes s"
  "free_inodes (brelse s) = free_inodes s" "free_inodes (b_store b d s) = free_inodes s"
  "free_inodes (set_inode j ei s) = free_inodes s"
  "idirty (mark_inode_dirty j s) = insert j (idirty s)" "idirty (mark_buffer_dirty b s) = idirty s"
  "idirty (brelse s) = idirty s" "idirty (b_store b d s) = idirty s" "idirty (set_inode j ei s) = idirty s"
  by (simp_all add: inode_defs buffer_defs)

text \<open>
  What stays the same when the driver writes one buffer: the contents of the
  other blocks, the superblock copy and the inode tables.
\<close>

definition only_writes :: "nat set \<Rightarrow> fs \<Rightarrow> fs \<Rightarrow> bool" where
  "only_writes B s s' \<longleftrightarrow>
     (\<forall>b. b \<notin> B \<longrightarrow> disk s' b = disk s b) \<and>
     (\<forall>b. disk s' b \<noteq> disk s b \<longrightarrow> b \<in> dirty s') \<and> dirty s \<subseteq> dirty s' \<and>
     holds s' = holds s \<and> raw_sb s' = raw_sb s \<and> dinodes s' = dinodes s \<and>
     free_inodes_list s' = free_inodes_list s \<and> free_inodes s' = free_inodes s"

lemma only_writes_refl [simp]: "only_writes B s s"
  by (simp add: only_writes_def)

lemma only_writes_trans: "only_writes B s t \<Longrightarrow> only_writes C t u \<Longrightarrow> only_writes (B \<union> C) s u"
  unfolding only_writes_def by (metis UnCI subset_iff)

lemma only_writes_mono: "only_writes B s t \<Longrightarrow> B \<subseteq> C \<Longrightarrow> only_writes C s t"
  unfolding only_writes_def by blast

section \<open>A small file system\<close>

text \<open>
  A file system of 100 blocks and 16 inodes with an empty bitmap: the inode
  table is in blocks 2 to 4, the bitmap in block 5, and data starts at block
  6.  The root directory is cached; inode 1 is in use, the others are free.
\<close>

definition demo_sb :: xv6fs_superblock where
  "demo_sb = \<lparr>sb_magic = XV6FS_MAGIC, sb_size = 100, sb_nblocks = 94, sb_ninodes = 16, sb_nlog = 0,
              sb_logstart = 2, sb_inodestart = 2, sb_bmapstart = 5\<rparr>"

definition demo_root :: xv6fs_inode_info where
  "demo_root = blank_inode\<lparr>i_type := XV6FS_T_DIR\<rparr>"

definition demo_fs :: fs where
  "demo_fs =
     \<lparr>disk = (\<lambda>_. replicate 512 0), dirty = {}, holds = 0, raw_sb = demo_sb,
      dinodes = (replicate 16 zero_dinode)[1 := zero_dinode\<lparr>d_type := XV6FS_T_DIR\<rparr>],
      free_inodes_list = [2..<16], free_inodes = 14, icache = [1 \<mapsto> demo_root], idirty = {}\<rparr>"

lemma demo_sel [simp]:
  "disk demo_fs b = replicate 512 0" "raw_sb demo_fs = demo_sb" "icache demo_fs 1 = Some demo_root"
  "xv6fs_i demo_fs 1 = demo_root" "i_addrs demo_root = replicate 13 0" "holds demo_fs = 0"
  "sb_size demo_sb = 100" "sb_ninodes demo_sb = 16" "sb_inodestart demo_sb = 2"
  "sb_bmapstart demo_sb = 5" "i_nlink demo_root = 1" "i_size demo_root = 0"
  by (simp_all add: demo_fs_def demo_sb_def demo_root_def blank_inode_def xv6fs_i_def)

lemmas demo_sel_Suc [simp] = demo_sel(3,4) [unfolded One_nat_def]

lemma demo_layout [simp]: "layout_ok demo_sb" "XV6FS_DSTART demo_sb = 6"
  by (simp_all add: layout_ok_def XV6FS_DSTART_def)

lemma ref_kernel_ok [simp]: "sb_bread_ok ref_kernel b" "sb_getblk_ok ref_kernel b"
  "inode_alloc_ok ref_kernel i" "kvmalloc_ok ref_kernel n" "fresh_inode ref_kernel = blank_inode"
  by (simp_all add: ref_kernel_def)

end
