(* ===== verification/Xv6fs_Bmap.thy ===== *)
theory Xv6fs_Bmap
  imports Xv6fs_Kernel
begin

text \<open>
  The free-block bitmap of \<^verbatim>\<open>src/bmap.c\<close>: allocating a block, freeing one and
  counting the free ones.  The bitmap of block \<open>b\<close> is bit \<open>b mod 4096\<close> of the
  buffer \<open>XV6FS_BBLOCK b\<close>; \<open>block_used\<close> is that bit.

  The lemmas show what the scans compute: \<open>xv6fs_balloc\<close> takes the least
  free block of its search range and changes no other bit, it reports
  \<open>-ENOSPC\<close> only when that range is full, \<open>xv6fs_bfree\<close> clears one bit of a
  data block, and \<open>xv6fs_b_count_free\<close> counts the clear bits of the data area
  while its 32-bit counter does not overflow.  The locale \<open>slot_allocator\<close> is
  the contract of an allocator of numbered slots.
\<close>

section \<open>Operations\<close>

text \<open>
  The loop of \<open>xv6fs_b_count_free\<close>: \<open>bh\<close> tells whether the buffer of the first
  group is still held from the partial count before the loop.  \<open>used\<close> is the
  C \<open>int\<close>, kept at 32 bits.
\<close>

function count_used_loop :: "kernel \<Rightarrow> nat \<Rightarrow> bool \<Rightarrow> u32 \<Rightarrow> fs \<Rightarrow> nat \<Rightarrow> (errno + u32) \<times> fs" where
  "count_used_loop K tot bh used s b =
     (if b < tot then
        (case (if bh then Some s else sb_bread K s (XV6FS_BBLOCK b (raw_sb s))) of
           None \<Rightarrow> (Inl EIO, s)
         | Some s1 \<Rightarrow>
             let bits = min XV6FS_BPB (tot - b);
                 used' = used + of_nat (bitmap_weight K (disk s1 (XV6FS_BBLOCK b (raw_sb s))) bits)
             in count_used_loop K tot False used' (brelse s1) (b + XV6FS_BPB))
      else (Inr used, s))"
  by pat_completeness auto
termination
  by (relation "measure (\<lambda>(K, tot, bh, used, s, b). tot - b)") auto

text \<open>
  The result is a \<open>long\<close>: \<open>used\<close> is sign-extended to 64 bits and the sum is
  taken modulo \<open>2 ^ 64\<close>.
\<close>

definition xv6fs_b_count_free :: "kernel \<Rightarrow> fs \<Rightarrow> (errno + u64) \<times> fs" where
  "xv6fs_b_count_free K s =
     (let tot = unat (sb_size (raw_sb s));
          dstart = XV6FS_DSTART (raw_sb s);
          bstart = dstart - dstart mod XV6FS_BPB;
          bblock = XV6FS_BBLOCK bstart (raw_sb s);
          finish = (\<lambda>non_data bh s1.
            (case count_used_loop K tot bh 0 s1 bstart of
               (Inl e, s2) \<Rightarrow> (Inl e, s2)
             | (Inr used, s2) \<Rightarrow>
                 (Inr (of_nat tot - scast used - of_nat dstart + of_nat non_data), s2)))
      in if dstart mod XV6FS_BPB \<noteq> 0 then
           (case sb_bread K s bblock of
              None \<Rightarrow> (Inl EIO, s)
            | Some s1 \<Rightarrow> finish (bitmap_weight K (disk s1 bblock) (dstart - bstart)) True s1)
         else finish 0 False s)"

function balloc_loop :: "kernel \<Rightarrow> nat \<Rightarrow> fs \<Rightarrow> nat \<Rightarrow> (errno + nat) \<times> fs" where
  "balloc_loop K tot s b =
     (if b < tot then
        (case sb_bread K s (XV6FS_BBLOCK b (raw_sb s)) of
           None \<Rightarrow> (Inl EIO, s)
         | Some s1 \<Rightarrow>
             let bn = XV6FS_BBLOCK b (raw_sb s);
                 bits = min XV6FS_BPB (tot - b);
                 offset = (if b < XV6FS_BPB then XV6FS_DSTART (raw_sb s) else 0);
                 bitmap = disk s1 bn;
                 bitn = find_next_zero_bit_le K bitmap bits offset
             in if bitn < bits
                then (Inr (b + bitn),
                      brelse (mark_buffer_dirty bn (b_store bn (set_bit_le K bitn bitmap) s1)))
                else balloc_loop K tot (brelse s1) (b + XV6FS_BPB))
      else (Inl ENOSPC, s))"
  by pat_completeness auto
termination
  by (relation "measure (\<lambda>(K, tot, s, b). tot - b)") auto

definition xv6fs_balloc :: "kernel \<Rightarrow> fs \<Rightarrow> (errno + nat) \<times> fs" where
  "xv6fs_balloc K s = balloc_loop K (unat (sb_size (raw_sb s))) s 0"

definition xv6fs_bfree :: "kernel \<Rightarrow> nat \<Rightarrow> fs \<Rightarrow> fs" where
  "xv6fs_bfree K b s =
     (if unat (sb_size (raw_sb s)) \<le> b then s
      else if b < XV6FS_DSTART (raw_sb s) then s
      else
        let bn = XV6FS_BBLOCK b (raw_sb s)
        in case sb_bread K s bn of
             None \<Rightarrow> s
           | Some s1 \<Rightarrow>
               brelse (mark_buffer_dirty bn
                 (b_store bn (clear_bit_le K (XV6FS_BOFFSET b) (disk s1 bn)) s1)))"

declare count_used_loop.simps [simp del] balloc_loop.simps [simp del]

section \<open>The bitmap as a set of blocks\<close>

definition block_used :: "fs \<Rightarrow> nat \<Rightarrow> bool" where
  "block_used s b = test_bit_le (disk s (XV6FS_BBLOCK b (raw_sb s))) (XV6FS_BOFFSET b)"

text \<open>
  The range \<open>xv6fs_balloc\<close> searches: in the first group it starts at
  \<open>XV6FS_DSTART\<close>, in every later group at bit 0.
\<close>

definition balloc_range :: "fs \<Rightarrow> nat set" where
  "balloc_range s =
     {b. b < unat (sb_size (raw_sb s)) \<and> (b < XV6FS_BPB \<longrightarrow> XV6FS_DSTART (raw_sb s) \<le> b)}"

definition free_blocks :: "fs \<Rightarrow> nat set" where
  "free_blocks s = {b \<in> balloc_range s. \<not> block_used s b}"

definition data_blocks :: "fs \<Rightarrow> nat set" where
  "data_blocks s = {b. XV6FS_DSTART (raw_sb s) \<le> b \<and> b < unat (sb_size (raw_sb s))}"

text \<open>
  The blocks outside the bitmap that the driver uses: those before it but the
  boot block, and the data area.
\<close>

definition outside_bitmap :: "fs \<Rightarrow> nat set" where
  "outside_bitmap s = {0<..<unat (sb_bmapstart (raw_sb s))} \<union> data_blocks s"

lemma data_outside [simp]: "b \<in> data_blocks s \<Longrightarrow> b \<in> outside_bitmap s"
  by (simp add: outside_bitmap_def)

definition blocks_512 :: "fs \<Rightarrow> bool" where
  "blocks_512 s \<longleftrightarrow> (\<forall>b. length (disk s b) = 512)"

section \<open>Group arithmetic\<close>

lemma group_split:
  assumes "4096 dvd b" "i < 4096"
  shows "XV6FS_BBLOCK (b + i) sb = XV6FS_BBLOCK b sb" "XV6FS_BOFFSET (b + i) = i"
  using assms by (auto simp: XV6FS_BBLOCK_def XV6FS_BOFFSET_def elim!: dvdE)

lemma block_used_group:
  assumes "4096 dvd b" "i < 4096"
  shows "block_used s (b + i) \<longleftrightarrow> test_bit_le (disk s (XV6FS_BBLOCK b (raw_sb s))) i"
  using assms by (simp add: block_used_def group_split)

lemma in_group: "4096 dvd b \<Longrightarrow> b \<le> n \<Longrightarrow> n < b + 4096 \<Longrightarrow> \<exists>i. n = b + i \<and> i < (4096::nat)"
  by (intro exI [of _ "n - b"]) auto

section \<open>Allocation\<close>

text \<open>
  What one call of \<open>xv6fs_balloc\<close> may return, by its result; \<open>lo\<close> is where the
  scan starts.
\<close>

definition balloc_post :: "kernel \<Rightarrow> nat \<Rightarrow> fs \<Rightarrow> (errno + nat) \<times> fs \<Rightarrow> bool" where
  "balloc_post K lo s r \<longleftrightarrow>
     (case r of
        (Inr n, s') \<Rightarrow>
          n \<in> free_blocks s \<and> lo \<le> n \<and> (\<forall>m \<in> free_blocks s. lo \<le> m \<longrightarrow> n \<le> m) \<and>
          sb_bread_ok K (XV6FS_BBLOCK n (raw_sb s)) \<and>
          s' = s\<lparr>disk := (disk s)(XV6FS_BBLOCK n (raw_sb s) :=
                    set_bit_le K (XV6FS_BOFFSET n) (disk s (XV6FS_BBLOCK n (raw_sb s)))),
                 dirty := insert (XV6FS_BBLOCK n (raw_sb s)) (dirty s)\<rparr>
      | (Inl e, s') \<Rightarrow>
          s' = s \<and>
          (e = ENOSPC \<and> (\<forall>m \<in> free_blocks s. m < lo) \<or>
           e = EIO \<and> (\<exists>m. lo \<le> m \<and> m < unat (sb_size (raw_sb s)) \<and>
                          \<not> sb_bread_ok K (XV6FS_BBLOCK m (raw_sb s)))))"

text \<open>The bit search of one group, in terms of \<open>free_blocks\<close>.\<close>

abbreviation group_bits :: "fs \<Rightarrow> nat \<Rightarrow> nat" where
  "group_bits s b \<equiv> min 4096 (unat (sb_size (raw_sb s)) - b)"

abbreviation group_scan :: "kernel \<Rightarrow> fs \<Rightarrow> nat \<Rightarrow> nat" where
  "group_scan K s b \<equiv>
     find_next_zero_bit_le K (disk s (XV6FS_BBLOCK b (raw_sb s))) (group_bits s b)
       (if b < 4096 then XV6FS_DSTART (raw_sb s) else 0)"

lemma free_blocks_group:
  assumes "4096 dvd b" "i < group_bits s b"
  shows "b + i \<in> free_blocks s \<longleftrightarrow>
         (if b < 4096 then XV6FS_DSTART (raw_sb s) else 0) \<le> i \<and>
         \<not> test_bit_le (disk s (XV6FS_BBLOCK b (raw_sb s))) i"
proof (cases "b < 4096")
  case True
  with assms(1) have "b = 0" by (auto elim!: dvdE)
  with assms show ?thesis
    by (auto simp: free_blocks_def balloc_range_def block_used_group [of 0 i, simplified])
next
  case False
  with assms show ?thesis
    by (auto simp: free_blocks_def balloc_range_def block_used_group)
qed

lemma group_scan_found:
  assumes "kernel_bitops K" "blocks_512 s" "4096 dvd b"
    and found: "group_scan K s b < group_bits s b"
  shows "b + group_scan K s b \<in> free_blocks s"
    and "\<forall>m \<in> free_blocks s. b \<le> m \<longrightarrow> b + group_scan K s b \<le> m"
proof -
  have bits: "group_bits s b \<le> 8 * length (disk s (XV6FS_BBLOCK b (raw_sb s)))"
    using assms(2) by (simp add: blocks_512_def)
  show "b + group_scan K s b \<in> free_blocks s"
    using le_bitops.find_zero_found [OF assms(1) bits found]
      free_blocks_group [OF assms(3) found] by blast
  show "\<forall>m \<in> free_blocks s. b \<le> m \<longrightarrow> b + group_scan K s b \<le> m"
  proof (intro ballI impI, rule ccontr)
    fix m assume m: "m \<in> free_blocks s" "b \<le> m" "\<not> b + group_scan K s b \<le> m"
    then obtain i where i: "m = b + i" "i < group_scan K s b"
      by (metis add_less_cancel_left le_Suc_ex not_le)
    with found have "i < group_bits s b" by linarith
    with m(1) i show False
      using free_blocks_group [OF assms(3)] le_bitops.find_zero_found [OF assms(1) bits found]
      by blast
  qed
qed

lemma group_scan_none:
  assumes "kernel_bitops K" "blocks_512 s" "4096 dvd b"
    and none: "\<not> group_scan K s b < group_bits s b"
  shows "\<forall>m \<in> free_blocks s. b \<le> m \<longrightarrow> b + 4096 \<le> m"
proof (intro ballI impI, rule ccontr)
  fix m assume m: "m \<in> free_blocks s" "b \<le> m" "\<not> b + 4096 \<le> m"
  then obtain i where i: "m = b + i" "i < 4096" using in_group assms(3) by (metis not_le)
  moreover have "m < unat (sb_size (raw_sb s))"
    using m(1) by (simp add: free_blocks_def balloc_range_def)
  ultimately have less: "i < group_bits s b" by auto
  have bits: "group_bits s b \<le> 8 * length (disk s (XV6FS_BBLOCK b (raw_sb s)))"
    using assms(2) by (simp add: blocks_512_def)
  show False
    using m(1) i(1) free_blocks_group [OF assms(3) less]
      le_bitops.find_zero_none [OF assms(1) bits none _ less] by blast
qed

lemma balloc_post_mono:
  "balloc_post K (b + 4096) s r \<Longrightarrow> \<forall>m \<in> free_blocks s. b \<le> m \<longrightarrow> b + 4096 \<le> m \<Longrightarrow>
   balloc_post K b s r"
  unfolding balloc_post_def
  by (auto split: prod.splits sum.splits) (metis le_trans le_add1 not_le)+

lemma balloc_loop_step:
  assumes "b < unat (sb_size (raw_sb s))" "sb_bread_ok K (XV6FS_BBLOCK b (raw_sb s))"
  shows "balloc_loop K (unat (sb_size (raw_sb s))) s b =
    (if group_scan K s b < group_bits s b
     then (Inr (b + group_scan K s b),
           s\<lparr>disk := (disk s)(XV6FS_BBLOCK b (raw_sb s) :=
                 set_bit_le K (group_scan K s b) (disk s (XV6FS_BBLOCK b (raw_sb s)))),
              dirty := insert (XV6FS_BBLOCK b (raw_sb s)) (dirty s)\<rparr>)
     else balloc_loop K (unat (sb_size (raw_sb s))) s (b + 4096))"
  using assms
  by (simp add: balloc_loop.simps [of K "unat (sb_size (raw_sb s))" s b] Let_def buffer_defs
           cong: if_cong)

lemma balloc_loop_post:
  assumes "kernel_bitops K" "blocks_512 s" "4096 dvd b"
  shows "balloc_post K b s (balloc_loop K (unat (sb_size (raw_sb s))) s b)"
  using assms(3)
proof (induction "unat (sb_size (raw_sb s)) - b" arbitrary: b rule: less_induct)
  case less
  let ?tot = "unat (sb_size (raw_sb s))"
  consider "?tot \<le> b" | "b < ?tot" "\<not> sb_bread_ok K (XV6FS_BBLOCK b (raw_sb s))"
    | "b < ?tot" "sb_bread_ok K (XV6FS_BBLOCK b (raw_sb s))" by linarith
  then show ?case
  proof cases
    case 1
    then show ?thesis
      by (auto simp: balloc_loop.simps [of K ?tot s b] balloc_post_def free_blocks_def
                     balloc_range_def)
  next
    case 2
    then show ?thesis
      by (auto simp: balloc_loop.simps [of K ?tot s b] balloc_post_def sb_bread_def)
  next
    case 3
    show ?thesis
    proof (cases "group_scan K s b < group_bits s b")
      case True
      note f = group_scan_found [OF assms(1,2) less.prems True]
      from True have "group_scan K s b < 4096" by simp
      note g = group_split [OF less.prems this]
      show ?thesis
        unfolding balloc_loop_step [OF 3] if_P [OF True] balloc_post_def prod.case sum.case g
        using f 3 by simp
    next
      case False
      have "balloc_post K (b + 4096) s (balloc_loop K ?tot s (b + 4096))"
        using 3 less.prems by (intro less.hyps) auto
      then have "balloc_post K b s (balloc_loop K ?tot s (b + 4096))"
        using group_scan_none [OF assms(1,2) less.prems False] by (rule balloc_post_mono)
      then show ?thesis unfolding balloc_loop_step [OF 3] if_not_P [OF False] .
    qed
  qed
qed

lemma balloc_post_call:
  "kernel_bitops K \<Longrightarrow> blocks_512 s \<Longrightarrow> balloc_post K 0 s (xv6fs_balloc K s)"
  using balloc_loop_post [of K s 0] by (simp add: xv6fs_balloc_def)

section \<open>The effect of a bitmap update\<close>

text \<open>The state after one bit of the bitmap has been rewritten by \<open>f\<close>.\<close>

definition bitmap_update :: "(nat \<Rightarrow> block \<Rightarrow> block) \<Rightarrow> nat \<Rightarrow> fs \<Rightarrow> fs" where
  "bitmap_update f n s =
     s\<lparr>disk := (disk s)(XV6FS_BBLOCK n (raw_sb s) :=
                 f (XV6FS_BOFFSET n) (disk s (XV6FS_BBLOCK n (raw_sb s)))),
       dirty := insert (XV6FS_BBLOCK n (raw_sb s)) (dirty s)\<rparr>"

lemma bitmap_update_sel [simp]:
  "raw_sb (bitmap_update f n s) = raw_sb s" "holds (bitmap_update f n s) = holds s"
  "dinodes (bitmap_update f n s) = dinodes s" "icache (bitmap_update f n s) = icache s"
  "free_inodes_list (bitmap_update f n s) = free_inodes_list s"
  "free_inodes (bitmap_update f n s) = free_inodes s" "idirty (bitmap_update f n s) = idirty s"
  by (simp_all add: bitmap_update_def)

lemma disk_bitmap_update [frame]:
  "b \<noteq> XV6FS_BBLOCK n (raw_sb s) \<Longrightarrow> disk (bitmap_update f n s) b = disk s b"
  by (simp add: bitmap_update_def)

lemma only_writes_bitmap_update:
  "only_writes {XV6FS_BBLOCK n (raw_sb s)} s (bitmap_update f n s)"
  by (auto simp: only_writes_def bitmap_update_def)

lemma blocks_512_bitmap_update:
  assumes "blocks_512 s" "\<And>d. length d = 512 \<Longrightarrow> length (f (XV6FS_BOFFSET n) d) = length d"
  shows "blocks_512 (bitmap_update f n s)"
  using assms by (simp add: blocks_512_def bitmap_update_def)

lemma block_used_set:
  assumes "kernel_bitops K" "blocks_512 s"
  shows "block_used (bitmap_update (set_bit_le K) n s) m \<longleftrightarrow> m = n \<or> block_used s m"
proof (cases "XV6FS_BBLOCK m (raw_sb s) = XV6FS_BBLOCK n (raw_sb s)")
  case True
  have "8 * length (disk s (XV6FS_BBLOCK n (raw_sb s))) = 4096"
    using assms(2) by (simp add: blocks_512_def)
  then show ?thesis
    using True BBLOCK_BOFFSET_inj [OF True] le_bitops.test_set_b [OF assms(1)]
    by (auto simp: block_used_def bitmap_update_def)
next
  case False
  then show ?thesis by (auto simp: block_used_def bitmap_update_def)
qed

lemma block_used_clear:
  assumes "kernel_bitops K" "blocks_512 s"
  shows "block_used (bitmap_update (clear_bit_le K) n s) m \<longleftrightarrow> m \<noteq> n \<and> block_used s m"
proof (cases "XV6FS_BBLOCK m (raw_sb s) = XV6FS_BBLOCK n (raw_sb s)")
  case True
  have "8 * length (disk s (XV6FS_BBLOCK n (raw_sb s))) = 4096"
    using assms(2) by (simp add: blocks_512_def)
  then show ?thesis
    using True BBLOCK_BOFFSET_inj [OF True] le_bitops.test_clear_b [OF assms(1)]
    by (auto simp: block_used_def bitmap_update_def)
next
  case False
  then show ?thesis by (auto simp: block_used_def bitmap_update_def)
qed

lemma blocks_512_set: "kernel_bitops K \<Longrightarrow> blocks_512 s \<Longrightarrow> blocks_512 (bitmap_update (set_bit_le K) n s)"
  by (intro blocks_512_bitmap_update) (simp_all add: le_bitops.length_set_b)

lemma blocks_512_clear:
  "kernel_bitops K \<Longrightarrow> blocks_512 s \<Longrightarrow> blocks_512 (bitmap_update (clear_bit_le K) n s)"
  by (intro blocks_512_bitmap_update) (simp_all add: le_bitops.length_clear_b)

lemma balloc_Inr:
  assumes "kernel_bitops K" "blocks_512 s" "xv6fs_balloc K s = (Inr n, s')"
  shows "n \<in> free_blocks s" "\<forall>m \<in> free_blocks s. n \<le> m" "s' = bitmap_update (set_bit_le K) n s"
    "sb_bread_ok K (XV6FS_BBLOCK n (raw_sb s))"
  using balloc_post_call [OF assms(1,2)] assms(3) by (auto simp: balloc_post_def bitmap_update_def)

lemma balloc_Inl:
  assumes "kernel_bitops K" "blocks_512 s" "xv6fs_balloc K s = (Inl e, s')"
  shows "s' = s" "e = ENOSPC \<and> free_blocks s = {} \<or>
    e = EIO \<and> (\<exists>m < unat (sb_size (raw_sb s)). \<not> sb_bread_ok K (XV6FS_BBLOCK m (raw_sb s)))"
  using balloc_post_call [OF assms(1,2)] assms(3) by (auto simp: balloc_post_def)

lemma bfree_eq:
  "xv6fs_bfree K n s =
     (if n \<in> data_blocks s \<and> sb_bread_ok K (XV6FS_BBLOCK n (raw_sb s))
      then bitmap_update (clear_bit_le K) n s else s)"
  by (auto simp: xv6fs_bfree_def data_blocks_def bitmap_update_def Let_def buffer_defs)

lemma free_blocks_set:
  "kernel_bitops K \<Longrightarrow> blocks_512 s \<Longrightarrow>
   free_blocks (bitmap_update (set_bit_le K) n s) = free_blocks s - {n}"
  by (auto simp: free_blocks_def balloc_range_def block_used_set)

lemma free_blocks_clear:
  "kernel_bitops K \<Longrightarrow> blocks_512 s \<Longrightarrow> n \<in> data_blocks s \<Longrightarrow>
   free_blocks (bitmap_update (clear_bit_le K) n s) = insert n (free_blocks s)"
  by (auto simp: free_blocks_def balloc_range_def data_blocks_def block_used_clear)

section \<open>The allocator's contract\<close>

text \<open>
  The contract of an allocator of numbered slots, which the bitmap keeps for
  blocks and the inode table for inodes.
\<close>

locale slot_allocator =
  fixes alloc :: "'s \<Rightarrow> (errno + nat) \<times> 's"
    and release :: "nat \<Rightarrow> 's \<Rightarrow> 's"
    and free :: "'s \<Rightarrow> nat set"
    and inv :: "'s \<Rightarrow> bool"
    and releasable :: "'s \<Rightarrow> nat \<Rightarrow> bool"
  assumes alloc_Inr: "inv s \<Longrightarrow> alloc s = (Inr b, s') \<Longrightarrow> b \<in> free s \<and> free s' = free s - {b} \<and> inv s'"
    and alloc_Inl: "inv s \<Longrightarrow> alloc s = (Inl e, s') \<Longrightarrow> s' = s"
    and alloc_releasable: "inv s \<Longrightarrow> alloc s = (Inr b, s') \<Longrightarrow> releasable s' b"
    and release_free: "inv s \<Longrightarrow> releasable s b \<Longrightarrow> free (release b s) = insert b (free s)"
    and release_inv: "inv s \<Longrightarrow> releasable s b \<Longrightarrow> inv (release b s)"
begin

lemma alloc_inv: "inv s \<Longrightarrow> inv (snd (alloc s))"
proof (cases "alloc s")
  case (Pair r s')
  then show "inv (snd (alloc s))" if "inv s"
    using that alloc_Inr [of s _ s'] alloc_Inl [of s _ s'] by (cases r) auto
qed

lemma alloc_twice_distinct:
  "inv s \<Longrightarrow> alloc s = (Inr b, s') \<Longrightarrow> alloc s' = (Inr c, s'') \<Longrightarrow> b \<noteq> c"
  using alloc_Inr by (metis Diff_iff insertI1)

lemma alloc_release: "inv s \<Longrightarrow> alloc s = (Inr b, s') \<Longrightarrow> free (release b s') = free s"
  using alloc_Inr alloc_releasable release_free by (metis insert_Diff)

text \<open>A run of successful allocations hands out pairwise distinct blocks.\<close>

fun alloc_run :: "'s \<Rightarrow> nat \<Rightarrow> nat list \<times> 's" where
  "alloc_run s 0 = ([], s)"
| "alloc_run s (Suc k) =
     (case alloc s of (Inl e, s') \<Rightarrow> ([], s')
      | (Inr b, s') \<Rightarrow> (case alloc_run s' k of (bs, t) \<Rightarrow> (b # bs, t)))"

lemma alloc_run_distinct:
  "inv s \<Longrightarrow> alloc_run s k = (bs, t) \<Longrightarrow> distinct bs \<and> set bs \<subseteq> free s \<and> free t = free s - set bs"
proof (induction k arbitrary: s bs t)
  case 0
  then show ?case by simp
next
  case (Suc k)
  obtain r s' where a: "alloc s = (r, s')" by fastforce
  show ?case
  proof (cases r)
    case (Inl e)
    with a Suc.prems show ?thesis using alloc_Inl by auto
  next
    case (Inr b)
    obtain cs t' where run: "alloc_run s' k = (cs, t')" by fastforce
    from a Inr Suc.prems(1) have b: "b \<in> free s" "free s' = free s - {b}" "inv s'"
      using alloc_Inr by auto
    from Suc.IH [OF b(3) run] have "distinct cs \<and> set cs \<subseteq> free s' \<and> free t' = free s' - set cs" .
    with run a Inr Suc.prems(2) b show ?thesis by auto
  qed
qed

end

text \<open>
  The invariant of the bitmap: blocks are whole, and the metadata blocks that
  the search range of \<open>xv6fs_balloc\<close> includes (those past the first group) are
  marked used.
\<close>

definition bmap_inv :: "fs \<Rightarrow> bool" where
  "bmap_inv s \<longleftrightarrow> blocks_512 s \<and> layout_ok (raw_sb s) \<and>
     (\<forall>b. 4096 \<le> b \<and> b < XV6FS_DSTART (raw_sb s) \<longrightarrow> block_used s b)"

text \<open>Every bitmap block can be read.\<close>

definition bitmap_readable :: "kernel \<Rightarrow> fs \<Rightarrow> bool" where
  "bitmap_readable K s \<longleftrightarrow>
     (\<forall>b < unat (sb_size (raw_sb s)). sb_bread_ok K (XV6FS_BBLOCK b (raw_sb s)))"

lemma bmap_inv_set:
  "kernel_bitops K \<Longrightarrow> bmap_inv s \<Longrightarrow> bmap_inv (bitmap_update (set_bit_le K) n s)"
  by (auto simp: bmap_inv_def blocks_512_set block_used_set)

lemma bmap_inv_clear:
  "kernel_bitops K \<Longrightarrow> bmap_inv s \<Longrightarrow> n \<in> data_blocks s \<Longrightarrow>
   bmap_inv (bitmap_update (clear_bit_le K) n s)"
  by (auto simp: bmap_inv_def blocks_512_clear block_used_clear data_blocks_def)

lemma bmap_inv_bfree: "kernel_bitops K \<Longrightarrow> bmap_inv s \<Longrightarrow> bmap_inv (xv6fs_bfree K n s)"
  by (simp add: bfree_eq bmap_inv_clear)

lemma free_blocks_subset_data: "bmap_inv s \<Longrightarrow> free_blocks s \<subseteq> data_blocks s"
  by (auto simp: bmap_inv_def free_blocks_def balloc_range_def data_blocks_def) (metis not_le)

lemma data_blocks_bitmap_update [simp]: "data_blocks (bitmap_update f n s) = data_blocks s"
  by (simp add: data_blocks_def)

lemma bitmap_readable_update [simp]: "bitmap_readable K (bitmap_update f n s) = bitmap_readable K s"
  by (simp add: bitmap_readable_def)

interpretation bmap: slot_allocator "xv6fs_balloc K" "xv6fs_bfree K" free_blocks
  "\<lambda>s. kernel_bitops K \<and> bmap_inv s"
  "\<lambda>s b. b \<in> data_blocks s \<and> sb_bread_ok K (XV6FS_BBLOCK b (raw_sb s))" for K
proof
  fix s b s' assume inv: "kernel_bitops K \<and> bmap_inv s" and r: "xv6fs_balloc K s = (Inr b, s')"
  then have bl: "blocks_512 s" by (simp add: bmap_inv_def)
  note a = balloc_Inr [OF conjunct1 [OF inv] bl r]
  show "b \<in> free_blocks s \<and> free_blocks s' = free_blocks s - {b} \<and> kernel_bitops K \<and> bmap_inv s'"
    using a inv bl by (simp add: free_blocks_set bmap_inv_set)
  have "b \<in> data_blocks s" using a inv free_blocks_subset_data by blast
  then show "b \<in> data_blocks s' \<and> sb_bread_ok K (XV6FS_BBLOCK b (raw_sb s'))"
    using a by simp
next
  fix s e s' assume "kernel_bitops K \<and> bmap_inv s" "xv6fs_balloc K s = (Inl e, s')"
  then show "s' = s" using balloc_Inl [of K s e s'] by (simp add: bmap_inv_def)
next
  fix s b
  assume "kernel_bitops K \<and> bmap_inv s"
    and "b \<in> data_blocks s \<and> sb_bread_ok K (XV6FS_BBLOCK b (raw_sb s))"
  then show "free_blocks (xv6fs_bfree K b s) = insert b (free_blocks s)"
    by (simp add: bfree_eq free_blocks_clear bmap_inv_def)
  from \<open>kernel_bitops K \<and> bmap_inv s\<close> show "kernel_bitops K \<and> bmap_inv (xv6fs_bfree K b s)"
    by (simp add: bmap_inv_bfree)
qed

section \<open>Counting\<close>

text \<open>The number of used blocks in \<open>[lo, hi)\<close>.\<close>

definition used_between :: "fs \<Rightarrow> nat \<Rightarrow> nat \<Rightarrow> nat" where
  "used_between s lo hi = card {n. lo \<le> n \<and> n < hi \<and> block_used s n}"

lemma used_between_split:
  assumes "lo \<le> mid" "mid \<le> hi"
  shows "used_between s lo hi = used_between s lo mid + used_between s mid hi"
proof -
  have "{n. lo \<le> n \<and> n < hi \<and> block_used s n} =
        {n. lo \<le> n \<and> n < mid \<and> block_used s n} \<union> {n. mid \<le> n \<and> n < hi \<and> block_used s n}"
    using assms by auto
  then show ?thesis
    unfolding used_between_def by (simp add: card_Un_disjoint disjoint_iff)
qed

lemma used_between_empty [simp]: "hi \<le> lo \<Longrightarrow> used_between s lo hi = 0"
  by (auto simp: used_between_def intro!: card_eq_0_iff [THEN iffD2])

lemma used_between_le: "used_between s lo hi \<le> hi - lo"
proof -
  have "{n. lo \<le> n \<and> n < hi \<and> block_used s n} \<subseteq> {lo..<hi}" by auto
  then show ?thesis using card_mono [of "{lo..<hi}"] by (fastforce simp: used_between_def)
qed

lemma free_plus_used:
  "card {n. lo \<le> n \<and> n < hi \<and> \<not> block_used s n} + used_between s lo hi = hi - lo"
proof -
  have "{lo..<hi} = {n. lo \<le> n \<and> n < hi \<and> \<not> block_used s n} \<union>
                    {n. lo \<le> n \<and> n < hi \<and> block_used s n}" by auto
  then have "card {lo..<hi} = card {n. lo \<le> n \<and> n < hi \<and> \<not> block_used s n} +
                    card {n. lo \<le> n \<and> n < hi \<and> block_used s n}"
    by (simp add: card_Un_disjoint disjoint_iff)
  then show ?thesis by (simp add: used_between_def)
qed

lemma weight_group:
  assumes "kernel_bitops K" "blocks_512 s" "4096 dvd b" "k \<le> 4096"
  shows "bitmap_weight K (disk s (XV6FS_BBLOCK b (raw_sb s))) k = used_between s b (b + k)"
proof -
  have "bitmap_weight K (disk s (XV6FS_BBLOCK b (raw_sb s))) k =
        card {i. i < k \<and> test_bit_le (disk s (XV6FS_BBLOCK b (raw_sb s))) i}"
    using assms le_bitops.weight_card [OF assms(1)] by (simp add: blocks_512_def)
  also have "{i. i < k \<and> test_bit_le (disk s (XV6FS_BBLOCK b (raw_sb s))) i} =
             {i. i < k \<and> block_used s (b + i)}"
    using assms(3,4) by (auto simp: block_used_group)
  also have "card \<dots> = used_between s b (b + k)"
    by (simp add: used_between_def card_shift)
  finally show ?thesis .
qed

lemma count_used_loop_eq:
  assumes "kernel_bitops K" "blocks_512 s" "4096 dvd b"
    and "\<forall>m. b \<le> m \<and> m < unat (sb_size (raw_sb s)) \<longrightarrow> sb_bread_ok K (XV6FS_BBLOCK m (raw_sb s))"
  shows "count_used_loop K (unat (sb_size (raw_sb s))) False used s b =
         (Inr (used + of_nat (used_between s b (unat (sb_size (raw_sb s))))), s)"
  using assms(3,4)
proof (induction "unat (sb_size (raw_sb s)) - b" arbitrary: b used rule: less_induct)
  case less
  let ?tot = "unat (sb_size (raw_sb s))"
  show ?case
  proof (cases "b < ?tot")
    case False
    then show ?thesis by (simp add: count_used_loop.simps [of K ?tot False used s b])
  next
    case True
    let ?k = "min 4096 (?tot - b)"
    have ok: "sb_bread_ok K (XV6FS_BBLOCK b (raw_sb s))" using less.prems True by blast
    have w: "bitmap_weight K (disk s (XV6FS_BBLOCK b (raw_sb s))) ?k = used_between s b (b + ?k)"
      using weight_group [OF assms(1,2) less.prems(1), of ?k] by simp
    have IH: "count_used_loop K ?tot False (used + of_nat (used_between s b (b + ?k))) s (b + 4096) =
      (Inr (used + of_nat (used_between s b (b + ?k)) + of_nat (used_between s (b + 4096) ?tot)), s)"
      using True less.prems by (intro less.hyps) auto
    have "used_between s b ?tot = used_between s b (b + ?k) + used_between s (b + 4096) ?tot"
    proof (cases "b + 4096 \<le> ?tot")
      case True
      then show ?thesis using used_between_split [of b "b + 4096" ?tot s] by simp
    next
      case False
      with \<open>b < ?tot\<close> show ?thesis by (simp add: min_def)
    qed
    with True ok w IH show ?thesis
      by (simp add: count_used_loop.simps [of K ?tot False used s b] Let_def buffer_defs add.assoc)
  qed
qed

lemma count_used_loop_held:
  assumes "b < tot" "sb_bread K s (XV6FS_BBLOCK b (raw_sb s)) = Some s1"
  shows "count_used_loop K tot True used s1 b = count_used_loop K tot False used s b"
proof -
  have "raw_sb s1 = raw_sb s" using assms(2) by (auto simp: sb_bread_def split: if_splits)
  with assms show ?thesis
    by (simp add: count_used_loop.simps [of K tot True used s1 b]
                  count_used_loop.simps [of K tot False used s b])
qed

lemma scast_of_nat_u32:
  assumes "m < 2147483648" shows "(scast (of_nat m :: u32) :: u64) = of_nat m"
proof -
  have "sint (of_nat m :: u32) = int m"
    using assms by (simp add: signed_of_nat signed_take_bit_int_eq_self)
  then show ?thesis by (simp add: signed_of_nat)
qed

lemma b_count_free_eq:
  assumes "kernel_bitops K" "blocks_512 s" "bitmap_readable K s"
    and "XV6FS_DSTART (raw_sb s) < unat (sb_size (raw_sb s))"
    and "unat (sb_size (raw_sb s)) < 2147483648"
  shows "xv6fs_b_count_free K s =
    (Inr (of_nat (card {b \<in> data_blocks s. \<not> block_used s b})), s)"
proof -
  define tot where "tot = unat (sb_size (raw_sb s))"
  define ds where "ds = XV6FS_DSTART (raw_sb s)"
  define bs where "bs = ds - ds mod 4096"
  define nd where "nd = used_between s bs ds"
  let ?F = "card {n. ds \<le> n \<and> n < tot \<and> \<not> block_used s n}" and ?W = "used_between s ds tot"
  have bs: "4096 dvd bs" "bs \<le> ds" "ds < tot" "ds - bs \<le> 4096"
    using assms(4) by (auto simp: bs_def ds_def tot_def minus_mod_eq_div_mult)
  have loop: "count_used_loop K tot False 0 s bs = (Inr (of_nat (used_between s bs tot)), s)"
    using count_used_loop_eq [OF assms(1,2) bs(1)] assms(3)
    by (simp add: tot_def bitmap_readable_def)
  have ok: "sb_bread_ok K (XV6FS_BBLOCK bs (raw_sb s))"
    using assms(3) bs by (simp add: bitmap_readable_def tot_def)
  have u: "used_between s bs tot = nd + ?W"
    unfolding nd_def using bs by (intro used_between_split) auto
  have "used_between s bs tot < 2147483648"
    using used_between_le [of s bs tot] assms(5) tot_def by linarith
  then have sc: "(scast (of_nat (used_between s bs tot) :: u32) :: u64) = of_nat nd + of_nat ?W"
    unfolding u by (subst scast_of_nat_u32) (simp_all only: of_nat_add)
  have w: "bitmap_weight K (disk s (XV6FS_BBLOCK bs (raw_sb s))) (ds - bs) = nd"
    using weight_group [OF assms(1,2) bs(1,4)] bs(2) by (simp add: nd_def)
  have tot: "tot = ds + ?F + ?W" using free_plus_used [of ds tot s] bs(3) by simp
  have "(of_nat tot :: u64) = of_nat ds + of_nat ?F + of_nat ?W"
    using arg_cong [OF tot, of "of_nat :: nat \<Rightarrow> u64"] by (simp only: of_nat_add)
  then have val: "(of_nat tot - (of_nat nd + of_nat ?W) - of_nat ds + of_nat nd :: u64) = of_nat ?F"
    by simp
  have fin: "(case count_used_loop K tot False 0 s bs of (Inl e, s2) \<Rightarrow> (Inl e, s2)
      | (Inr used, s2) \<Rightarrow> (Inr (of_nat tot - scast used - of_nat ds + of_nat nd :: u64), s2)) =
      (Inr (of_nat ?F :: u64), s)"
    by (simp only: loop prod.case sum.case sc val)
  have "xv6fs_b_count_free K s = (Inr (of_nat ?F), s)"
  proof (cases "ds mod 4096 = 0")
    case True
    then have z: "bs = ds" "nd = 0" by (simp_all add: nd_def bs_def)
    from True fin [unfolded z] show ?thesis
      by (simp add: xv6fs_b_count_free_def Let_def flip: tot_def ds_def)
  next
    case False
    obtain s1 where s1: "sb_bread K s (XV6FS_BBLOCK bs (raw_sb s)) = Some s1" "disk s1 = disk s"
      using ok by (auto simp: sb_bread_def)
    have "bs < tot" using bs by simp
    with False s1(1) fin [folded w, folded s1(2)] show ?thesis
      unfolding xv6fs_b_count_free_def Let_def tot_def [symmetric] ds_def [symmetric]
        bs_def [symmetric]
      by (simp add: count_used_loop_held)
  qed
  then show ?thesis by (simp add: data_blocks_def tot_def ds_def conj_assoc)
qed

section \<open>Properties\<close>

lemma free_blocks_eq_data:
  "bmap_inv s \<Longrightarrow> free_blocks s = {b \<in> data_blocks s. \<not> block_used s b}"
  by (auto simp: bmap_inv_def free_blocks_def balloc_range_def data_blocks_def) (metis not_le)

lemma demo_bmap_inv: "bmap_inv demo_fs"
  by (auto simp: bmap_inv_def blocks_512_def)

lemma demo_bitmap_readable: "bitmap_readable ref_kernel demo_fs"
  by (simp add: bitmap_readable_def)

lemma demo_balloc: "xv6fs_balloc ref_kernel demo_fs = (Inr 6, bitmap_update ref_set_bit_le 6 demo_fs)"
proof -
  have "ref_find_next_zero_bit_le (replicate 512 0) 100 6 = 6"
    by (simp add: ref_find_next_zero_bit_le_def upt_conv_Cons test_bit_le_def)
  then show ?thesis
    by (simp add: xv6fs_balloc_def balloc_loop.simps Let_def buffer_defs ref_kernel_def
          XV6FS_BBLOCK_def XV6FS_BOFFSET_def bitmap_update_def)
qed

text \<open>
  C15: \<open>xv6fs_balloc\<close> on a well-formed bitmap.  If it returns a block, that is
  the lowest clear data block; its bit, and no other bit, is set, only the
  bitmap block is written and it is marked dirty, no buffer reference is kept
  and the invariant holds again.  If it fails the state is unchanged, and the
  error is \<open>-ENOSPC\<close> with every data block used, or \<open>-EIO\<close> with an unreadable
  bitmap block.
\<close>

theorem balloc_correct:
  assumes "kernel_bitops K" "bmap_inv s"
  shows "case xv6fs_balloc K s of
      (Inr n, s') \<Rightarrow>
        n \<in> data_blocks s \<and> \<not> block_used s n \<and> (\<forall>m \<in> data_blocks s. \<not> block_used s m \<longrightarrow> n \<le> m) \<and>
        (\<forall>m. block_used s' m \<longleftrightarrow> m = n \<or> block_used s m) \<and>
        only_writes {XV6FS_BBLOCK n (raw_sb s)} s s' \<and> icache s' = icache s \<and> bmap_inv s'
    | (Inl e, s') \<Rightarrow>
        s' = s \<and>
        (e = ENOSPC \<and> (\<forall>m \<in> data_blocks s. block_used s m) \<or>
         e = EIO \<and> (\<exists>m < unat (sb_size (raw_sb s)). \<not> sb_bread_ok K (XV6FS_BBLOCK m (raw_sb s))))"
proof -
  have bl: "blocks_512 s" using assms(2) by (simp add: bmap_inv_def)
  obtain r s' where call: "xv6fs_balloc K s = (r, s')" by fastforce
  show ?thesis
  proof (cases r)
    case (Inr n)
    note a = balloc_Inr [OF assms(1) bl call [unfolded Inr]]
    show ?thesis unfolding call Inr prod.case sum.case
      using a assms bl
      by (auto simp: free_blocks_eq_data block_used_set bmap_inv_set only_writes_bitmap_update)
  next
    case (Inl e)
    note a = balloc_Inl [OF assms(1) bl call [unfolded Inl]]
    show ?thesis unfolding call Inl prod.case sum.case
      using a assms(2) by (auto simp: free_blocks_eq_data)
  qed
qed

theorem balloc_correct_witness:
  "xv6fs_balloc ref_kernel demo_fs = (Inr 6, bitmap_update ref_set_bit_le 6 demo_fs) \<and>
   6 \<in> data_blocks demo_fs \<and> \<not> block_used demo_fs 6 \<and>
   (\<forall>m. block_used (bitmap_update ref_set_bit_le 6 demo_fs) m \<longleftrightarrow> m = 6 \<or> block_used demo_fs m) \<and>
   only_writes {XV6FS_BBLOCK 6 demo_sb} demo_fs (bitmap_update ref_set_bit_le 6 demo_fs) \<and>
   bmap_inv (bitmap_update ref_set_bit_le 6 demo_fs)"
  using balloc_correct [OF ref_kernel_bitops demo_bmap_inv] demo_balloc by simp

text \<open>
  Allocation cannot fail while there is room: if the bitmap can be read
  and some data block is clear, \<open>xv6fs_balloc\<close> returns a block.
\<close>

lemma balloc_succeeds:
  assumes "kernel_bitops K" "bmap_inv s" "bitmap_readable K s"
    and "b \<in> data_blocks s" "\<not> block_used s b"
  shows "\<exists>n s'. xv6fs_balloc K s = (Inr n, s')"
proof -
  have bl: "blocks_512 s" using assms(2) by (simp add: bmap_inv_def)
  have fr: "b \<in> free_blocks s" using assms by (simp add: free_blocks_eq_data)
  obtain r s' where call: "xv6fs_balloc K s = (r, s')" by fastforce
  have "r \<noteq> Inl e" for e
    using balloc_Inl [OF assms(1) bl, of e s'] call fr assms(3) by (auto simp: bitmap_readable_def)
  then show ?thesis using call by (cases r) auto
qed

text \<open>
  C32: \<open>xv6fs_bfree\<close> clears the bit of the block it is given and no other.  A
  block outside the data area is refused, and when the bitmap block cannot be
  read the block stays in use; nothing changes then.  Only the bitmap block is
  written, it is marked dirty, its buffer is released, and the invariant is
  kept.
\<close>

theorem bfree_correct:
  assumes "kernel_bitops K" "bmap_inv s"
  shows "(\<forall>m. block_used (xv6fs_bfree K n s) m \<longleftrightarrow>
              block_used s m \<and> \<not> (m = n \<and> n \<in> data_blocks s \<and> sb_bread_ok K (XV6FS_BBLOCK n (raw_sb s)))) \<and>
    (n \<notin> data_blocks s \<or> \<not> sb_bread_ok K (XV6FS_BBLOCK n (raw_sb s)) \<longrightarrow> xv6fs_bfree K n s = s) \<and>
    only_writes {XV6FS_BBLOCK n (raw_sb s)} s (xv6fs_bfree K n s) \<and>
    bmap_inv (xv6fs_bfree K n s)"
proof (cases "n \<in> data_blocks s \<and> sb_bread_ok K (XV6FS_BBLOCK n (raw_sb s))")
  case True
  with assms show ?thesis
    using bmap_inv_clear [OF assms(1,2), of n] block_used_clear [of K s n] assms(2)
    by (auto simp: bfree_eq only_writes_bitmap_update bmap_inv_def)
next
  case False
  then show ?thesis using assms(2) by (auto simp: bfree_eq)
qed

theorem bfree_correct_witness:
  "(\<forall>m. block_used (xv6fs_bfree ref_kernel 50 demo_fs) m \<longleftrightarrow>
         block_used demo_fs m \<and> \<not> (m = 50 \<and> 50 \<in> data_blocks demo_fs)) \<and>
    bmap_inv (xv6fs_bfree ref_kernel 50 demo_fs) \<and>
    xv6fs_bfree ref_kernel 3 demo_fs = demo_fs"
proof -
  note w = bfree_correct [OF ref_kernel_bitops demo_bmap_inv]
  have "3 \<notin> data_blocks demo_fs" by (simp add: data_blocks_def)
  moreover have "sb_bread_ok ref_kernel b" for b by (simp add: ref_kernel_def)
  ultimately show ?thesis using w [of 50] w [of 3] by simp
qed

text \<open>
  Freeing the block \<open>xv6fs_balloc\<close> has just returned restores the set of
  free blocks.
\<close>

lemma balloc_bfree_roundtrip:
  assumes "kernel_bitops K" "bmap_inv s" "xv6fs_balloc K s = (Inr b, s')"
  shows "free_blocks (xv6fs_bfree K b s') = free_blocks s"
  using bmap.alloc_release [of K s b s'] assms by simp

text \<open>
  Any number of successive allocations returns pairwise distinct blocks,
  all of them clear data blocks of the state before, and leaves exactly the
  other free blocks free.
\<close>

lemma balloc_run_distinct:
  assumes "kernel_bitops K" "bmap_inv s"
  shows "case bmap.alloc_run K s k of (bs, t) \<Rightarrow>
    distinct bs \<and> set bs \<subseteq> data_blocks s \<and> (\<forall>b \<in> set bs. \<not> block_used s b) \<and>
    free_blocks t = free_blocks s - set bs"
proof -
  obtain bs t where run: "bmap.alloc_run K s k = (bs, t)" by fastforce
  have "distinct bs \<and> set bs \<subseteq> free_blocks s \<and> free_blocks t = free_blocks s - set bs"
    using bmap.alloc_run_distinct [of K s k bs t] run assms by blast
  then show ?thesis unfolding run prod.case using assms(2) by (auto simp: free_blocks_eq_data)
qed

text \<open>
  C34: \<open>xv6fs_b_count_free\<close> returns the number of clear bits in the data area,
  whatever the position of the data area in its bitmap group, changes
  nothing and keeps no buffer, as long as the data area is not empty and the
  device has fewer than \<open>2 ^ 31\<close> blocks, so that the C \<open>int\<close> counter cannot
  overflow.
\<close>

theorem b_count_free_exact:
  assumes "kernel_bitops K" "blocks_512 s" "bitmap_readable K s"
    and "XV6FS_DSTART (raw_sb s) < unat (sb_size (raw_sb s))"
    and "unat (sb_size (raw_sb s)) < 2147483648"
  shows "xv6fs_b_count_free K s = (Inr (of_nat (card {b \<in> data_blocks s. \<not> block_used s b})), s)"
  using b_count_free_eq [OF assms] .

theorem b_count_free_exact_witness:
  "xv6fs_b_count_free ref_kernel demo_fs =
     (Inr (of_nat (card {b \<in> data_blocks demo_fs. \<not> block_used demo_fs b})), demo_fs)"
  by (rule b_count_free_exact [OF ref_kernel_bitops _ demo_bitmap_readable]) (simp_all add: blocks_512_def)

end
