(* ===== verification/Xv6fs_Mapping.thy ===== *)
theory Xv6fs_Mapping
  imports Xv6fs_Bmap
begin

text \<open>
  The block map of a file, from \<^verbatim>\<open>src/inode.c\<close>: \<open>xv6fs_get_block\<close> (with and
  without allocation), \<open>xv6fs_truncate_blocks\<close> and \<open>xv6fs_setattr\<close>.

  The abstract view of an inode is the partial map \<open>file_map\<close> from logical to
  disk blocks, and the list \<open>inode_blocks\<close> of the blocks it owns.  The lemmas
  show that a lookup reads that map, that an allocating call adds one entry
  and changes nothing else, that truncation keeps the entries below the new
  length, drops the others and returns exactly their blocks to the bitmap,
  and that every operation keeps the ownership invariant \<open>imap_ok\<close>.
\<close>

section \<open>Operations\<close>

text \<open>
  What \<open>xv6fs_get_block\<close> leaves in \<open>bh_result\<close>, which the caller passes
  unmapped: nothing, or a block number and the \<open>BH_New\<close> flag.
\<close>

datatype bh_result = Unmapped | Mapped nat bool

definition set_addr :: "nat \<Rightarrow> nat \<Rightarrow> u32 \<Rightarrow> fs \<Rightarrow> fs" where
  "set_addr ino i v s =
     set_inode ino ((xv6fs_i s ino)\<lparr>i_addrs := (i_addrs (xv6fs_i s ino))[i := v]\<rparr>) s"

text \<open>The part of \<open>xv6fs_get_block\<close> after the indirect block's buffer is in hand.\<close>

definition get_block_indirect ::
    "kernel \<Rightarrow> nat \<Rightarrow> nat \<Rightarrow> bool \<Rightarrow> nat \<Rightarrow> fs \<Rightarrow> (errno + bh_result) \<times> fs" where
  "get_block_indirect K ino lblk create ind s =
     (let disk_block = le32_at (disk s ind) (lblk - XV6FS_NDIRECT)
      in if disk_block = 0 then
           if \<not> create then (Inr Unmapped, brelse s)
           else (case xv6fs_balloc K s of
                   (Inl e, s1) \<Rightarrow> (Inl e, brelse s1)
                 | (Inr nb, s1) \<Rightarrow>
                     (Inr (Mapped nb True),
                      brelse (mark_inode_dirty ino (mark_buffer_dirty ind
                        (b_store ind (put_le32 (lblk - XV6FS_NDIRECT) (of_nat nb) (disk s1 ind)) s1)))))
         else (Inr (Mapped (unat disk_block) False), brelse s))"

definition xv6fs_get_block ::
    "kernel \<Rightarrow> nat \<Rightarrow> nat \<Rightarrow> bool \<Rightarrow> fs \<Rightarrow> (errno + bh_result) \<times> fs" where
  "xv6fs_get_block K ino lblk create s =
     (if lblk < XV6FS_NDIRECT then
        let disk_block = i_addrs (xv6fs_i s ino) ! lblk
        in if disk_block = 0 then
             if \<not> create then (Inr Unmapped, s)
             else (case xv6fs_balloc K s of
                     (Inl e, s1) \<Rightarrow> (Inl e, s1)
                   | (Inr nb, s1) \<Rightarrow>
                       (Inr (Mapped nb True), mark_inode_dirty ino (set_addr ino lblk (of_nat nb) s1)))
           else (Inr (Mapped (unat disk_block) False), s)
      else if lblk < XV6FS_NDIRECT + XV6FS_NINDIRECT then
        let ind_block = i_addrs (xv6fs_i s ino) ! XV6FS_NDIRECT
        in if ind_block = 0 then
             if \<not> create then (Inr Unmapped, s)
             else (case xv6fs_balloc K s of
                     (Inl e, s1) \<Rightarrow> (Inl e, s1)
                   | (Inr nb, s1) \<Rightarrow>
                       let s2 = mark_inode_dirty ino (set_addr ino XV6FS_NDIRECT (of_nat nb) s1)
                       in case sb_getblk K s2 nb of
                            None \<Rightarrow> (Inl EIO, s2)
                          | Some s3 \<Rightarrow>
                              get_block_indirect K ino lblk create nb
                                (mark_buffer_dirty nb (b_store nb (replicate XV6FS_BSIZE 0) s3)))
           else (case sb_bread K s (unat ind_block) of
                   None \<Rightarrow> (Inl EIO, s)
                 | Some s1 \<Rightarrow> get_block_indirect K ino lblk create (unat ind_block) s1)
      else (Inl EFBIG, s))"

function truncate_direct :: "kernel \<Rightarrow> nat \<Rightarrow> nat \<Rightarrow> fs \<Rightarrow> fs" where
  "truncate_direct K ino i s =
     (if i < XV6FS_NDIRECT then
        let a = i_addrs (xv6fs_i s ino) ! i
        in truncate_direct K ino (Suc i)
             (if a \<noteq> 0 then set_addr ino i 0 (xv6fs_bfree K (unat a) s) else s)
      else s)"
  by pat_completeness auto
termination
  by (relation "measure (\<lambda>(K, ino, i, s). XV6FS_NDIRECT - i)") auto

function truncate_indirect ::
    "kernel \<Rightarrow> nat \<Rightarrow> nat \<Rightarrow> nat \<Rightarrow> bool \<Rightarrow> fs \<Rightarrow> bool \<times> fs" where
  "truncate_indirect K ind ind_start i any_left s =
     (if i < XV6FS_NINDIRECT then
        let addr = le32_at (disk s ind) i
        in if addr = 0 then truncate_indirect K ind ind_start (Suc i) any_left s
           else if ind_start \<le> i then
             truncate_indirect K ind ind_start (Suc i) any_left
               (let s1 = xv6fs_bfree K (unat addr) s in b_store ind (put_le32 i 0 (disk s1 ind)) s1)
           else truncate_indirect K ind ind_start (Suc i) True s
      else (any_left, s))"
  by pat_completeness auto
termination
  by (relation "measure (\<lambda>(K, ind, ind_start, i, any_left, s). XV6FS_NINDIRECT - i)") auto

declare truncate_direct.simps [simp del] truncate_indirect.simps [simp del]

definition xv6fs_truncate_blocks :: "kernel \<Rightarrow> nat \<Rightarrow> nat \<Rightarrow> fs \<Rightarrow> fs" where
  "xv6fs_truncate_blocks K ino new_blocks s =
     (let s1 = truncate_direct K ino new_blocks s;
          a = i_addrs (xv6fs_i s1 ino) ! XV6FS_NDIRECT
      in if a = 0 then s1
         else case sb_bread K s1 (unat a) of
                None \<Rightarrow> s1
              | Some s2 \<Rightarrow>
                  let ind_start = (if XV6FS_NDIRECT < new_blocks then new_blocks - XV6FS_NDIRECT else 0)
                  in case truncate_indirect K (unat a) ind_start 0 False s2 of
                       (any_left, s3) \<Rightarrow>
                         let s4 = brelse (mark_buffer_dirty (unat a) s3)
                         in if \<not> any_left
                            then set_addr ino XV6FS_NDIRECT 0
                                   (xv6fs_bfree K (unat (i_addrs (xv6fs_i s4 ino) ! XV6FS_NDIRECT)) s4)
                            else s4)"

section \<open>The abstract view of an inode's blocks\<close>

definition ind_entries :: "fs \<Rightarrow> nat \<Rightarrow> u32 list" where
  "ind_entries s ino =
     (let a = i_addrs (xv6fs_i s ino) ! 12
      in if a = 0 then replicate 128 0 else map (le32_at (disk s (unat a))) [0..<128])"

text \<open>All 141 addresses: twelve direct ones, the indirect block, its entries.\<close>

definition addr_list :: "fs \<Rightarrow> nat \<Rightarrow> u32 list" where
  "addr_list s ino = i_addrs (xv6fs_i s ino) @ ind_entries s ino"

definition nz_blocks :: "u32 list \<Rightarrow> nat list" where
  "nz_blocks xs = map unat (filter (\<lambda>a. a \<noteq> 0) xs)"

definition inode_blocks :: "fs \<Rightarrow> nat \<Rightarrow> nat list" where
  "inode_blocks s ino = nz_blocks (addr_list s ino)"

definition block_opt :: "u32 \<Rightarrow> nat option" where
  "block_opt a = (if a = 0 then None else Some (unat a))"

definition file_map :: "fs \<Rightarrow> nat \<Rightarrow> nat \<rightharpoonup> nat" where
  "file_map s ino l =
     (if l < 12 then block_opt (i_addrs (xv6fs_i s ino) ! l)
      else if l < 140 then block_opt (ind_entries s ino ! (l - 12))
      else None)"

definition imap_ok :: "fs \<Rightarrow> nat \<Rightarrow> bool" where
  "imap_ok s ino \<longleftrightarrow>
     ino \<in> dom (icache s) \<and> length (i_addrs (xv6fs_i s ino)) = 13 \<and>
     distinct (inode_blocks s ino) \<and> set (inode_blocks s ino) \<subseteq> data_blocks s \<and>
     (\<forall>b \<in> set (inode_blocks s ino). block_used s b)"

section \<open>Attributes\<close>

text \<open>
  The kernel's \<open>truncate_setsize\<close> sets \<open>i_size\<close> and truncates the page cache: the
  pages (of 4096 bytes) past the new size go away, and in the page the new size
  falls into, when it is cached, the bytes from the new size on are set to 0,
  without marking a buffer dirty.  The model has one store for a block and the page that holds it,
  so the rest of the block of the new size is set to 0 in that case (the later
  blocks of the page are given up by \<open>xv6fs_truncate_blocks\<close>).  A page that is
  not cached is left as it is on the device.
\<close>

definition zero_from :: "nat \<Rightarrow> block \<Rightarrow> block" where
  "zero_from n d = take n d @ replicate (length d - n) 0"

definition zero_page_tail :: "kernel \<Rightarrow> nat \<Rightarrow> nat \<Rightarrow> fs \<Rightarrow> fs" where
  "zero_page_tail K ino x s =
     (case file_map s ino (x div 512) of
        None \<Rightarrow> s
      | Some b \<Rightarrow>
          if x mod 512 \<noteq> 0 \<and> page_cached K s ino (x div 4096)
          then b_store b (zero_from (x mod 512) (disk s b)) s else s)"

definition truncate_setsize :: "kernel \<Rightarrow> nat \<Rightarrow> int \<Rightarrow> fs \<Rightarrow> fs" where
  "truncate_setsize K ino sz s =
     set_inode ino ((xv6fs_i s ino)\<lparr>i_size := sz\<rparr>) (zero_page_tail K ino (nat sz) s)"

text \<open>\<open>DIV_ROUND_UP\<close> is on non-negative sizes.\<close>

definition xv6fs_setattr :: "kernel \<Rightarrow> nat \<Rightarrow> iattr \<Rightarrow> fs \<Rightarrow> (errno + unit) \<times> fs" where
  "xv6fs_setattr K ino iattr s =
     (case setattr_prepare K ino iattr of
        Some e \<Rightarrow> (Inl e, s)
      | None \<Rightarrow>
          let s1 = (if ia_valid_size iattr
                    then xv6fs_truncate_blocks K ino (nat ((ia_size iattr + 511) div 512))
                           (truncate_setsize K ino (ia_size iattr) s)
                    else s)
          in (Inr (), mark_inode_dirty ino
                (set_inode ino (setattr_copy K iattr (xv6fs_i s1 ino)) s1)))"

section \<open>Facts on the abstract view\<close>

lemma length_ind_entries [simp]: "length (ind_entries s ino) = 128"
  by (simp add: ind_entries_def Let_def)

lemma set_nz_blocks: "set (nz_blocks xs) = {unat a |a. a \<in> set xs \<and> a \<noteq> 0}"
  by (auto simp: nz_blocks_def)

lemma nz_blocks_append [simp]: "nz_blocks (xs @ ys) = nz_blocks xs @ nz_blocks ys"
  by (simp add: nz_blocks_def)

lemma nz_blocks_replicate_0 [simp]: "nz_blocks (replicate n 0) = []"
  by (simp add: nz_blocks_def filter_replicate)

lemma nz_blocks_update:
  assumes "i < length xs" "xs ! i = 0" "v \<noteq> 0" "unat v \<notin> set (nz_blocks xs)" "distinct (nz_blocks xs)"
  shows "distinct (nz_blocks (xs[i := v]))"
    and "set (nz_blocks (xs[i := v])) = insert (unat v) (set (nz_blocks xs))"
proof -
  have xs: "xs = take i xs @ 0 # drop (Suc i) xs"
    using id_take_nth_drop [OF assms(1)] assms(2) by simp
  have upd: "xs[i := v] = take i xs @ v # drop (Suc i) xs"
    by (rule upd_conv_take_nth_drop [OF assms(1)])
  have old: "nz_blocks xs = nz_blocks (take i xs) @ nz_blocks (drop (Suc i) xs)"
    by (subst xs) (simp add: nz_blocks_def)
  have new: "nz_blocks (xs[i := v]) = nz_blocks (take i xs) @ unat v # nz_blocks (drop (Suc i) xs)"
    by (subst upd) (simp add: nz_blocks_def assms(3))
  show "distinct (nz_blocks (xs[i := v]))" using assms(4,5) unfolding old new by auto
  show "set (nz_blocks (xs[i := v])) = insert (unat v) (set (nz_blocks xs))"
    unfolding old new by auto
qed

lemma xv6fs_i_simps [simp]:
  "xv6fs_i (bitmap_update f n s) ino = xv6fs_i s ino"
  "xv6fs_i (mark_inode_dirty j s) ino = xv6fs_i s ino"
  "xv6fs_i (mark_buffer_dirty b s) ino = xv6fs_i s ino"
  "xv6fs_i (b_store b d s) ino = xv6fs_i s ino"
  "xv6fs_i (brelse s) ino = xv6fs_i s ino"
  "xv6fs_i (s\<lparr>holds := h\<rparr>) ino = xv6fs_i s ino"
  "xv6fs_i (set_inode ino ei s) ino = ei"
  "i_addrs (xv6fs_i (set_addr ino i v s) ino) = (i_addrs (xv6fs_i s ino))[i := v]"
  by (simp_all add: inode_defs buffer_defs set_addr_def)

lemma nth_addr_list:
  "length (i_addrs (xv6fs_i s ino)) = 13 \<Longrightarrow>
   addr_list s ino ! i =
     (if i < 13 then i_addrs (xv6fs_i s ino) ! i else ind_entries s ino ! (i - 13))"
  by (simp add: addr_list_def nth_append)

text \<open>A mapped logical block is one of the inode's blocks.\<close>

lemma file_map_in_blocks:
  assumes "length (i_addrs (xv6fs_i s ino)) = 13" "file_map s ino l = Some b"
  shows "b \<in> set (inode_blocks s ino)"
proof -
  have "\<exists>i < 141. b = unat (addr_list s ino ! i) \<and> addr_list s ino ! i \<noteq> 0"
  proof (cases "l < 12")
    case True
    with assms show ?thesis
      by (intro exI [of _ l]) (auto simp: file_map_def block_opt_def nth_addr_list split: if_splits)
  next
    case False
    with assms show ?thesis
      by (intro exI [of _ "l + 1"])
         (auto simp: file_map_def block_opt_def nth_addr_list split: if_splits)
  qed
  moreover have "length (addr_list s ino) = 141" using assms(1) by (simp add: addr_list_def)
  ultimately show ?thesis
    unfolding inode_blocks_def set_nz_blocks by (auto simp: in_set_conv_nth)
qed

lemma ind_in_blocks:
  assumes "length (i_addrs (xv6fs_i s ino)) = 13" "i_addrs (xv6fs_i s ino) ! 12 \<noteq> 0"
  shows "unat (i_addrs (xv6fs_i s ino) ! 12) \<in> set (inode_blocks s ino)"
  using assms unfolding inode_blocks_def set_nz_blocks addr_list_def by fastforce

section \<open>Lookup\<close>

lemma get_block_lookup_state: "snd (xv6fs_get_block K ino l False s) = s"
  by (auto simp: xv6fs_get_block_def get_block_indirect_def Let_def buffer_defs split: option.splits)

definition opt_result :: "nat option \<Rightarrow> bh_result" where
  "opt_result m = (case m of None \<Rightarrow> Unmapped | Some b \<Rightarrow> Mapped b False)"

lemma get_block_lookup:
  "xv6fs_get_block K ino l False s =
     (if 140 \<le> l then Inl EFBIG
      else if 12 \<le> l \<and> i_addrs (xv6fs_i s ino) ! 12 \<noteq> 0 \<and>
              \<not> sb_bread_ok K (unat (i_addrs (xv6fs_i s ino) ! 12)) then Inl EIO
      else Inr (opt_result (file_map s ino l)), s)"
  by (auto simp: xv6fs_get_block_def get_block_indirect_def Let_def buffer_defs opt_result_def
                 file_map_def block_opt_def ind_entries_def split: option.splits)

section \<open>Allocation\<close>

text \<open>What data-area writes and bitmap writes leave alone.\<close>

lemma bitmap_block_not_data:
  "layout_ok (raw_sb s) \<Longrightarrow> n < unat (sb_size (raw_sb s)) \<Longrightarrow> b \<in> data_blocks s \<Longrightarrow>
   b \<noteq> XV6FS_BBLOCK n (raw_sb s)"
  using BBLOCK_less_DSTART [of "raw_sb s" n] by (auto simp: data_blocks_def)

lemma bitmap_block_outside:
  "layout_ok (raw_sb s) \<Longrightarrow> n < unat (sb_size (raw_sb s)) \<Longrightarrow> b \<in> outside_bitmap s \<Longrightarrow>
   b \<noteq> XV6FS_BBLOCK n (raw_sb s)"
  using bitmap_block_not_data [of s n b] by (auto simp: outside_bitmap_def XV6FS_BBLOCK_def)

lemma outside_pos: "layout_ok (raw_sb s) \<Longrightarrow> b \<in> outside_bitmap s \<Longrightarrow> 0 < b"
  using DSTART_pos [of "raw_sb s"] by (auto simp: outside_bitmap_def data_blocks_def)

lemma outside_bitmap_cong: "raw_sb s' = raw_sb s \<Longrightarrow> outside_bitmap s' = outside_bitmap s"
  by (simp add: outside_bitmap_def data_blocks_def)

lemma block_used_b_store:
  "layout_ok (raw_sb s) \<Longrightarrow> n < unat (sb_size (raw_sb s)) \<Longrightarrow> b \<in> data_blocks s \<Longrightarrow>
   block_used (b_store b d s) n = block_used s n"
  using bitmap_block_not_data [of s n b] by (simp add: block_used_def b_store_def)

lemma block_used_cong:
  "disk s' = disk s \<Longrightarrow> raw_sb s' = raw_sb s \<Longrightarrow> block_used s' = block_used s"
  by (simp add: block_used_def fun_eq_iff)

lemma addr_list_cong:
  "xv6fs_i s' ino = xv6fs_i s ino \<Longrightarrow>
   (i_addrs (xv6fs_i s ino) ! 12 \<noteq> 0 \<Longrightarrow>
     disk s' (unat (i_addrs (xv6fs_i s ino) ! 12)) = disk s (unat (i_addrs (xv6fs_i s ino) ! 12))) \<Longrightarrow>
   addr_list s' ino = addr_list s ino"
  by (auto simp: addr_list_def ind_entries_def Let_def)

lemma addr_list_set_direct:
  "i < 12 \<Longrightarrow> length (i_addrs (xv6fs_i s ino)) = 13 \<Longrightarrow>
   addr_list (set_addr ino i v s) ino = (addr_list s ino)[i := v]"
  by (simp add: addr_list_def ind_entries_def Let_def list_update_append set_addr_def inode_defs)

lemma map_le32_put:
  assumes "j < 128" "length d = 512"
  shows "map (le32_at (put_le32 j v d)) [0..<128] = (map (le32_at d) [0..<128])[j := v]"
  using assms
  by (intro nth_equalityI) (auto simp: nth_list_update le32_at_put_other simp del: upt_Suc)

lemma addr_list_set_entry:
  assumes "j < 128" "length (i_addrs (xv6fs_i s ino)) = 13"
    and "i_addrs (xv6fs_i s ino) ! 12 \<noteq> 0" "ind = unat (i_addrs (xv6fs_i s ino) ! 12)"
    and "length (disk s ind) = 512"
  shows "addr_list (b_store ind (put_le32 j v (disk s ind)) s) ino = (addr_list s ino)[13 + j := v]"
  using assms map_le32_put [OF assms(1,5)]
  by (simp add: addr_list_def ind_entries_def Let_def list_update_append b_store_def xv6fs_i_def
           del: upt_Suc)

lemma le32_at_zeroes: "j < 128 \<Longrightarrow> le32_at (replicate 512 0) j = 0"
  by (simp add: le32_at_def get_bytes_def le32_to_cpu_def min_def)

lemma addr_list_set_indirect:
  assumes "length (i_addrs (xv6fs_i s ino)) = 13" "i_addrs (xv6fs_i s ino) ! 12 = 0" "v \<noteq> 0"
  shows "addr_list (b_store (unat v) (replicate 512 0) (set_addr ino 12 v s)) ino =
         (addr_list s ino)[12 := v]"
proof -
  have "map (le32_at (replicate 512 0)) [0..<128] = replicate 128 0"
    by (intro nth_equalityI) (simp_all add: le32_at_zeroes del: upt_Suc)
  with assms show ?thesis
    by (simp add: addr_list_def ind_entries_def Let_def list_update_append b_store_def
             set_addr_def inode_defs del: upt_Suc)
qed

lemma file_map_addr_list:
  "length (i_addrs (xv6fs_i s ino)) = 13 \<Longrightarrow>
   file_map s ino l =
     (if l < 12 then block_opt (addr_list s ino ! l)
      else if l < 140 then block_opt (addr_list s ino ! (l + 1)) else None)"
  by (simp add: file_map_def nth_addr_list)

text \<open>
  One allocation on behalf of inode \<open>ino\<close>: the free block \<open>nb\<close> goes into address
  slot \<open>i\<close>.
\<close>

definition alloc_step :: "fs \<Rightarrow> nat \<Rightarrow> nat \<Rightarrow> nat \<Rightarrow> fs \<Rightarrow> bool" where
  "alloc_step s ino i nb s' \<longleftrightarrow>
     nb \<in> free_blocks s \<and> i < 141 \<and> addr_list s ino ! i = 0 \<and>
     addr_list s' ino = (addr_list s ino)[i := of_nat nb] \<and>
     length (i_addrs (xv6fs_i s' ino)) = 13 \<and> ino \<in> dom (icache s') \<and>
     (\<forall>j. j \<noteq> ino \<longrightarrow> icache s' j = icache s j) \<and> bmap_inv s' \<and> raw_sb s' = raw_sb s \<and>
     (\<forall>n < unat (sb_size (raw_sb s)). block_used s' n \<longleftrightarrow> n = nb \<or> block_used s n) \<and>
     (\<forall>b \<in> outside_bitmap s. b \<noteq> unat (addr_list s' ino ! 12) \<longrightarrow> disk s' b = disk s b)"

lemma data_block_u32:
  assumes "layout_ok (raw_sb s)" "b \<in> data_blocks s"
  shows "unat (of_nat b :: u32) = b" "(of_nat b :: u32) \<noteq> 0" "b < unat (sb_size (raw_sb s))"
proof -
  show "b < unat (sb_size (raw_sb s))" using assms(2) by (simp add: data_blocks_def)
  then have "b < 4294967296" using unat_u32_less [of "sb_size (raw_sb s)"] by linarith
  then show u: "unat (of_nat b :: u32) = b" by (rule unat_of_nat_u32)
  have "0 < b" using DSTART_pos [OF assms(1)] assms(2) by (simp add: data_blocks_def)
  then show "(of_nat b :: u32) \<noteq> 0" using u by (metis less_irrefl unat_0)
qed

lemma data_blocks_cong: "raw_sb s' = raw_sb s \<Longrightarrow> data_blocks s' = data_blocks s"
  by (simp add: data_blocks_def)

lemma free_not_owned: "imap_ok s ino \<Longrightarrow> b \<in> free_blocks s \<Longrightarrow> b \<notin> set (inode_blocks s ino)"
  by (auto simp: imap_ok_def free_blocks_def)

lemma alloc_step_imap:
  assumes "bmap_inv s" "imap_ok s ino" "alloc_step s ino i nb s'"
  shows "imap_ok s' ino" "set (inode_blocks s' ino) = insert nb (set (inode_blocks s ino))"
proof -
  have nb: "nb \<in> free_blocks s" "nb \<in> data_blocks s"
    using assms free_blocks_subset_data by (auto simp: alloc_step_def)
  have lay: "layout_ok (raw_sb s)" using assms(1) by (simp add: bmap_inv_def)
  note u = data_block_u32 [OF lay nb(2)]
  have len: "i < length (addr_list s ino)"
    using assms(2,3) by (simp add: imap_ok_def alloc_step_def addr_list_def)
  have old: "addr_list s ino ! i = 0" and upd: "addr_list s' ino = (addr_list s ino)[i := of_nat nb]"
    using assms(3) by (simp_all add: alloc_step_def)
  have fresh: "unat (of_nat nb :: u32) \<notin> set (nz_blocks (addr_list s ino))"
    using free_not_owned [OF assms(2) nb(1)] by (simp add: u inode_blocks_def)
  have dist: "distinct (nz_blocks (addr_list s ino))"
    using assms(2) by (simp add: imap_ok_def inode_blocks_def)
  note nz = nz_blocks_update [OF len old u(2) fresh dist]
  show blocks: "set (inode_blocks s' ino) = insert nb (set (inode_blocks s ino))"
    using nz(2) by (simp add: inode_blocks_def upd u(1))
  have "distinct (inode_blocks s' ino)" using nz(1) by (simp add: inode_blocks_def upd)
  then show "imap_ok s' ino"
    using assms(2,3) nb(2) unfolding imap_ok_def blocks
    by (auto simp: alloc_step_def data_blocks_cong [of s' s] data_blocks_def subset_iff)
qed

lemma alloc_step_file_map:
  assumes "bmap_inv s" "imap_ok s ino" "alloc_step s ino i nb s'"
  shows "file_map s' ino =
    (if i = 12 then file_map s ino else (file_map s ino)(if i < 12 then i else i - 1 \<mapsto> nb))"
proof -
  have nb: "nb \<in> data_blocks s"
    using assms free_blocks_subset_data by (auto simp: alloc_step_def)
  have lay: "layout_ok (raw_sb s)" using assms(1) by (simp add: bmap_inv_def)
  note u = data_block_u32 [OF lay nb]
  have len: "length (i_addrs (xv6fs_i s ino)) = 13" "length (i_addrs (xv6fs_i s' ino)) = 13"
    and i: "i < 141" and upd: "addr_list s' ino = (addr_list s ino)[i := of_nat nb]"
    using assms(2,3) by (simp_all add: imap_ok_def alloc_step_def)
  have l141: "length (addr_list s ino) = 141" using len by (simp add: addr_list_def)
  have "block_opt (of_nat nb) = Some nb" using u by (simp add: block_opt_def)
  then show ?thesis using i
    by (auto simp: fun_eq_iff file_map_addr_list len upd nth_list_update l141)
qed

lemma bmap_inv_cong:
  "disk s' = disk s \<Longrightarrow> raw_sb s' = raw_sb s \<Longrightarrow> bmap_inv s' = bmap_inv s"
  using block_used_cong [of s' s] by (simp add: bmap_inv_def blocks_512_def)

lemma ghost_views [simp]:
  "block_used (mark_inode_dirty j s) = block_used s" "block_used (mark_buffer_dirty b s) = block_used s"
  "block_used (brelse s) = block_used s" "block_used (s\<lparr>holds := h\<rparr>) = block_used s"
  "bmap_inv (mark_inode_dirty j s) = bmap_inv s" "bmap_inv (mark_buffer_dirty b s) = bmap_inv s"
  "bmap_inv (brelse s) = bmap_inv s" "bmap_inv (s\<lparr>holds := h\<rparr>) = bmap_inv s"
  "addr_list (mark_inode_dirty j s) ino = addr_list s ino"
  "addr_list (mark_buffer_dirty b s) ino = addr_list s ino"
  "addr_list (brelse s) ino = addr_list s ino" "addr_list (s\<lparr>holds := h\<rparr>) ino = addr_list s ino"
  by (auto intro!: block_used_cong bmap_inv_cong addr_list_cong)

text \<open>A successful \<open>xv6fs_balloc\<close> on behalf of inode \<open>ino\<close>, before its address is stored.\<close>

lemma balloc_for_inode:
  assumes "kernel_bitops K" "bmap_inv s" "imap_ok s ino" "xv6fs_balloc K s = (Inr nb, s1)"
  shows "s1 = bitmap_update (set_bit_le K) nb s" "nb \<in> free_blocks s" "nb \<in> data_blocks s"
    "bmap_inv s1" "addr_list s1 ino = addr_list s ino"
    "\<And>b. b \<in> outside_bitmap s \<Longrightarrow> disk s1 b = disk s b"
    "\<And>n. block_used s1 n \<longleftrightarrow> n = nb \<or> block_used s n"
proof -
  have bl: "blocks_512 s" "layout_ok (raw_sb s)" using assms(2) by (simp_all add: bmap_inv_def)
  note a = balloc_Inr [OF assms(1) bl(1) assms(4)]
  show s1: "s1 = bitmap_update (set_bit_le K) nb s" and fr: "nb \<in> free_blocks s" using a by simp_all
  show nb: "nb \<in> data_blocks s" using fr free_blocks_subset_data [OF assms(2)] by blast
  show "bmap_inv s1" using assms(1,2) by (simp add: s1 bmap_inv_set)
  show fr_disk: "disk s1 b = disk s b" if "b \<in> outside_bitmap s" for b
    using bitmap_block_outside [OF bl(2) data_block_u32(3) [OF bl(2) nb] that]
    by (simp add: s1 disk_bitmap_update)
  show "block_used s1 n \<longleftrightarrow> n = nb \<or> block_used s n" for n
    using block_used_set [OF assms(1) bl(1)] by (simp add: s1)
  show "addr_list s1 ino = addr_list s ino"
  proof (rule addr_list_cong)
    show "xv6fs_i s1 ino = xv6fs_i s ino" by (simp add: s1)
    assume "i_addrs (xv6fs_i s ino) ! 12 \<noteq> 0"
    then have "unat (i_addrs (xv6fs_i s ino) ! 12) \<in> data_blocks s"
      using assms(3) ind_in_blocks unfolding imap_ok_def by blast
    then show "disk s1 (unat (i_addrs (xv6fs_i s ino) ! 12)) = disk s (unat (i_addrs (xv6fs_i s ino) ! 12))"
      by (intro fr_disk data_outside)
  qed
qed

lemma bmap_inv_b_store:
  "bmap_inv s \<Longrightarrow> b \<in> data_blocks s \<Longrightarrow> length d = 512 \<Longrightarrow> bmap_inv (b_store b d s)"
  using block_used_b_store [of s _ b d] DSTART_le_size [of "raw_sb s"]
  by (auto simp: bmap_inv_def blocks_512_def b_store_def)

lemma set_addr_sel [simp]:
  "disk (set_addr ino i v s) = disk s" "raw_sb (set_addr ino i v s) = raw_sb s"
  "holds (set_addr ino i v s) = holds s" "dirty (set_addr ino i v s) = dirty s"
  "j \<noteq> ino \<Longrightarrow> icache (set_addr ino i v s) j = icache s j"
  "ino \<in> dom (icache (set_addr ino i v s))"
  by (simp_all add: set_addr_def inode_defs)

lemma alloc_direct:
  assumes "kernel_bitops K" "bmap_inv s" "imap_ok s ino" "xv6fs_balloc K s = (Inr nb, s1)"
    and "l < 12" "i_addrs (xv6fs_i s ino) ! l = 0"
  shows "alloc_step s ino l nb (mark_inode_dirty ino (set_addr ino l (of_nat nb) s1))"
proof -
  note b = balloc_for_inode [OF assms(1-4)]
  let ?t = "set_addr ino l (of_nat nb) s1"
  have len: "length (i_addrs (xv6fs_i s ino)) = 13" using assms(3) by (simp add: imap_ok_def)
  have "addr_list ?t ino = (addr_list s ino)[l := of_nat nb]"
    using addr_list_set_direct [of l s1 ino] b(5) assms(5) len by (simp add: b(1))
  moreover have "bmap_inv ?t" using b(4) bmap_inv_cong [of ?t s1] by simp
  moreover have "block_used ?t = block_used s1" by (rule block_used_cong) simp_all
  moreover have "addr_list s ino ! l = 0" using len assms(5,6) by (simp add: nth_addr_list)
  ultimately show ?thesis
    using b(2,6,7) assms(3,5) len by (simp add: alloc_step_def b(1))
qed

lemma alloc_entry:
  assumes "kernel_bitops K" "bmap_inv s" "imap_ok s ino" "xv6fs_balloc K s = (Inr nb, s1)"
    and "j < 128" "i_addrs (xv6fs_i s ino) ! 12 \<noteq> 0" "ind = unat (i_addrs (xv6fs_i s ino) ! 12)"
    and "le32_at (disk s ind) j = 0"
  shows "alloc_step s ino (13 + j) nb (b_store ind (put_le32 j (of_nat nb) (disk s1 ind)) s1)"
proof -
  note b = balloc_for_inode [OF assms(1-4)]
  let ?t = "b_store ind (put_le32 j (of_nat nb) (disk s1 ind)) s1"
  have len: "length (i_addrs (xv6fs_i s ino)) = 13" using assms(3) by (simp add: imap_ok_def)
  have ind: "ind \<in> data_blocks s"
    using assms(3,6,7) ind_in_blocks unfolding imap_ok_def by blast
  have l512: "length (disk s1 ind) = 512" using b(4) by (simp add: bmap_inv_def blocks_512_def)
  have lay: "layout_ok (raw_sb s1)" using b(4) by (simp add: bmap_inv_def)
  have "addr_list ?t ino = (addr_list s ino)[13 + j := of_nat nb]"
    using addr_list_set_entry [OF assms(5), of s1 ino ind] b(5) assms(6,7) len l512
    by (simp add: b(1))
  moreover have "bmap_inv ?t"
    using b(4) ind l512 assms(5) by (intro bmap_inv_b_store) (simp_all add: b(1))
  moreover have "block_used ?t n = block_used s1 n" if "n < unat (sb_size (raw_sb s))" for n
    using block_used_b_store [OF lay, of n ind] ind that by (simp add: b(1))
  moreover have "addr_list s ino ! (13 + j) = 0"
    using len assms(5-8) by (simp add: nth_addr_list ind_entries_def Let_def)
  moreover have "unat (addr_list s ino ! 12) = ind" using len assms(7) by (simp add: nth_addr_list)
  ultimately show ?thesis
    using b(2,6,7) assms(3,5) len by (simp add: alloc_step_def b(1) imap_ok_def)
qed

lemma alloc_indirect:
  assumes "kernel_bitops K" "bmap_inv s" "imap_ok s ino" "xv6fs_balloc K s = (Inr nb, s1)"
    and "i_addrs (xv6fs_i s ino) ! 12 = 0"
  shows "alloc_step s ino 12 nb (b_store nb (replicate 512 0) (set_addr ino 12 (of_nat nb) s1))"
proof -
  note b = balloc_for_inode [OF assms(1-4)]
  have lay: "layout_ok (raw_sb s)" using assms(2) by (simp add: bmap_inv_def)
  note u = data_block_u32 [OF lay b(3)]
  let ?u = "set_addr ino 12 (of_nat nb) s1"
  let ?t = "b_store nb (replicate 512 0) ?u"
  have len: "length (i_addrs (xv6fs_i s ino)) = 13" using assms(3) by (simp add: imap_ok_def)
  have bu: "bmap_inv ?u" using b(4) bmap_inv_cong [of ?u s1] by simp
  have nb: "nb \<in> data_blocks ?u" using b(1,3) by (simp add: data_blocks_def)
  have "addr_list ?t ino = (addr_list s ino)[12 := of_nat nb]"
    using addr_list_set_indirect [of s1 ino "of_nat nb"] u b(5) assms(5) len by (simp add: b(1))
  moreover have "bmap_inv ?t" using bu nb by (intro bmap_inv_b_store) simp_all
  moreover have "block_used ?t n = block_used s1 n" if "n < unat (sb_size (raw_sb s))" for n
    using block_used_b_store [of ?u n nb] nb lay that block_used_cong [of ?u s1] by (simp add: b(1))
  moreover have "addr_list s ino ! 12 = 0" using len assms(5) by (simp add: nth_addr_list)
  moreover have "length (addr_list s ino) = 141" using len by (simp add: addr_list_def)
  ultimately show ?thesis
    using b(2,6,7) assms(3) len u(1) by (simp add: alloc_step_def b(1))
qed

lemma ghost_views2 [simp]:
  "free_blocks (mark_inode_dirty j s) = free_blocks s" "free_blocks (mark_buffer_dirty b s) = free_blocks s"
  "free_blocks (brelse s) = free_blocks s" "free_blocks (s\<lparr>holds := h\<rparr>) = free_blocks s"
  "data_blocks (mark_inode_dirty j s) = data_blocks s" "data_blocks (mark_buffer_dirty b s) = data_blocks s"
  "data_blocks (brelse s) = data_blocks s" "data_blocks (s\<lparr>holds := h\<rparr>) = data_blocks s"
  "outside_bitmap (mark_inode_dirty j s) = outside_bitmap s"
  "outside_bitmap (mark_buffer_dirty b s) = outside_bitmap s"
  "outside_bitmap (brelse s) = outside_bitmap s" "outside_bitmap (s\<lparr>holds := h\<rparr>) = outside_bitmap s"
  "inode_blocks (mark_inode_dirty j s) ino = inode_blocks s ino"
  "inode_blocks (mark_buffer_dirty b s) ino = inode_blocks s ino"
  "inode_blocks (brelse s) ino = inode_blocks s ino"
  "inode_blocks (s\<lparr>holds := h\<rparr>) ino = inode_blocks s ino"
  "file_map (mark_inode_dirty j s) = file_map s" "file_map (mark_buffer_dirty b s) = file_map s"
  "file_map (brelse s) = file_map s" "file_map (s\<lparr>holds := h\<rparr>) = file_map s"
  by (simp_all add: free_blocks_def balloc_range_def outside_bitmap_def data_blocks_def inode_blocks_def file_map_def
        ind_entries_def Let_def fun_eq_iff)

lemma imap_ok_ghost [simp]:
  "imap_ok (mark_inode_dirty j s) ino = imap_ok s ino" "imap_ok (mark_buffer_dirty b s) ino = imap_ok s ino"
  "imap_ok (brelse s) ino = imap_ok s ino" "imap_ok (s\<lparr>holds := h\<rparr>) ino = imap_ok s ino"
  by (simp_all add: imap_ok_def)

lemma alloc_step_ghost [simp]:
  "alloc_step (s\<lparr>holds := h\<rparr>) ino i nb t = alloc_step s ino i nb t"
  "alloc_step s ino i nb (mark_inode_dirty j t) = alloc_step s ino i nb t"
  "alloc_step s ino i nb (mark_buffer_dirty b t) = alloc_step s ino i nb t"
  "alloc_step s ino i nb (brelse t) = alloc_step s ino i nb t"
  "alloc_step (mark_inode_dirty j s) ino i nb t = alloc_step s ino i nb t"
  "alloc_step (mark_buffer_dirty b s) ino i nb t = alloc_step s ino i nb t"
  by (simp_all add: alloc_step_def free_blocks_def balloc_range_def)

text \<open>
  What an allocating call establishes when it maps logical block \<open>l\<close> of inode
  \<open>ino\<close> to disk block \<open>b\<close>.
\<close>

definition maps_block :: "fs \<Rightarrow> nat \<Rightarrow> nat \<Rightarrow> nat \<Rightarrow> fs \<Rightarrow> bool" where
  "maps_block s ino l b s' \<longleftrightarrow>
     file_map s' ino = (file_map s ino)(l \<mapsto> b) \<and> imap_ok s' ino \<and> bmap_inv s' \<and>
     raw_sb s' = raw_sb s \<and> (\<forall>j. j \<noteq> ino \<longrightarrow> icache s' j = icache s j) \<and>
     set (inode_blocks s ino) \<subseteq> set (inode_blocks s' ino) \<and>
     set (inode_blocks s' ino) \<subseteq> set (inode_blocks s ino) \<union> free_blocks s \<and>
     (\<forall>n < unat (sb_size (raw_sb s)). block_used s n \<longrightarrow> block_used s' n) \<and>
     (\<forall>n < unat (sb_size (raw_sb s)). block_used s' n \<longrightarrow> block_used s n \<or> n \<in> set (inode_blocks s' ino)) \<and>
     (\<forall>b \<in> outside_bitmap s. b \<noteq> unat (addr_list s' ino ! 12) \<longrightarrow> disk s' b = disk s b)"

lemma alloc_step_maps:
  assumes "bmap_inv s" "imap_ok s ino" "alloc_step s ino i nb t" "i = (if l < 12 then l else l + 1)"
  shows "maps_block s ino l nb t"
  using assms(3,4) alloc_step_imap [OF assms(1-3)] alloc_step_file_map [OF assms(1-3)]
  by (auto simp: maps_block_def alloc_step_def)

lemma maps_block_trivial:
  "bmap_inv s \<Longrightarrow> imap_ok s ino \<Longrightarrow> file_map s ino l = Some b \<Longrightarrow> maps_block s ino l b s"
  by (auto simp: maps_block_def)

lemma get_block_indirect_create:
  assumes "kernel_bitops K" "bmap_inv t" "imap_ok t ino" "12 \<le> l" "l < 140"
    and "i_addrs (xv6fs_i t ino) ! 12 \<noteq> 0" "ind = unat (i_addrs (xv6fs_i t ino) ! 12)"
    and "get_block_indirect K ino l True ind t = (Inr r, t')"
  shows "(\<exists>b. r = Mapped b False \<and> file_map t ino l = Some b \<and> t' = brelse t) \<or>
         (\<exists>b. r = Mapped b True \<and> file_map t ino l = None \<and> b \<in> free_blocks t \<and>
              alloc_step t ino (l + 1) b t')"
proof (cases "le32_at (disk t ind) (l - 12) = 0")
  case False
  with assms(4-8) show ?thesis
    by (auto simp: get_block_indirect_def file_map_def ind_entries_def block_opt_def Let_def)
next
  case True
  with assms(8) obtain nb s1 where al: "xv6fs_balloc K t = (Inr nb, s1)" and r: "r = Mapped nb True"
    and t': "t' = brelse (mark_inode_dirty ino (mark_buffer_dirty ind
                 (b_store ind (put_le32 (l - 12) (of_nat nb) (disk s1 ind)) s1)))"
    by (auto simp: get_block_indirect_def Let_def split: prod.splits sum.splits)
  have "alloc_step t ino (l + 1) nb t'"
    using alloc_entry [OF assms(1-3) al _ assms(6,7) True] assms(4,5) by (simp add: t')
  moreover have "file_map t ino l = None"
    using True assms(4-7) by (simp add: file_map_def ind_entries_def block_opt_def Let_def)
  ultimately show ?thesis using r by (auto simp: alloc_step_def)
qed

definition create_post :: "fs \<Rightarrow> nat \<Rightarrow> nat \<Rightarrow> bh_result \<Rightarrow> fs \<Rightarrow> bool" where
  "create_post s ino l r s' \<longleftrightarrow>
     (\<exists>b new. r = Mapped b new \<and> l < 140 \<and> maps_block s ino l b s' \<and>
       (new \<longleftrightarrow> file_map s ino l = None) \<and> (new \<longrightarrow> b \<in> free_blocks s) \<and> (\<not> new \<longrightarrow> s' = s))"

lemma create_post_old:
  assumes "bmap_inv s" "imap_ok s ino" "file_map s ino l = Some b" "l < 140"
  shows "create_post s ino l (Mapped b False) s"
  unfolding create_post_def using assms maps_block_trivial [OF assms(1-3)]
  by (intro exI [of _ b] exI [of _ False]) simp

lemma create_post_new:
  assumes "maps_block s ino l b s'" "file_map s ino l = None" "b \<in> free_blocks s" "l < 140"
  shows "create_post s ino l (Mapped b True) s'"
  unfolding create_post_def using assms by (intro exI [of _ b] exI [of _ True]) simp

lemma get_block_create_direct:
  assumes "kernel_bitops K" "bmap_inv s" "imap_ok s ino" "l < 12"
    and "xv6fs_get_block K ino l True s = (Inr r, s')"
  shows "create_post s ino l r s'"
proof (cases "i_addrs (xv6fs_i s ino) ! l = 0")
  case True
  with assms(4,5) obtain nb s1 where al: "xv6fs_balloc K s = (Inr nb, s1)"
    and r: "r = Mapped nb True" "s' = mark_inode_dirty ino (set_addr ino l (of_nat nb) s1)"
    by (auto simp: xv6fs_get_block_def Let_def split: prod.splits sum.splits)
  have st: "alloc_step s ino l nb s'"
    using alloc_direct [OF assms(1-3) al assms(4) True] by (simp add: r)
  from alloc_step_maps [OF assms(2,3) st] have "maps_block s ino l nb s'" using assms(4) by simp
  then show ?thesis unfolding r(1) using st assms(4) True
    by (intro create_post_new) (simp_all add: alloc_step_def file_map_def block_opt_def)
next
  case False
  let ?b = "unat (i_addrs (xv6fs_i s ino) ! l)"
  have "r = Mapped ?b False" "s' = s"
    using False assms(4,5) by (auto simp: xv6fs_get_block_def Let_def)
  then show ?thesis
    using create_post_old [OF assms(2,3), of l ?b] assms(4) False
    by (simp add: file_map_def block_opt_def)
qed

lemma get_block_create_entry:
  assumes "kernel_bitops K" "bmap_inv s" "imap_ok s ino" "12 \<le> l" "l < 140"
    and "i_addrs (xv6fs_i s ino) ! 12 \<noteq> 0"
    and "xv6fs_get_block K ino l True s = (Inr r, s')"
  shows "create_post s ino l r s'"
proof -
  let ?ind = "unat (i_addrs (xv6fs_i s ino) ! 12)"
  let ?t = "s\<lparr>holds := holds s + 1\<rparr>"
  from assms have call: "get_block_indirect K ino l True ?ind ?t = (Inr r, s')"
    by (auto simp: xv6fs_get_block_def Let_def buffer_defs split: if_splits)
  have pre: "bmap_inv ?t" "imap_ok ?t ino" "i_addrs (xv6fs_i ?t ino) ! 12 \<noteq> 0"
    "?ind = unat (i_addrs (xv6fs_i ?t ino) ! 12)" using assms by simp_all
  have "(\<exists>b. r = Mapped b False \<and> file_map s ino l = Some b \<and> s' = s) \<or>
      (\<exists>b. r = Mapped b True \<and> file_map s ino l = None \<and> b \<in> free_blocks s \<and>
           alloc_step s ino (l + 1) b s')"
    using get_block_indirect_create [OF assms(1) pre(1,2) assms(4,5) pre(3,4) call]
    by (auto simp: brelse_def)
  then show ?thesis
    using alloc_step_maps [OF assms(2,3), of "l + 1" _ s' l] create_post_old [OF assms(2,3)]
      create_post_new [of s ino l _ s'] assms(4,5) by auto
qed

lemma get_block_create_indirect:
  assumes "kernel_bitops K" "bmap_inv s" "imap_ok s ino" "12 \<le> l" "l < 140"
    and zero: "i_addrs (xv6fs_i s ino) ! 12 = 0"
    and "xv6fs_get_block K ino l True s = (Inr r, s')"
  shows "create_post s ino l r s'"
proof -
  from assms obtain nb s1 where al: "xv6fs_balloc K s = (Inr nb, s1)"
    by (auto simp: xv6fs_get_block_def Let_def split: prod.splits sum.splits)
  let ?t = "b_store nb (replicate 512 0) (set_addr ino 12 (of_nat nb) s1)"
  have st: "alloc_step s ino 12 nb ?t" by (rule alloc_indirect [OF assms(1-3) al zero])
  note t = alloc_step_imap [OF assms(2,3) st] alloc_step_file_map [OF assms(2,3) st]
  have inv: "bmap_inv ?t" using st by (simp add: alloc_step_def)
  have nb: "nb \<in> data_blocks s" "layout_ok (raw_sb s)"
    using st free_blocks_subset_data [OF assms(2)] assms(2) by (auto simp: alloc_step_def bmap_inv_def)
  have a12: "i_addrs (xv6fs_i ?t ino) ! 12 = of_nat nb"
    using assms(3) balloc_for_inode(1) [OF assms(1-3) al] by (simp add: imap_ok_def)
  define t where "t = mark_buffer_dirty nb (mark_inode_dirty ino (?t\<lparr>holds := holds s1 + 1\<rparr>))"
  have t_eq: "t = mark_buffer_dirty nb (b_store nb (replicate 512 0)
      ((mark_inode_dirty ino (set_addr ino 12 (of_nat nb) s1))\<lparr>holds := holds s1 + 1\<rparr>))"
    by (simp add: t_def buffer_defs inode_defs set_addr_def)
  have call: "get_block_indirect K ino l True nb t = (Inr r, s')"
    using assms(4-7) al
    by (auto simp: xv6fs_get_block_def Let_def t_eq sb_getblk_def split: if_splits)
  have unm: "file_map s ino l = None"
    using assms(4-6) by (simp add: file_map_def ind_entries_def block_opt_def)
  have pre: "bmap_inv t" "imap_ok t ino" "i_addrs (xv6fs_i t ino) ! 12 \<noteq> 0"
    "nb = unat (i_addrs (xv6fs_i t ino) ! 12)" "file_map t ino l = None"
    using inv t(1,3) a12 data_block_u32 [OF nb(2,1)] unm by (simp_all add: t_def)
  obtain b where b: "r = Mapped b True" "b \<in> free_blocks ?t" "alloc_step ?t ino (l + 1) b s'"
    using get_block_indirect_create [OF assms(1) pre(1,2) assms(4,5) pre(3,4) call] pre(5)
    by (auto simp: t_def)
  have "maps_block ?t ino l b s'" using alloc_step_maps [OF inv t(1) b(3)] assms(4) by simp
  moreover have "addr_list s' ino ! 12 = addr_list ?t ino ! 12" "outside_bitmap ?t = outside_bitmap s"
    using b(3) assms(4) st outside_bitmap_cong [of ?t s] by (simp_all add: alloc_step_def)
  moreover have fr: "free_blocks ?t \<subseteq> free_blocks s"
    using st by (auto simp: alloc_step_def free_blocks_def balloc_range_def)
  ultimately have "maps_block s ino l b s'"
    using st t(2,3) by (auto simp: maps_block_def alloc_step_def)
  with fr show ?thesis using b unm assms(5) create_post_new by blast
qed

lemma get_block_create:
  assumes "kernel_bitops K" "bmap_inv s" "imap_ok s ino"
    and "xv6fs_get_block K ino l True s = (Inr r, s')"
  shows "create_post s ino l r s'"
proof -
  have "l < 140" using assms(4) by (auto simp: xv6fs_get_block_def split: if_splits)
  then consider "l < 12" | "12 \<le> l" "l < 140" "i_addrs (xv6fs_i s ino) ! 12 \<noteq> 0"
    | "12 \<le> l" "l < 140" "i_addrs (xv6fs_i s ino) ! 12 = 0" by linarith
  then show ?thesis
    using get_block_create_direct [OF assms(1-3) _ assms(4)]
      get_block_create_entry [OF assms(1-3) _ _ _ assms(4)]
      get_block_create_indirect [OF assms(1-3) _ _ _ assms(4)] by cases auto
qed

section \<open>Truncation\<close>

lemma bfree_sel [simp]:
  "raw_sb (xv6fs_bfree K n s) = raw_sb s" "icache (xv6fs_bfree K n s) = icache s"
  "holds (xv6fs_bfree K n s) = holds s" "xv6fs_i (xv6fs_bfree K n s) ino = xv6fs_i s ino"
  "dinodes (xv6fs_bfree K n s) = dinodes s" "free_inodes (xv6fs_bfree K n s) = free_inodes s"
  "free_inodes_list (xv6fs_bfree K n s) = free_inodes_list s"
  "data_blocks (xv6fs_bfree K n s) = data_blocks s"
  by (simp_all add: bfree_eq)

lemma bfree_data_frame:
  assumes "layout_ok (raw_sb s)" "b \<in> outside_bitmap s"
  shows "disk (xv6fs_bfree K n s) b = disk s b"
  using bitmap_block_outside [OF assms(1) _ assms(2), of n]
  by (auto simp: bfree_eq data_blocks_def disk_bitmap_update)

lemma block_used_bfree:
  assumes "kernel_bitops K" "bmap_inv s" "bitmap_readable K s" "n \<in> data_blocks s"
  shows "block_used (xv6fs_bfree K n s) m \<longleftrightarrow> m \<noteq> n \<and> block_used s m"
  using assms by (auto simp: bfree_eq bmap_inv_def block_used_clear bitmap_readable_def data_blocks_def)

lemma nz_blocks_zero:
  assumes "i < length xs" "xs ! i \<noteq> 0" "distinct (nz_blocks xs)"
  shows "distinct (nz_blocks (xs[i := 0]))"
    and "set (nz_blocks (xs[i := 0])) = set (nz_blocks xs) - {unat (xs ! i)}"
proof -
  have xs: "nz_blocks xs = nz_blocks (take i xs) @ unat (xs ! i) # nz_blocks (drop (Suc i) xs)"
    using assms(2) by (subst id_take_nth_drop [OF assms(1)]) (simp add: nz_blocks_def)
  have upd: "nz_blocks (xs[i := 0]) = nz_blocks (take i xs) @ nz_blocks (drop (Suc i) xs)"
    by (subst upd_conv_take_nth_drop [OF assms(1)]) (simp add: nz_blocks_def)
  show "distinct (nz_blocks (xs[i := 0]))" using assms(3) unfolding xs upd by auto
  show "set (nz_blocks (xs[i := 0])) = set (nz_blocks xs) - {unat (xs ! i)}"
    using assms(3) unfolding xs upd by auto
qed

text \<open>
  How the file system may differ after blocks of inode \<open>ino\<close> have been given
  up: it owns a subset of its blocks, the others, and only those, are clear in
  the bitmap, and no data block but its indirect block has been written.
\<close>

definition trunc_rel :: "fs \<Rightarrow> nat \<Rightarrow> fs \<Rightarrow> bool" where
  "trunc_rel s ino s' \<longleftrightarrow>
     bmap_inv s' \<and> imap_ok s' ino \<and> raw_sb s' = raw_sb s \<and>
     (\<forall>j. j \<noteq> ino \<longrightarrow> icache s' j = icache s j) \<and>
     set (inode_blocks s' ino) \<subseteq> set (inode_blocks s ino) \<and>
     (\<forall>b < unat (sb_size (raw_sb s)). block_used s' b \<longleftrightarrow>
        block_used s b \<and> (b \<in> set (inode_blocks s ino) \<longrightarrow> b \<in> set (inode_blocks s' ino))) \<and>
     i_addrs (xv6fs_i s' ino) ! 12 \<in> {i_addrs (xv6fs_i s ino) ! 12, 0} \<and>
     (\<forall>b \<in> outside_bitmap s. b \<noteq> unat (i_addrs (xv6fs_i s ino) ! 12) \<longrightarrow> disk s' b = disk s b)"

lemma trunc_rel_refl: "bmap_inv s \<Longrightarrow> imap_ok s ino \<Longrightarrow> trunc_rel s ino s"
  by (auto simp: trunc_rel_def)

lemma trunc_rel_trans:
  assumes "trunc_rel s ino t" "trunc_rel t ino u" shows "trunc_rel s ino u"
proof -
  have "disk u b = disk s b" if "b \<in> outside_bitmap s" "b \<noteq> unat (i_addrs (xv6fs_i s ino) ! 12)" for b
  proof -
    have "layout_ok (raw_sb s)" using assms(1) by (auto simp: trunc_rel_def bmap_inv_def)
    then have "b \<noteq> 0" using that(1) outside_pos by blast
    moreover have "i_addrs (xv6fs_i t ino) ! 12 \<in> {i_addrs (xv6fs_i s ino) ! 12, 0}"
      using assms(1) by (simp add: trunc_rel_def)
    ultimately have "b \<noteq> unat (i_addrs (xv6fs_i t ino) ! 12)" using that(2) by auto
    moreover have "b \<in> outside_bitmap t"
      using that(1) assms(1) by (simp add: trunc_rel_def outside_bitmap_cong [of t s])
    ultimately have "disk u b = disk t b" using assms(2) by (simp add: trunc_rel_def)
    also have "disk t b = disk s b" using assms(1) that by (simp add: trunc_rel_def)
    finally show ?thesis .
  qed
  moreover have "raw_sb t = raw_sb s" using assms(1) by (simp add: trunc_rel_def)
  ultimately show ?thesis using assms unfolding trunc_rel_def by auto
qed

lemma trunc_rel_ghost [simp]:
  "trunc_rel s ino (mark_buffer_dirty b t) = trunc_rel s ino t"
  "trunc_rel s ino (brelse t) = trunc_rel s ino t"
  "trunc_rel s ino (s\<lparr>holds := h\<rparr>) = trunc_rel s ino s"
  "trunc_rel (s\<lparr>holds := h\<rparr>) ino t = trunc_rel s ino t"
  by (simp_all add: trunc_rel_def)

text \<open>Giving up the block in address slot \<open>i\<close>.\<close>

lemma drop_step:
  assumes "bmap_inv s" "imap_ok s ino" "i < 141" "addr_list s ino ! i \<noteq> 0"
    and upd: "addr_list s' ino = (addr_list s ino)[i := 0]"
    and "length (i_addrs (xv6fs_i s' ino)) = 13" "ino \<in> dom (icache s')"
    and "\<forall>j. j \<noteq> ino \<longrightarrow> icache s' j = icache s j" "raw_sb s' = raw_sb s" "bmap_inv s'"
    and used: "\<forall>b < unat (sb_size (raw_sb s)). block_used s' b \<longleftrightarrow>
           b \<noteq> unat (addr_list s ino ! i) \<and> block_used s b"
    and "\<forall>b \<in> outside_bitmap s. b \<noteq> unat (i_addrs (xv6fs_i s ino) ! 12) \<longrightarrow> disk s' b = disk s b"
  shows "trunc_rel s ino s'"
proof -
  have len: "i < length (addr_list s ino)" "length (i_addrs (xv6fs_i s ino)) = 13"
    using assms(2,3) by (simp_all add: imap_ok_def addr_list_def)
  have dist: "distinct (nz_blocks (addr_list s ino))"
    using assms(2) by (simp add: imap_ok_def inode_blocks_def)
  note nz = nz_blocks_zero [OF len(1) assms(4) dist]
  have blocks: "set (inode_blocks s' ino) = set (inode_blocks s ino) - {unat (addr_list s ino ! i)}"
    using nz(2) by (simp add: inode_blocks_def upd)
  have own: "unat (addr_list s ino ! i) \<in> set (inode_blocks s ino)"
    using len(1) assms(4) by (auto simp: inode_blocks_def set_nz_blocks)
  have "length (addr_list s ino) = 141" using len(2) by (simp add: addr_list_def)
  then have "addr_list s' ino ! 12 \<in> {addr_list s ino ! 12, 0}"
    unfolding upd by (cases "i = 12") simp_all
  then have a12: "i_addrs (xv6fs_i s' ino) ! 12 \<in> {i_addrs (xv6fs_i s ino) ! 12, 0}"
    using len assms(6) by (simp add: nth_addr_list)
  have "imap_ok s' ino"
    using assms(2,6,7,9) nz(1) used blocks
    by (auto simp: imap_ok_def inode_blocks_def upd data_blocks_cong [of s' s] data_blocks_def)
  then show ?thesis
    using assms(8-10,12) used a12 own unfolding trunc_rel_def blocks by auto
qed

lemma addr_list_bfree:
  assumes "bmap_inv s" "imap_ok s ino"
  shows "addr_list (xv6fs_bfree K n s) ino = addr_list s ino"
proof (rule addr_list_cong)
  show "xv6fs_i (xv6fs_bfree K n s) ino = xv6fs_i s ino" by simp
  assume "i_addrs (xv6fs_i s ino) ! 12 \<noteq> 0"
  then have "unat (i_addrs (xv6fs_i s ino) ! 12) \<in> data_blocks s"
    using assms(2) ind_in_blocks unfolding imap_ok_def by blast
  then show "disk (xv6fs_bfree K n s) (unat (i_addrs (xv6fs_i s ino) ! 12)) =
      disk s (unat (i_addrs (xv6fs_i s ino) ! 12))"
    using assms(1) by (intro bfree_data_frame) (simp_all add: bmap_inv_def data_outside)
qed

lemma owned_is_data:
  assumes "imap_ok s ino" "i < 141" "addr_list s ino ! i \<noteq> 0"
  shows "unat (addr_list s ino ! i) \<in> data_blocks s"
proof -
  have "length (addr_list s ino) = 141" using assms(1) by (simp add: imap_ok_def addr_list_def)
  then have "unat (addr_list s ino ! i) \<in> set (inode_blocks s ino)"
    using assms(2,3) by (auto simp: inode_blocks_def set_nz_blocks)
  then show ?thesis using assms(1) by (auto simp: imap_ok_def)
qed

text \<open>The hypotheses under which truncation frees every block it should.\<close>

definition trunc_pre :: "kernel \<Rightarrow> fs \<Rightarrow> nat \<Rightarrow> bool" where
  "trunc_pre K s ino \<longleftrightarrow> kernel_bitops K \<and> bmap_inv s \<and> imap_ok s ino \<and> bitmap_readable K s"

lemma trunc_pre_step: "trunc_pre K s ino \<Longrightarrow> trunc_rel s ino t \<Longrightarrow> trunc_pre K t ino"
  by (simp add: trunc_pre_def trunc_rel_def bitmap_readable_def)

lemma drop_direct:
  assumes "trunc_pre K s ino" "i < 12" "i_addrs (xv6fs_i s ino) ! i = a" "a \<noteq> 0"
  defines "s' \<equiv> set_addr ino i 0 (xv6fs_bfree K (unat a) s)"
  shows "trunc_rel s ino s' \<and> addr_list s' ino = (addr_list s ino)[i := 0]"
proof -
  let ?t = "xv6fs_bfree K (unat a) s"
  have pre: "kernel_bitops K" "bmap_inv s" "imap_ok s ino" "bitmap_readable K s"
    "length (i_addrs (xv6fs_i s ino)) = 13" "layout_ok (raw_sb s)"
    using assms(1) by (simp_all add: trunc_pre_def imap_ok_def bmap_inv_def)
  have v: "addr_list s ino ! i = a" using assms(2,3) pre(5) by (simp add: nth_addr_list)
  have data: "unat a \<in> data_blocks s" using owned_is_data [OF pre(3), of i] v assms(2,4) by simp
  have upd: "addr_list s' ino = (addr_list s ino)[i := 0]"
    using addr_list_set_direct [of i ?t ino 0] addr_list_bfree [OF pre(2,3)] assms(2) pre(5)
    by (simp add: s'_def)
  have used: "block_used s' = block_used ?t" unfolding s'_def by (rule block_used_cong) simp_all
  have inv: "bmap_inv s'"
    using bmap_inv_bfree [OF pre(1,2), of "unat a"] bmap_inv_cong [of s' ?t] by (simp add: s'_def)
  have "trunc_rel s ino s'"
    using pre assms(2,4) upd inv block_used_bfree [OF pre(1,2,4) data] bfree_data_frame [OF pre(6)]
    by (intro drop_step [of s ino i]) (simp_all add: v used, simp_all add: s'_def)
  with upd show ?thesis by simp
qed

lemma drop_entry:
  assumes "trunc_pre K s ino" "j < 128" "i_addrs (xv6fs_i s ino) ! 12 \<noteq> 0"
    and ind: "ind = unat (i_addrs (xv6fs_i s ino) ! 12)"
    and a: "le32_at (disk s ind) j = a" "a \<noteq> 0"
  defines "t \<equiv> xv6fs_bfree K (unat a) s"
  defines "s' \<equiv> b_store ind (put_le32 j 0 (disk t ind)) t"
  shows "trunc_rel s ino s' \<and> addr_list s' ino = (addr_list s ino)[13 + j := 0]"
proof -
  have pre: "kernel_bitops K" "bmap_inv s" "imap_ok s ino" "bitmap_readable K s"
    "length (i_addrs (xv6fs_i s ino)) = 13" "layout_ok (raw_sb s)"
    using assms(1) by (simp_all add: trunc_pre_def imap_ok_def bmap_inv_def)
  have v: "addr_list s ino ! (13 + j) = a"
    using assms(2,3) a ind pre(5) by (simp add: nth_addr_list ind_entries_def Let_def)
  have data: "unat a \<in> data_blocks s"
    using owned_is_data [OF pre(3), of "13 + j"] v assms(2) a(2) by simp
  have indd: "ind \<in> data_blocks s" using pre(3) ind_in_blocks [OF pre(5) assms(3)] ind
    by (auto simp: imap_ok_def)
  have t: "bmap_inv t" "addr_list t ino = addr_list s ino" "data_blocks t = data_blocks s"
    using bmap_inv_bfree [OF pre(1,2)] addr_list_bfree [OF pre(2,3)] by (simp_all add: t_def)
  have l512: "length (disk t ind) = 512" using t(1) by (simp add: bmap_inv_def blocks_512_def)
  have upd: "addr_list s' ino = (addr_list s ino)[13 + j := 0]"
    using addr_list_set_entry [OF assms(2), of t ino ind] t(2) pre(5) assms(3) ind l512
    by (simp add: s'_def t_def)
  have inv: "bmap_inv s'"
    unfolding s'_def using t indd l512 assms(2) by (intro bmap_inv_b_store) simp_all
  have used: "block_used s' b \<longleftrightarrow> b \<noteq> unat a \<and> block_used s b"
    if "b < unat (sb_size (raw_sb s))" for b
    using block_used_b_store [of t b ind] that indd pre(6) block_used_bfree [OF pre(1,2,4) data]
    by (simp add: s'_def t_def)
  have "trunc_rel s ino s'"
    using pre assms(2) a(2) upd inv used bfree_data_frame [OF pre(6)] ind
    by (intro drop_step [of s ino "13 + j"]) (simp_all add: v, simp_all add: s'_def t_def imap_ok_def)
  with upd show ?thesis by simp
qed

lemma drop_indirect:
  assumes "trunc_pre K s ino" and a: "i_addrs (xv6fs_i s ino) ! 12 = a" "a \<noteq> 0"
    and zero: "\<forall>j < 128. addr_list s ino ! (13 + j) = 0"
  defines "s' \<equiv> set_addr ino 12 0 (xv6fs_bfree K (unat a) s)"
  shows "trunc_rel s ino s' \<and> addr_list s' ino = (addr_list s ino)[12 := 0]"
proof -
  let ?t = "xv6fs_bfree K (unat a) s"
  have pre: "kernel_bitops K" "bmap_inv s" "imap_ok s ino" "bitmap_readable K s"
    "length (i_addrs (xv6fs_i s ino)) = 13" "layout_ok (raw_sb s)"
    using assms(1) by (simp_all add: trunc_pre_def imap_ok_def bmap_inv_def)
  have v: "addr_list s ino ! 12 = a" using a pre(5) by (simp add: nth_addr_list)
  have data: "unat a \<in> data_blocks s" using owned_is_data [OF pre(3), of 12] v a by simp
  have "ind_entries s ino = replicate 128 0"
    using zero pre(5) by (intro nth_equalityI) (simp_all add: nth_addr_list)
  then have upd: "addr_list s' ino = (addr_list s ino)[12 := 0]"
    using pre(5) by (simp add: s'_def addr_list_def ind_entries_def Let_def list_update_append)
  have used: "block_used s' = block_used ?t" unfolding s'_def by (rule block_used_cong) simp_all
  have inv: "bmap_inv s'"
    using bmap_inv_bfree [OF pre(1,2), of "unat a"] bmap_inv_cong [of s' ?t] by (simp add: s'_def)
  have "trunc_rel s ino s'"
    using pre a upd inv block_used_bfree [OF pre(1,2,4) data] bfree_data_frame [OF pre(6)]
    by (intro drop_step [of s ino 12]) (simp_all add: v used, simp_all add: s'_def)
  with upd show ?thesis by simp
qed

lemma truncate_direct_rel:
  assumes "trunc_pre K s ino"
  shows "trunc_rel s ino (truncate_direct K ino i s) \<and>
    (\<forall>j < 141. addr_list (truncate_direct K ino i s) ino ! j =
       (if i \<le> j \<and> j < 12 then 0 else addr_list s ino ! j))"
  using assms
proof (induction "12 - i" arbitrary: i s)
  case 0
  then have "truncate_direct K ino i s = s" by (simp add: truncate_direct.simps [of K ino i s])
  then show ?case using 0 by (auto simp: trunc_rel_refl trunc_pre_def)
next
  case (Suc n)
  then have i: "i < 12" by simp
  have len: "length (i_addrs (xv6fs_i s ino)) = 13" "length (addr_list s ino) = 141"
    using Suc.prems by (simp_all add: trunc_pre_def imap_ok_def addr_list_def)
  let ?a = "i_addrs (xv6fs_i s ino) ! i"
  define t where "t = (if ?a \<noteq> 0 then set_addr ino i 0 (xv6fs_bfree K (unat ?a) s) else s)"
  have step: "trunc_rel s ino t \<and> addr_list t ino = (addr_list s ino)[i := 0]"
  proof (cases "?a = 0")
    case True
    then have "addr_list s ino ! i = 0" using i len by (simp add: nth_addr_list)
    then have "(addr_list s ino)[i := 0] = addr_list s ino" by (metis list_update_id)
    with True Suc.prems show ?thesis by (simp add: t_def trunc_rel_refl trunc_pre_def)
  next
    case False
    then show ?thesis using drop_direct [OF Suc.prems i refl False] by (simp add: t_def)
  qed
  have unf: "truncate_direct K ino i s = truncate_direct K ino (Suc i) t"
    using i by (simp add: truncate_direct.simps [of K ino i s] Let_def t_def)
  have IH: "trunc_rel t ino (truncate_direct K ino (Suc i) t) \<and>
    (\<forall>j < 141. addr_list (truncate_direct K ino (Suc i) t) ino ! j =
       (if Suc i \<le> j \<and> j < 12 then 0 else addr_list t ino ! j))"
    using Suc.hyps(2) trunc_pre_step [OF Suc.prems] step by (intro Suc.hyps(1)) simp_all
  show ?case
    unfolding unf using IH step len trunc_rel_trans [of s ino t] i by (auto simp: nth_list_update)
qed

lemma truncate_indirect_rel:
  assumes "trunc_pre K s ino" "i_addrs (xv6fs_i s ino) ! 12 \<noteq> 0"
    and "ind = unat (i_addrs (xv6fs_i s ino) ! 12)"
    and "truncate_indirect K ind st i al s = (left, s')"
  shows "trunc_rel s ino s' \<and> i_addrs (xv6fs_i s' ino) = i_addrs (xv6fs_i s ino) \<and>
    (\<forall>j < 128. addr_list s' ino ! (13 + j) =
       (if i \<le> j \<and> st \<le> j then 0 else addr_list s ino ! (13 + j))) \<and>
    (left \<longleftrightarrow> al \<or> (\<exists>j < 128. i \<le> j \<and> j < st \<and> addr_list s ino ! (13 + j) \<noteq> 0))"
  using assms
proof (induction "128 - i" arbitrary: i s al)
  case 0
  have "truncate_indirect K ind st i al s = (al, s)"
    using 0(1) by (simp add: truncate_indirect.simps [of K ind st i al s])
  then have "s' = s" "left = al" using 0 by simp_all
  then show ?case using 0 by (auto simp: trunc_rel_refl trunc_pre_def)
next
  case (Suc n)
  then have i: "i < 128" by simp
  have len: "length (i_addrs (xv6fs_i s ino)) = 13" "length (addr_list s ino) = 141"
    using Suc.prems by (simp_all add: trunc_pre_def imap_ok_def addr_list_def)
  let ?a = "le32_at (disk s ind) i"
  have a: "addr_list s ino ! (13 + i) = ?a"
    using i len(1) Suc.prems(2,3) by (simp add: nth_addr_list ind_entries_def Let_def)
  define t where "t = (if ?a \<noteq> 0 \<and> st \<le> i then
      b_store ind (put_le32 i 0 (disk (xv6fs_bfree K (unat ?a) s) ind)) (xv6fs_bfree K (unat ?a) s) else s)"
  define al' where "al' = (if ?a \<noteq> 0 \<and> i < st then True else al)"
  have step: "trunc_rel s ino t \<and> i_addrs (xv6fs_i t ino) = i_addrs (xv6fs_i s ino) \<and>
      addr_list t ino = (if st \<le> i then (addr_list s ino)[13 + i := 0] else addr_list s ino)"
  proof (cases "?a \<noteq> 0 \<and> st \<le> i")
    case True
    then show ?thesis using drop_entry [OF Suc.prems(1) i Suc.prems(2,3) refl] by (simp add: t_def)
  next
    case False
    then have "st \<le> i \<Longrightarrow> (addr_list s ino)[13 + i := 0] = addr_list s ino"
      using a by (metis list_update_id)
    with False Suc.prems show ?thesis by (auto simp: t_def trunc_rel_refl trunc_pre_def)
  qed
  have "truncate_indirect K ind st i al s = truncate_indirect K ind st (Suc i) al' t"
    using i by (auto simp: truncate_indirect.simps [of K ind st i al s] Let_def t_def al'_def)
  then have call: "truncate_indirect K ind st (Suc i) al' t = (left, s')" using Suc.prems(4) by simp
  have IH: "trunc_rel t ino s' \<and> i_addrs (xv6fs_i s' ino) = i_addrs (xv6fs_i t ino) \<and>
    (\<forall>j < 128. addr_list s' ino ! (13 + j) =
       (if Suc i \<le> j \<and> st \<le> j then 0 else addr_list t ino ! (13 + j))) \<and>
    (left \<longleftrightarrow> al' \<or> (\<exists>j < 128. Suc i \<le> j \<and> j < st \<and> addr_list t ino ! (13 + j) \<noteq> 0))"
    using Suc.hyps(2) trunc_pre_step [OF Suc.prems(1)] step Suc.prems(2,3) call
    by (intro Suc.hyps(1)) simp_all
  have entries: "addr_list s' ino ! (13 + j) =
      (if i \<le> j \<and> st \<le> j then 0 else addr_list s ino ! (13 + j))" if "j < 128" for j
    using IH step that len by (cases "j = i") (auto simp: nth_list_update)
  have "(\<exists>j < 128. i \<le> j \<and> j < st \<and> addr_list s ino ! (13 + j) \<noteq> 0) \<longleftrightarrow>
      i < st \<and> ?a \<noteq> 0 \<or> (\<exists>j < 128. Suc i \<le> j \<and> j < st \<and> addr_list s ino ! (13 + j) \<noteq> 0)"
    using a i by (metis le_eq_less_or_eq Suc_le_eq)
  then have "left \<longleftrightarrow> al \<or> (\<exists>j < 128. i \<le> j \<and> j < st \<and> addr_list s ino ! (13 + j) \<noteq> 0)"
    using IH step by (auto simp: al'_def split: if_splits)
  then show ?case using IH step entries trunc_rel_trans [of s ino t s'] by auto
qed

text \<open>The address slots after truncation to \<open>n\<close> blocks, but for the indirect block's own.\<close>

definition cut_addrs :: "nat \<Rightarrow> fs \<Rightarrow> nat \<Rightarrow> fs \<Rightarrow> bool" where
  "cut_addrs n s ino s' \<longleftrightarrow>
     (\<forall>i < 12. addr_list s' ino ! i = (if n \<le> i then 0 else addr_list s ino ! i)) \<and>
     (\<forall>j < 128. addr_list s' ino ! (13 + j) = (if n - 12 \<le> j then 0 else addr_list s ino ! (13 + j)))"

lemma cut_addrs_file_map:
  assumes "cut_addrs n s ino s'" "length (i_addrs (xv6fs_i s ino)) = 13"
    and "length (i_addrs (xv6fs_i s' ino)) = 13"
  shows "file_map s' ino = (\<lambda>l. if l < n then file_map s ino l else None)"
proof
  fix l
  have "addr_list s' ino ! (l + 1) = (if n \<le> l then 0 else addr_list s ino ! (l + 1))"
    if "12 \<le> l" "l < 140"
    using assms(1) that unfolding cut_addrs_def by (auto dest!: spec [of _ "l - 12"])
  moreover have "addr_list s' ino ! l = (if n \<le> l then 0 else addr_list s ino ! l)" if "l < 12"
    using assms(1) that by (simp add: cut_addrs_def)
  ultimately show "file_map s' ino l = (if l < n then file_map s ino l else None)"
    by (auto simp: file_map_addr_list [OF assms(2)] file_map_addr_list [OF assms(3)] block_opt_def)
qed

lemma truncate_rest:
  assumes "trunc_pre K s1 ino" and a: "i_addrs (xv6fs_i s1 ino) ! 12 = a" "a \<noteq> 0"
    and call: "truncate_indirect K (unat a) st 0 False (s1\<lparr>holds := holds s1 + 1\<rparr>) = (left, s3)"
  defines "s4 \<equiv> brelse (mark_buffer_dirty (unat a) s3)"
  defines "s5 \<equiv> if \<not> left then set_addr ino 12 0 (xv6fs_bfree K (unat (i_addrs (xv6fs_i s4 ino) ! 12)) s4)
                 else s4"
  shows "trunc_rel s1 ino s5 \<and> (\<forall>i < 12. addr_list s5 ino ! i = addr_list s1 ino ! i) \<and>
    (\<forall>j < 128. addr_list s5 ino ! (13 + j) = (if st \<le> j then 0 else addr_list s1 ino ! (13 + j))) \<and>
    ((\<forall>j < 128. j < st \<longrightarrow> addr_list s1 ino ! (13 + j) = 0) \<longrightarrow> addr_list s5 ino ! 12 = 0)"
proof -
  let ?s2 = "s1\<lparr>holds := holds s1 + 1\<rparr>"
  have p2: "trunc_pre K ?s2 ino" using assms(1) by (simp add: trunc_pre_def bitmap_readable_def)
  have r: "trunc_rel s1 ino s4" "i_addrs (xv6fs_i s4 ino) = i_addrs (xv6fs_i s1 ino)"
    "\<forall>j < 128. addr_list s4 ino ! (13 + j) = (if st \<le> j then 0 else addr_list s1 ino ! (13 + j))"
    "left \<longleftrightarrow> (\<exists>j < 128. j < st \<and> addr_list s1 ino ! (13 + j) \<noteq> 0)"
    using truncate_indirect_rel [OF p2 _ _ call] a by (simp_all add: s4_def)
  have len: "length (i_addrs (xv6fs_i s1 ino)) = 13" "length (addr_list s4 ino) = 141"
    using assms(1) r(2) by (simp_all add: trunc_pre_def imap_ok_def addr_list_def)
  have dir: "\<forall>i < 12. addr_list s4 ino ! i = addr_list s1 ino ! i"
    using r(2) len by (simp add: nth_addr_list)
  show ?thesis
  proof (cases left)
    case True
    then show ?thesis using r dir by (auto simp: s5_def)
  next
    case False
    have p4: "trunc_pre K s4 ino" by (rule trunc_pre_step [OF assms(1) r(1)])
    have "i_addrs (xv6fs_i s4 ino) ! 12 = a" using r(2) a by simp
    moreover have "\<forall>j < 128. addr_list s4 ino ! (13 + j) = 0" using False r(3,4) by auto
    ultimately have "trunc_rel s4 ino s5 \<and> addr_list s5 ino = (addr_list s4 ino)[12 := 0]"
      using drop_indirect [OF p4 _ a(2)] False by (simp add: s5_def)
    then show ?thesis using trunc_rel_trans [OF r(1)] r(3) dir len(2) by simp
  qed
qed

lemma truncate_blocks_rel:
  fixes n :: nat
  assumes "trunc_pre K s ino"
    and "i_addrs (xv6fs_i s ino) ! 12 \<noteq> 0 \<longrightarrow> sb_bread_ok K (unat (i_addrs (xv6fs_i s ino) ! 12))"
  defines "s' \<equiv> xv6fs_truncate_blocks K ino n s"
  shows "trunc_rel s ino s' \<and> cut_addrs n s ino s' \<and>
    ((\<forall>j < 128. j < n - 12 \<longrightarrow> addr_list s ino ! (13 + j) = 0) \<longrightarrow> addr_list s' ino ! 12 = 0)"
proof -
  define s1 where "s1 = truncate_direct K ino n s"
  have d: "trunc_rel s ino s1"
    "\<forall>j < 141. addr_list s1 ino ! j = (if n \<le> j \<and> j < 12 then 0 else addr_list s ino ! j)"
    using truncate_direct_rel [OF assms(1), of n] by (simp_all add: s1_def)
  have p1: "trunc_pre K s1 ino" by (rule trunc_pre_step [OF assms(1) d(1)])
  have len: "length (i_addrs (xv6fs_i s ino)) = 13" "length (i_addrs (xv6fs_i s1 ino)) = 13"
    using assms(1) p1 by (simp_all add: trunc_pre_def imap_ok_def)
  have a12: "i_addrs (xv6fs_i s1 ino) ! 12 = i_addrs (xv6fs_i s ino) ! 12"
    using d(2) [rule_format, of 12] len by (simp add: nth_addr_list)
  show ?thesis
  proof (cases "i_addrs (xv6fs_i s ino) ! 12 = 0")
    case True
    then have "s' = s1" using a12 by (simp add: s'_def xv6fs_truncate_blocks_def Let_def flip: s1_def)
    moreover have "\<forall>j < 128. addr_list s ino ! (13 + j) = 0"
      using True len by (simp add: nth_addr_list ind_entries_def)
    moreover have "addr_list s ino ! 12 = 0" using True len by (simp add: nth_addr_list)
    ultimately show ?thesis using d by (simp add: cut_addrs_def)
  next
    case False
    let ?a = "i_addrs (xv6fs_i s ino) ! 12"
    obtain left s3 where call: "truncate_indirect K (unat ?a) (n - 12) 0 False
        (s1\<lparr>holds := holds s1 + 1\<rparr>) = (left, s3)" by fastforce
    have st: "(if 12 < n then n - 12 else 0) = n - 12" by simp
    note t = truncate_rest [OF p1 a12 False call]
    have "s' = (if \<not> left then set_addr ino 12 0 (xv6fs_bfree K
          (unat (i_addrs (xv6fs_i (brelse (mark_buffer_dirty (unat ?a) s3)) ino) ! 12))
          (brelse (mark_buffer_dirty (unat ?a) s3)))
        else brelse (mark_buffer_dirty (unat ?a) s3))"
      unfolding s'_def xv6fs_truncate_blocks_def Let_def s1_def [symmetric] a12 st
      using False assms(2) call by (simp add: sb_bread_def)
    then have s': "trunc_rel s1 ino s'" "\<forall>i < 12. addr_list s' ino ! i = addr_list s1 ino ! i"
      "\<forall>j < 128. addr_list s' ino ! (13 + j) = (if n - 12 \<le> j then 0 else addr_list s1 ino ! (13 + j))"
      "(\<forall>j < 128. j < n - 12 \<longrightarrow> addr_list s1 ino ! (13 + j) = 0) \<longrightarrow> addr_list s' ino ! 12 = 0"
      using t by simp_all
    show ?thesis using trunc_rel_trans [OF d(1) s'(1)] s'(2-4) d(2) by (simp add: cut_addrs_def)
  qed
qed

text \<open>Truncation to nothing leaves the inode without blocks.\<close>

lemma truncate_blocks_all:
  assumes "trunc_pre K s ino"
    and "i_addrs (xv6fs_i s ino) ! 12 \<noteq> 0 \<longrightarrow> sb_bread_ok K (unat (i_addrs (xv6fs_i s ino) ! 12))"
  shows "inode_blocks (xv6fs_truncate_blocks K ino 0 s) ino = []"
proof -
  let ?s' = "xv6fs_truncate_blocks K ino 0 s"
  note r = truncate_blocks_rel [OF assms, of 0]
  have len: "length (addr_list ?s' ino) = 141"
    using r by (simp add: trunc_rel_def imap_ok_def addr_list_def)
  have "addr_list ?s' ino ! i = 0" if "i < 141" for i
  proof -
    consider "i < 12" | "i = 12" | "13 \<le> i" by linarith
    then show ?thesis
    proof cases
      case 3
      have "\<forall>j < 128. addr_list ?s' ino ! (13 + j) = 0" using r by (simp add: cut_addrs_def)
      from this [rule_format, of "i - 13"] 3 that show ?thesis by simp
    qed (use r in \<open>simp_all add: cut_addrs_def\<close>)
  qed
  then have "addr_list ?s' ino = replicate 141 0" using len by (intro nth_equalityI) simp_all
  then show ?thesis by (simp only: inode_blocks_def nz_blocks_replicate_0)
qed

section \<open>What block operations leave alone\<close>

text \<open>
  Allocation and truncation on behalf of inode \<open>ino\<close> do not touch the inode
  tables nor the other cached inodes, and keep no buffer, on any path.
\<close>

definition same_tables :: "nat \<Rightarrow> fs \<Rightarrow> fs \<Rightarrow> bool" where
  "same_tables ino s s' \<longleftrightarrow>
     raw_sb s' = raw_sb s \<and> dinodes s' = dinodes s \<and> free_inodes_list s' = free_inodes_list s \<and>
     free_inodes s' = free_inodes s \<and> holds s' = holds s \<and> dirty s \<subseteq> dirty s' \<and>
     idirty s \<subseteq> idirty s' \<and> (\<forall>j. j \<noteq> ino \<longrightarrow> icache s' j = icache s j)"

lemma same_tables_refl [simp]: "same_tables ino s s"
  by (simp add: same_tables_def)

lemma same_tables_trans [trans]:
  "same_tables ino s t \<Longrightarrow> same_tables ino t u \<Longrightarrow> same_tables ino s u"
  unfolding same_tables_def by auto

lemma same_tables_basic:
  "same_tables ino s (set_addr ino i v s)" "same_tables ino s (xv6fs_bfree K b s)"
  "same_tables ino s (b_store b d s)" "same_tables ino s (mark_buffer_dirty b s)"
  "same_tables ino s (set_inode ino ei s)" "same_tables ino s (mark_inode_dirty j s)"
  by (auto simp: same_tables_def set_addr_def inode_defs bfree_eq bitmap_update_def)

lemma same_tables_set_addr_bfree: "same_tables ino s (set_addr ino i v (xv6fs_bfree K b s))"
  using same_tables_trans [OF same_tables_basic(2) same_tables_basic(1)] .

lemma truncate_direct_tables: "same_tables ino s (truncate_direct K ino i s)"
proof (induction "12 - i" arbitrary: i s)
  case 0
  then show ?case by (simp add: truncate_direct.simps [of K ino i s])
next
  case (Suc n)
  let ?t = "if i_addrs (xv6fs_i s ino) ! i \<noteq> 0
    then set_addr ino i 0 (xv6fs_bfree K (unat (i_addrs (xv6fs_i s ino) ! i)) s) else s"
  have call: "truncate_direct K ino i s = truncate_direct K ino (Suc i) ?t"
    using Suc.hyps(2) by (simp add: truncate_direct.simps [of K ino i s] Let_def)
  have step: "same_tables ino s ?t" by (simp add: same_tables_set_addr_bfree)
  have "same_tables ino ?t (truncate_direct K ino (Suc i) ?t)"
    using Suc.hyps(2) by (intro Suc.hyps(1)) simp
  then show ?case unfolding call by (rule same_tables_trans [OF step])
qed

lemma truncate_indirect_tables:
  "same_tables ino s (snd (truncate_indirect K ind st i al s))"
proof (induction "128 - i" arbitrary: i s al)
  case 0
  then show ?case by (simp add: truncate_indirect.simps [of K ind st i al s])
next
  case (Suc n)
  let ?a = "le32_at (disk s ind) i"
  let ?t = "if ?a \<noteq> 0 \<and> st \<le> i then
      b_store ind (put_le32 i 0 (disk (xv6fs_bfree K (unat ?a) s) ind)) (xv6fs_bfree K (unat ?a) s) else s"
  let ?al = "if ?a \<noteq> 0 \<and> i < st then True else al"
  have "i < 128" using Suc.hyps(2) by simp
  then have call: "truncate_indirect K ind st i al s = truncate_indirect K ind st (Suc i) ?al ?t"
    by (simp add: truncate_indirect.simps [of K ind st i al s] Let_def)
  have step: "same_tables ino s ?t"
    using same_tables_trans [OF same_tables_basic(2) same_tables_basic(3)] by simp
  have "same_tables ino ?t (snd (truncate_indirect K ind st (Suc i) ?al ?t))"
    using Suc.hyps(2) by (intro Suc.hyps(1)) simp
  then show ?case unfolding call by (rule same_tables_trans [OF step])
qed

lemma truncate_blocks_tables: "same_tables ino s (xv6fs_truncate_blocks K ino n s)"
proof -
  define s1 where "s1 = truncate_direct K ino n s"
  let ?a = "i_addrs (xv6fs_i s1 ino) ! 12"
  have d: "same_tables ino s s1" unfolding s1_def by (rule truncate_direct_tables)
  show ?thesis
  proof (cases "?a = 0 \<or> \<not> sb_bread_ok K (unat ?a)")
    case True
    then have "xv6fs_truncate_blocks K ino n s = s1"
      by (auto simp: xv6fs_truncate_blocks_def Let_def sb_bread_def simp flip: s1_def)
    with d show ?thesis by simp
  next
    case False
    obtain left s3 where call: "truncate_indirect K (unat ?a) (if 12 < n then n - 12 else 0) 0 False
        (s1\<lparr>holds := holds s1 + 1\<rparr>) = (left, s3)" by fastforce
    let ?s4 = "brelse (mark_buffer_dirty (unat ?a) s3)"
    have "same_tables ino (s1\<lparr>holds := holds s1 + 1\<rparr>) s3"
      using truncate_indirect_tables [of ino "s1\<lparr>holds := holds s1 + 1\<rparr>" K "unat ?a"
          "if 12 < n then n - 12 else 0" 0 False] unfolding call by simp
    then have s4: "same_tables ino s1 ?s4" by (auto simp: same_tables_def)
    have "xv6fs_truncate_blocks K ino n s = (if \<not> left then
        set_addr ino 12 0 (xv6fs_bfree K (unat (i_addrs (xv6fs_i ?s4 ino) ! 12)) ?s4) else ?s4)"
      using False call unfolding xv6fs_truncate_blocks_def Let_def s1_def [symmetric]
      by (simp add: sb_bread_def)
    then have "same_tables ino ?s4 (xv6fs_truncate_blocks K ino n s)"
      by (simp add: same_tables_set_addr_bfree)
    then show ?thesis using same_tables_trans [OF d] same_tables_trans [OF s4] by blast
  qed
qed

lemma balloc_loop_tables: "same_tables ino s (snd (balloc_loop K tot s b)) \<and>
  icache (snd (balloc_loop K tot s b)) = icache s"
proof (induction "tot - b" arbitrary: b rule: less_induct)
  case less
  show ?case
  proof (cases "b < tot")
    case False
    then show ?thesis by (simp add: balloc_loop.simps [of K tot s b])
  next
    case True
    then have "same_tables ino s (snd (balloc_loop K tot s (b + 4096))) \<and>
        icache (snd (balloc_loop K tot s (b + 4096))) = icache s"
      by (intro less) simp
    with True show ?thesis
      by (auto simp: balloc_loop.simps [of K tot s b] Let_def buffer_defs same_tables_def)
  qed
qed

lemma balloc_tables: "same_tables ino s (snd (xv6fs_balloc K s))"
  "icache (snd (xv6fs_balloc K s)) = icache s"
  using balloc_loop_tables by (simp_all add: xv6fs_balloc_def)

text \<open>Only the address slots of the inode itself change, and it stays cached.\<close>

definition same_attrs :: "nat \<Rightarrow> fs \<Rightarrow> fs \<Rightarrow> bool" where
  "same_attrs ino s s' \<longleftrightarrow>
     xv6fs_i s' ino = (xv6fs_i s ino)\<lparr>i_addrs := i_addrs (xv6fs_i s' ino)\<rparr> \<and>
     (ino \<in> dom (icache s) \<longrightarrow> ino \<in> dom (icache s'))"

lemma same_attrs_icache: "icache s' = icache s \<Longrightarrow> same_attrs ino s s'"
  by (simp add: same_attrs_def xv6fs_i_def)

lemma same_attrs_set_addr: "icache s' = icache s \<Longrightarrow> same_attrs ino s (set_addr ino i v s')"
  by (simp add: same_attrs_def set_addr_def inode_defs)

lemma same_attrs_trans [trans]: "same_attrs ino s t \<Longrightarrow> same_attrs ino t u \<Longrightarrow> same_attrs ino s u"
  by (cases "xv6fs_i s ino", cases "xv6fs_i t ino", cases "xv6fs_i u ino") (auto simp: same_attrs_def)

lemma get_block_indirect_frame:
  assumes "holds u = holds s + 1" "same_tables ino s (brelse u)" "same_attrs ino s u"
  shows "same_tables ino s (snd (get_block_indirect K ino l c b u))"
    "same_attrs ino s (snd (get_block_indirect K ino l c b u))"
proof -
  obtain r v where bal: "xv6fs_balloc K u = (r, v)" by fastforce
  then have v: "same_tables ino u v" "icache v = icache u"
    using balloc_tables(1) [of ino u K] balloc_tables(2) [of K u] by simp_all
  show "same_tables ino s (snd (get_block_indirect K ino l c b u))"
    using assms(1,2) v bal
    by (auto simp: get_block_indirect_def Let_def same_tables_def split: sum.splits)
  have "same_attrs ino u (snd (get_block_indirect K ino l c b u))"
    using v(2) bal
    by (intro same_attrs_icache) (auto simp: get_block_indirect_def Let_def split: sum.splits)
  with assms(3) show "same_attrs ino s (snd (get_block_indirect K ino l c b u))"
    by (rule same_attrs_trans)
qed

lemma get_block_frame:
  "same_tables ino s (snd (xv6fs_get_block K ino l c s)) \<and>
   same_attrs ino s (snd (xv6fs_get_block K ino l c s))"
proof -
  obtain r v where bal: "xv6fs_balloc K s = (r, v)" by fastforce
  then have v: "same_tables ino s v" "icache v = icache s"
    using balloc_tables(1) [of ino s K] balloc_tables(2) [of K s] by simp_all
  have refl: "same_attrs ino s s" "same_attrs ino s v" using v(2) by (simp_all add: same_attrs_icache)
  define m where "m i a = mark_inode_dirty ino (set_addr ino i a v)" for i a
  have m: "same_tables ino s (m i a)" "same_attrs ino s (m i a)" for i a
    using same_tables_trans [OF v(1) same_tables_trans [OF same_tables_basic(1,6)]]
      same_attrs_trans [OF same_attrs_set_addr [OF v(2)] same_attrs_icache [of "m i a"]]
    by (simp_all add: m_def)
  have old: "same_tables ino s (snd (get_block_indirect K ino l c b (s\<lparr>holds := holds s + 1\<rparr>)))"
    "same_attrs ino s (snd (get_block_indirect K ino l c b (s\<lparr>holds := holds s + 1\<rparr>)))" for b
    by (rule get_block_indirect_frame; simp add: brelse_def same_attrs_icache)+
  have hm: "holds (m i a) = holds s" for i a using m(1) [of i a] by (simp add: same_tables_def)
  have new: "same_tables ino s (snd (get_block_indirect K ino l c b
      (mark_buffer_dirty b (b_store b d ((m i a)\<lparr>holds := holds (m i a) + 1\<rparr>)))))"
    "same_attrs ino s (snd (get_block_indirect K ino l c b
      (mark_buffer_dirty b (b_store b d ((m i a)\<lparr>holds := holds (m i a) + 1\<rparr>)))))" for b d i a
  proof -
    let ?u = "mark_buffer_dirty b (b_store b d ((m i a)\<lparr>holds := holds (m i a) + 1\<rparr>))"
    have "holds ?u = holds s + 1" "same_tables ino s (brelse ?u)"
      using m(1) [of i a] hm [of i a] by (auto simp: same_tables_def)
    moreover have "same_attrs ino s ?u"
      by (rule same_attrs_trans [OF m(2) [of i a] same_attrs_icache]) simp
    ultimately show "same_tables ino s (snd (get_block_indirect K ino l c b ?u))"
      "same_attrs ino s (snd (get_block_indirect K ino l c b ?u))"
      by (rule get_block_indirect_frame)+
  qed
  show ?thesis
    using old new m v refl
    by (auto simp: xv6fs_get_block_def Let_def bal sb_bread_def sb_getblk_def m_def [symmetric]
          split: sum.splits)
qed

lemma same_attrs_refl: "same_attrs ino s s"
  by (simp add: same_attrs_icache)

lemma set_addr_bfree_attrs: "same_attrs ino s (set_addr ino i v (xv6fs_bfree K b s))"
  by (intro same_attrs_set_addr) simp

lemma truncate_direct_attrs: "same_attrs ino s (truncate_direct K ino i s)"
proof (induction "12 - i" arbitrary: i s)
  case 0
  then show ?case by (simp add: truncate_direct.simps [of K ino i s] same_attrs_refl)
next
  case (Suc n)
  let ?t = "if i_addrs (xv6fs_i s ino) ! i \<noteq> 0
    then set_addr ino i 0 (xv6fs_bfree K (unat (i_addrs (xv6fs_i s ino) ! i)) s) else s"
  have call: "truncate_direct K ino i s = truncate_direct K ino (Suc i) ?t"
    using Suc.hyps(2) by (simp add: truncate_direct.simps [of K ino i s] Let_def)
  have step: "same_attrs ino s ?t" by (simp add: set_addr_bfree_attrs same_attrs_refl)
  have "same_attrs ino ?t (truncate_direct K ino (Suc i) ?t)"
    using Suc.hyps(2) by (intro Suc.hyps(1)) simp
  then show ?case unfolding call by (rule same_attrs_trans [OF step])
qed

lemma truncate_indirect_icache: "icache (snd (truncate_indirect K ind st i al s)) = icache s"
proof
  fix j
  show "icache (snd (truncate_indirect K ind st i al s)) j = icache s j"
    using truncate_indirect_tables [of "Suc j" s K ind st i al] by (simp add: same_tables_def)
qed

lemma truncate_blocks_attrs: "same_attrs ino s (xv6fs_truncate_blocks K ino n s)"
proof -
  define s1 where "s1 = truncate_direct K ino n s"
  let ?a = "i_addrs (xv6fs_i s1 ino) ! 12"
  obtain left s3 where call: "truncate_indirect K (unat ?a) (if 12 < n then n - 12 else 0) 0 False
      (s1\<lparr>holds := holds s1 + 1\<rparr>) = (left, s3)" by fastforce
  let ?s4 = "brelse (mark_buffer_dirty (unat ?a) s3)"
  have "icache ?s4 = icache s1"
    using truncate_indirect_icache [of K "unat ?a" "if 12 < n then n - 12 else 0" 0 False
        "s1\<lparr>holds := holds s1 + 1\<rparr>"] unfolding call by simp
  then have a: "same_attrs ino s1 ?s4" by (rule same_attrs_icache)
  have "same_attrs ino s1 (xv6fs_truncate_blocks K ino n s)"
    using call a same_attrs_trans [OF a set_addr_bfree_attrs]
    by (auto simp: xv6fs_truncate_blocks_def Let_def s1_def [symmetric] sb_bread_def same_attrs_refl)
  then show ?thesis
    using same_attrs_trans [OF truncate_direct_attrs] unfolding s1_def by blast
qed

lemma truncate_blocks_size [simp]:
  "i_size (xv6fs_i (xv6fs_truncate_blocks K ino n s) ino) = i_size (xv6fs_i s ino)"
proof -
  have "xv6fs_i (xv6fs_truncate_blocks K ino n s) ino = (xv6fs_i s ino)
      \<lparr>i_addrs := i_addrs (xv6fs_i (xv6fs_truncate_blocks K ino n s) ino)\<rparr>"
    using truncate_blocks_attrs [of ino s K n] unfolding same_attrs_def by (rule conjunct1)
  from arg_cong [OF this, of i_size] show ?thesis by simp
qed

lemma truncate_setsize_tables: "same_tables ino s (truncate_setsize K ino sz s)"
  using same_tables_trans [OF same_tables_basic(3) same_tables_basic(5)] same_tables_basic(5)
  by (auto simp: truncate_setsize_def zero_page_tail_def split: option.split)

lemma setattr_holds: "holds (snd (xv6fs_setattr K ino ia s)) = holds s"
  using same_tables_trans [OF truncate_setsize_tables truncate_blocks_tables]
  by (simp add: xv6fs_setattr_def Let_def same_tables_def set_inode_def mark_inode_dirty_def
        split: option.splits)

text \<open>An update of the other fields of an inode does not change its block map.\<close>

lemma inode_views_set_inode:
  assumes "i_addrs ei = i_addrs (xv6fs_i s ino)"
  shows "addr_list (set_inode ino ei s) ino = addr_list s ino"
    "block_used (set_inode ino ei s) = block_used s" "bmap_inv (set_inode ino ei s) = bmap_inv s"
    "data_blocks (set_inode ino ei s) = data_blocks s"
    "inode_blocks (set_inode ino ei s) ino = inode_blocks s ino"
    "imap_ok s ino \<Longrightarrow> imap_ok (set_inode ino ei s) ino"
    "trunc_pre K s ino \<Longrightarrow> trunc_pre K (set_inode ino ei s) ino"
    "file_map (set_inode ino ei s) ino = file_map s ino"
proof -
  let ?t = "set_inode ino ei s"
  have d: "disk ?t = disk s" "raw_sb ?t = raw_sb s" by (simp_all add: set_inode_def)
  show a: "addr_list ?t ino = addr_list s ino"
    using assms d by (simp add: addr_list_def ind_entries_def Let_def)
  show b: "block_used ?t = block_used s" "bmap_inv ?t = bmap_inv s" "data_blocks ?t = data_blocks s"
    by (rule block_used_cong bmap_inv_cong data_blocks_cong; simp only: d)+
  show "file_map ?t ino = file_map s ino"
    using assms d by (simp add: file_map_def ind_entries_def Let_def fun_eq_iff)
  show i: "inode_blocks ?t ino = inode_blocks s ino" by (simp add: inode_blocks_def a)
  show "imap_ok ?t ino" if "imap_ok s ino"
    using that assms by (simp add: imap_ok_def b i) (simp add: set_inode_def)
  then show "trunc_pre K ?t ino" if "trunc_pre K s ino"
    using that by (simp add: trunc_pre_def b bitmap_readable_def d)
qed

section \<open>Failed allocation\<close>

text \<open>What a failed allocating call leaves: the same map, and the invariants.\<close>

definition map_kept :: "fs \<Rightarrow> nat \<Rightarrow> fs \<Rightarrow> bool" where
  "map_kept s ino s' \<longleftrightarrow>
     file_map s' ino = file_map s ino \<and> imap_ok s' ino \<and> bmap_inv s' \<and> raw_sb s' = raw_sb s \<and>
     set (inode_blocks s ino) \<subseteq> set (inode_blocks s' ino) \<and>
     set (inode_blocks s' ino) \<subseteq> set (inode_blocks s ino) \<union> free_blocks s \<and>
     (\<forall>n < unat (sb_size (raw_sb s)). block_used s n \<longrightarrow> block_used s' n) \<and>
     (\<forall>n < unat (sb_size (raw_sb s)). block_used s' n \<longrightarrow> block_used s n \<or> n \<in> set (inode_blocks s' ino)) \<and>
     (\<forall>b \<in> outside_bitmap s. b \<noteq> unat (addr_list s' ino ! 12) \<longrightarrow> disk s' b = disk s b)"

lemma get_block_indirect_Inl:
  assumes "kernel_bitops K" "bmap_inv t" "get_block_indirect K ino l True b t = (Inl e, t')"
  shows "t' = brelse t \<and> (e = ENOSPC \<or> e = EIO)"
proof -
  have bl: "blocks_512 t" using assms(2) by (simp add: bmap_inv_def)
  from assms(3) obtain s1 where al: "xv6fs_balloc K t = (Inl e, s1)" and t': "t' = brelse s1"
    by (auto simp: get_block_indirect_def Let_def split: if_splits prod.splits sum.splits)
  show ?thesis using balloc_Inl [OF assms(1) bl al] t' by auto
qed

lemma get_block_fail_new_indirect:
  assumes "kernel_bitops K" "bmap_inv s" "imap_ok s ino" "12 \<le> l" "l < 140"
    and zero: "i_addrs (xv6fs_i s ino) ! 12 = 0" and al: "xv6fs_balloc K s = (Inr nb, s1)"
    and "\<forall>b. sb_getblk_ok K b" "xv6fs_get_block K ino l True s = (Inl e, s')"
  shows "map_kept s ino s' \<and> (e = ENOSPC \<or> e = EIO)"
proof -
  let ?t = "b_store nb (replicate 512 0) (set_addr ino 12 (of_nat nb) s1)"
  have st: "alloc_step s ino 12 nb ?t" by (rule alloc_indirect [OF assms(1-3) al zero])
  define t where "t = mark_buffer_dirty nb (mark_inode_dirty ino (?t\<lparr>holds := holds s1 + 1\<rparr>))"
  have t_eq: "t = mark_buffer_dirty nb (b_store nb (replicate 512 0)
      ((mark_inode_dirty ino (set_addr ino 12 (of_nat nb) s1))\<lparr>holds := holds s1 + 1\<rparr>))"
    by (simp add: t_def buffer_defs inode_defs set_addr_def)
  have call: "get_block_indirect K ino l True nb t = (Inl e, s')"
    using assms(4-6,8,9) al
    by (auto simp: xv6fs_get_block_def Let_def t_eq sb_getblk_def split: if_splits)
  have inv: "bmap_inv t" using st by (simp add: t_def alloc_step_def)
  have "map_kept s ino t"
    using alloc_step_imap [OF assms(2,3) st] alloc_step_file_map [OF assms(2,3) st] inv st
    by (auto simp: map_kept_def t_def alloc_step_def)
  with get_block_indirect_Inl [OF assms(1) inv call] show ?thesis by (simp add: map_kept_def)
qed

lemma get_block_create_Inl:
  assumes "kernel_bitops K" "bmap_inv s" "imap_ok s ino" "\<forall>b. sb_getblk_ok K b"
    and "xv6fs_get_block K ino l True s = (Inl e, s')"
  shows "map_kept s ino s' \<and> (if 140 \<le> l then e = EFBIG \<and> s' = s else e = ENOSPC \<or> e = EIO)"
proof -
  have bl: "blocks_512 s" using assms(2) by (simp add: bmap_inv_def)
  have refl: "map_kept s ino s" using assms(2,3) by (simp add: map_kept_def)
  note balInl = balloc_Inl [OF assms(1) bl]
  consider "140 \<le> l" | "l < 12" | "12 \<le> l" "l < 140" "i_addrs (xv6fs_i s ino) ! 12 \<noteq> 0"
    | "12 \<le> l" "l < 140" "i_addrs (xv6fs_i s ino) ! 12 = 0" by linarith
  then show ?thesis
  proof cases
    case 1
    then show ?thesis using assms(5) refl by (simp add: xv6fs_get_block_def)
  next
    case 2
    then obtain s1 where "xv6fs_balloc K s = (Inl e, s1)" "s' = s1"
      using assms(5)
      by (auto simp: xv6fs_get_block_def Let_def split: if_splits prod.splits sum.splits)
    with balInl refl 2 show ?thesis by auto
  next
    case 3
    let ?b = "unat (i_addrs (xv6fs_i s ino) ! 12)"
    have "(e = EIO \<and> s' = s) \<or>
        get_block_indirect K ino l True ?b (s\<lparr>holds := holds s + 1\<rparr>) = (Inl e, s')"
      using 3 assms(5) by (auto simp: xv6fs_get_block_def Let_def sb_bread_def split: if_splits)
    then show ?thesis
      using get_block_indirect_Inl [OF assms(1), of "s\<lparr>holds := holds s + 1\<rparr>" ino l ?b e s'] refl 3
        assms(2) by (auto simp: map_kept_def)
  next
    case 4
    obtain r s1 where al: "xv6fs_balloc K s = (r, s1)" by fastforce
    show ?thesis
    proof (cases r)
      case (Inl e')
      with 4 al assms(5) have "e' = e" "s' = s1" by (simp_all add: xv6fs_get_block_def)
      with al Inl balInl refl 4 show ?thesis by auto
    next
      case (Inr nb)
      show ?thesis using 4
        get_block_fail_new_indirect [OF assms(1-3) 4 al [unfolded Inr] assms(4,5)] by simp
    qed
  qed
qed

section \<open>Properties\<close>

text \<open>The example file system after one block of the root directory has been mapped.\<close>

definition demo_mapped :: fs where
  "demo_mapped = snd (xv6fs_get_block ref_kernel 1 0 True demo_fs)"

lemma demo_imap_ok: "imap_ok demo_fs 1"
proof -
  have "addr_list demo_fs 1 = replicate 141 0"
    by (simp add: addr_list_def ind_entries_def flip: replicate_add)
  then have "inode_blocks demo_fs 1 = []" by (simp only: inode_blocks_def nz_blocks_replicate_0)
  then show ?thesis by (simp add: imap_ok_def domIff)
qed

lemma demo_get_block: "xv6fs_get_block ref_kernel 1 0 True demo_fs = (Inr (Mapped 6 True), demo_mapped)"
  by (simp add: demo_mapped_def xv6fs_get_block_def demo_balloc Let_def)

lemma demo_mapped_pre:
  "trunc_pre ref_kernel demo_mapped 1" "file_map demo_mapped 1 = (file_map demo_fs 1)(0 \<mapsto> 6)"
  "i_addrs (xv6fs_i demo_mapped 1) ! 12 = 0" "raw_sb demo_mapped = demo_sb"
proof -
  have "create_post demo_fs 1 0 (Mapped 6 True) demo_mapped"
    by (rule get_block_create [OF ref_kernel_bitops demo_bmap_inv demo_imap_ok demo_get_block])
  then have m: "maps_block demo_fs 1 0 6 demo_mapped" by (auto simp: create_post_def)
  show rs: "raw_sb demo_mapped = demo_sb" using m by (simp add: maps_block_def)
  show "trunc_pre ref_kernel demo_mapped 1"
    using m ref_kernel_bitops by (simp add: trunc_pre_def maps_block_def bitmap_readable_def)
  show "file_map demo_mapped 1 = (file_map demo_fs 1)(0 \<mapsto> 6)" using m by (simp add: maps_block_def)
  show "i_addrs (xv6fs_i demo_mapped 1) ! 12 = 0"
    by (simp add: demo_mapped_def xv6fs_get_block_def demo_balloc Let_def)
qed

text \<open>
  C27: A read-only \<open>xv6fs_get_block\<close> is a lookup in the file's block map: past
  the last mappable block it returns \<open>-EFBIG\<close>, an unreadable indirect block
  gives \<open>-EIO\<close>, a hole leaves the buffer unmapped, and the state is unchanged
  on every path.
\<close>

theorem get_block_lookup_map:
  "xv6fs_get_block K ino l False s =
     (if 140 \<le> l then Inl EFBIG
      else if 12 \<le> l \<and> i_addrs (xv6fs_i s ino) ! 12 \<noteq> 0 \<and>
              \<not> sb_bread_ok K (unat (i_addrs (xv6fs_i s ino) ! 12)) then Inl EIO
      else Inr (case file_map s ino l of None \<Rightarrow> Unmapped | Some b \<Rightarrow> Mapped b False), s)"
  using get_block_lookup [of K ino l s] by (simp add: opt_result_def)

text \<open>
  C20: An allocating \<open>xv6fs_get_block\<close>.  On success the block map gains exactly
  the entry it returns; the block is new, and then was a free data block,
  exactly when there was no entry; the inode owns distinct used data blocks
  again, no used block becomes free, no other inode changes and no data block
  other than the indirect block is written.  On failure the map is the same
  and the invariants hold, provided \<open>sb_getblk\<close> did not fail.
\<close>

theorem get_block_create_correct:
  assumes "kernel_bitops K" "bmap_inv s" "imap_ok s ino" "\<forall>b. sb_getblk_ok K b"
  shows "case xv6fs_get_block K ino l True s of
      (Inr r, s') \<Rightarrow>
        (\<exists>b new. r = Mapped b new \<and> l < XV6FS_MAXFILE \<and> file_map s' ino = (file_map s ino)(l \<mapsto> b) \<and>
          (new \<longleftrightarrow> file_map s ino l = None) \<and>
          (new \<longrightarrow> b \<in> data_blocks s \<and> \<not> block_used s b) \<and> (\<not> new \<longrightarrow> s' = s)) \<and>
        imap_ok s' ino \<and> bmap_inv s' \<and> (\<forall>j. j \<noteq> ino \<longrightarrow> icache s' j = icache s j) \<and>
        (\<forall>n < unat (sb_size (raw_sb s)). block_used s n \<longrightarrow> block_used s' n) \<and>
        (\<forall>b \<in> data_blocks s. b \<noteq> unat (addr_list s' ino ! 12) \<longrightarrow> disk s' b = disk s b)
    | (Inl e, s') \<Rightarrow>
        file_map s' ino = file_map s ino \<and> imap_ok s' ino \<and> bmap_inv s' \<and>
        (if XV6FS_MAXFILE \<le> l then e = EFBIG \<and> s' = s else e = ENOSPC \<or> e = EIO)"
proof -
  obtain r s' where call: "xv6fs_get_block K ino l True s = (r, s')" by fastforce
  show ?thesis
  proof (cases r)
    case (Inl e)
    then show ?thesis using get_block_create_Inl [OF assms call [unfolded Inl]]
      by (simp add: call map_kept_def)
  next
    case (Inr b)
    then show ?thesis using get_block_create [OF assms(1-3) call [unfolded Inr]] assms(2)
      by (auto simp: call create_post_def maps_block_def free_blocks_eq_data data_outside)
  qed
qed

theorem get_block_create_correct_witness:
  "xv6fs_get_block ref_kernel 1 0 True demo_fs = (Inr (Mapped 6 True), demo_mapped) \<and>
   file_map demo_mapped 1 = (file_map demo_fs 1)(0 \<mapsto> 6) \<and>
   imap_ok demo_mapped 1 \<and> bmap_inv demo_mapped"
  using get_block_create_correct [OF ref_kernel_bitops demo_bmap_inv demo_imap_ok, of 0]
    demo_get_block by (simp add: demo_get_block)

text \<open>
  Whatever its arguments and result, \<open>xv6fs_get_block\<close> releases every
  buffer it takes, leaves the inode tables and the other cached inodes alone,
  and changes nothing of its own inode but the address slots.
\<close>

lemma get_block_balanced:
  "holds (snd (xv6fs_get_block K ino l c s)) = holds s \<and>
   dinodes (snd (xv6fs_get_block K ino l c s)) = dinodes s \<and>
   free_inodes_list (snd (xv6fs_get_block K ino l c s)) = free_inodes_list s \<and>
   icache (snd (xv6fs_get_block K ino l c s)) |` (- {ino}) = icache s |` (- {ino}) \<and>
   xv6fs_i (snd (xv6fs_get_block K ino l c s)) ino =
     (xv6fs_i s ino)\<lparr>i_addrs := i_addrs (xv6fs_i (snd (xv6fs_get_block K ino l c s)) ino)\<rparr>"
proof -
  let ?t = "snd (xv6fs_get_block K ino l c s)"
  have f: "same_tables ino s ?t" "same_attrs ino s ?t" using get_block_frame [of ino s K l c] by simp_all
  then have "icache ?t |` (- {ino}) = icache s |` (- {ino})"
    by (auto simp: fun_eq_iff restrict_map_def same_tables_def)
  with f show ?thesis unfolding same_tables_def same_attrs_def by blast
qed

text \<open>
  C14: \<open>xv6fs_truncate_blocks\<close> cuts the block map at the new length and frees
  what it cuts: the map keeps its entries below \<open>n\<close> and loses the others, a
  block is used afterwards exactly when it was used and the inode has not
  given it up, the invariants hold, no buffer is kept, and a truncation to
  nothing leaves the inode without any block, the indirect one included.
\<close>

theorem truncate_blocks_correct:
  fixes n :: nat
  assumes "kernel_bitops K" "bmap_inv s" "imap_ok s ino" "bitmap_readable K s"
    and "i_addrs (xv6fs_i s ino) ! 12 \<noteq> 0 \<longrightarrow> sb_bread_ok K (unat (i_addrs (xv6fs_i s ino) ! 12))"
    and "s' = xv6fs_truncate_blocks K ino n s"
  shows "file_map s' ino = (\<lambda>l. if l < n then file_map s ino l else None) \<and>
    (\<forall>b < unat (sb_size (raw_sb s)). block_used s' b \<longleftrightarrow>
       block_used s b \<and> (b \<in> set (inode_blocks s ino) \<longrightarrow> b \<in> set (inode_blocks s' ino))) \<and>
    set (inode_blocks s' ino) \<subseteq> set (inode_blocks s ino) \<and>
    (n = 0 \<longrightarrow> inode_blocks s' ino = []) \<and>
    imap_ok s' ino \<and> bmap_inv s' \<and> holds s' = holds s"
proof -
  have pre: "trunc_pre K s ino" using assms(1-4) by (simp add: trunc_pre_def)
  note r = truncate_blocks_rel [OF pre assms(5), of n, folded assms(6)]
  have "length (i_addrs (xv6fs_i s ino)) = 13" "length (i_addrs (xv6fs_i s' ino)) = 13"
    using r assms(3) by (simp_all add: imap_ok_def trunc_rel_def)
  then have "file_map s' ino = (\<lambda>l. if l < n then file_map s ino l else None)"
    using r cut_addrs_file_map by blast
  moreover have "n = 0 \<longrightarrow> inode_blocks s' ino = []"
    using truncate_blocks_all [OF pre assms(5)] assms(6) by simp
  moreover have "holds s' = holds s"
    using truncate_blocks_tables [of ino s K n] assms(6) by (simp add: same_tables_def)
  ultimately show ?thesis using r by (simp add: trunc_rel_def)
qed

theorem truncate_blocks_correct_witness:
  "file_map demo_mapped 1 0 = Some 6 \<and>
   file_map (xv6fs_truncate_blocks ref_kernel 1 0 demo_mapped) 1 = (\<lambda>l. None) \<and>
   inode_blocks (xv6fs_truncate_blocks ref_kernel 1 0 demo_mapped) 1 = [] \<and>
   bmap_inv (xv6fs_truncate_blocks ref_kernel 1 0 demo_mapped)"
proof -
  have p: "kernel_bitops ref_kernel" "bmap_inv demo_mapped" "imap_ok demo_mapped 1"
    "bitmap_readable ref_kernel demo_mapped"
    using demo_mapped_pre(1) by (simp_all add: trunc_pre_def)
  show ?thesis
    using truncate_blocks_correct [OF p, of "xv6fs_truncate_blocks ref_kernel 1 0 demo_mapped" 0]
      demo_mapped_pre(2) by simp
qed

end
