(* ===== verification/Xv6fs_Itable.thy ===== *)
theory Xv6fs_Itable
  imports Xv6fs_Mapping
begin

text \<open>
  The inode table: \<open>xv6fs_load_dinodes\<close>, \<open>xv6fs_release_dinodes\<close>,
  \<open>xv6fs_iget\<close> and \<open>xv6fs_new_inode\<close> of \<^verbatim>\<open>src/inode.c\<close>, \<open>xv6fs_write_inode\<close> and
  \<open>xv6fs_evict_inode\<close> of \<^verbatim>\<open>src/super.c\<close>.

  The driver keeps a copy of every on-disk inode in \<open>sbi->dinodes\<close> and threads
  the free ones through \<open>sbi->free_inodes_list\<close>.  The list nodes share memory
  with the size and address fields of a free slot, never with its type; the
  model keeps the list as the list of inode numbers, and a slot that is on it
  has type 0, which is all the driver reads of it.

  The lemmas give the result of the mount-time scan, the branches of
  \<open>xv6fs_iget\<close>, and the invariant \<open>itable_ok\<close> tying the free list, its counter
  and the inode cache together, which every operation keeps.
\<close>

section \<open>File modes\<close>

abbreviation (input) S_IFMT :: u16 where "S_IFMT \<equiv> 0xF000"
abbreviation (input) S_IFDIR :: u16 where "S_IFDIR \<equiv> 0x4000"
abbreviation (input) S_IFREG :: u16 where "S_IFREG \<equiv> 0x8000"
abbreviation (input) S_IFCHR :: u16 where "S_IFCHR \<equiv> 0x2000"

definition S_ISDIR :: "u16 \<Rightarrow> bool" where
  "S_ISDIR m \<longleftrightarrow> m AND S_IFMT = S_IFDIR"

text \<open>\<open>MKDEV\<close> on \<open>__s16\<close> arguments, which C sign-extends to \<open>int\<close>.\<close>

definition MKDEV :: "u16 \<Rightarrow> u16 \<Rightarrow> u32" where
  "MKDEV ma mi = push_bit 20 (scast ma) OR scast mi"

section \<open>Reading the inode table at mount\<close>

definition load_slot :: "nat \<Rightarrow> nat \<Rightarrow> fs \<Rightarrow> fs" where
  "load_slot b i s =
     (let raw = dinode_at (disk s b) (XV6FS_IOFFSET i)
      in if d_type raw = 0
         then s\<lparr>free_inodes_list := free_inodes_list s @ [i], free_inodes := free_inodes s + 1\<rparr>
         else s\<lparr>dinodes := (dinodes s)[i := raw]\<rparr>)"

text \<open>\<open>bh\<close> is the buffer of the current inode block, \<open>None\<close> before the first.\<close>

function load_dinodes_loop ::
    "kernel \<Rightarrow> nat \<Rightarrow> nat option \<Rightarrow> nat \<Rightarrow> fs \<Rightarrow> (errno + unit) \<times> nat option \<times> fs" where
  "load_dinodes_loop K n bh i s =
     (if i < n then
        if i mod XV6FS_IPB = 0 then
          let s0 = (if bh \<noteq> None then brelse s else s);
              b = XV6FS_IBLOCK i (raw_sb s)
          in case sb_bread K s0 b of
               None \<Rightarrow> (Inl EIO, None, s0)
             | Some s1 \<Rightarrow> load_dinodes_loop K n (Some b) (Suc i) (load_slot b i s1)
        else load_dinodes_loop K n bh (Suc i) (load_slot (the bh) i s)
      else (Inr (), bh, s))"
  by pat_completeness auto
termination
  by (relation "measure (\<lambda>(K, n, bh, i, s). n - i)") auto

declare load_dinodes_loop.simps [simp del]

definition xv6fs_load_dinodes :: "kernel \<Rightarrow> fs \<Rightarrow> (errno + unit) \<times> fs" where
  "xv6fs_load_dinodes K s =
     (let n = unat (sb_ninodes (raw_sb s))
      in if \<not> kvmalloc_ok K n then (Inl ENOMEM, s)
         else
           case load_dinodes_loop K n None 0
                  (s\<lparr>dinodes := replicate n zero_dinode, free_inodes_list := [], free_inodes := 0\<rparr>) of
             (Inr _, bh, s1) \<Rightarrow> (Inr (), if bh \<noteq> None then brelse s1 else s1)
           | (Inl e, bh, s1) \<Rightarrow>
               (Inl e, (if bh \<noteq> None then brelse s1 else s1)
                  \<lparr>dinodes := [], free_inodes_list := [], free_inodes := 0\<rparr>))"

definition xv6fs_release_dinodes :: "fs \<Rightarrow> fs" where
  "xv6fs_release_dinodes s = s\<lparr>dinodes := [], free_inodes := 0, free_inodes_list := []\<rparr>"

section \<open>Writing back and evicting an inode\<close>

definition xv6fs_write_inode :: "kernel \<Rightarrow> nat \<Rightarrow> bool \<Rightarrow> fs \<Rightarrow> (errno + unit) \<times> fs" where
  "xv6fs_write_inode K ino sync_all s =
     (let s1 = s\<lparr>dinodes := (dinodes s)[ino := xv6fs_dinode_to_disk (xv6fs_i s ino)]\<rparr>;
          block = XV6FS_IBLOCK ino (raw_sb s1)
      in case sb_bread K s1 block of
           None \<Rightarrow> (Inl EIO, s1)
         | Some s2 \<Rightarrow>
             let s3 = mark_buffer_dirty block
                        (b_store block (put_dinode (XV6FS_IOFFSET ino) (dinodes s2 ! ino) (disk s2 block)) s2)
             in if sync_all
                then (case sync_dirty_buffer K block of
                        Some e \<Rightarrow> (Inl e, brelse s3)
                      | None \<Rightarrow> (Inr (), brelse s3))
                else (Inr (), brelse s3))"

text \<open>
  The intrusive list of free slots is the list of their numbers.  \<open>list_add_tail\<close>
  of a node that is in no list appends it, which is what every caller does while
  the table invariant \<open>itable_ok\<close> (a free slot is listed once and is not cached)
  holds; for a node that is in the list already the pointers of the C list are
  cut instead, and this definition says nothing of the program.
\<close>

definition list_add_tail_free :: "nat \<Rightarrow> fs \<Rightarrow> fs" where
  "list_add_tail_free ino s =
     s\<lparr>free_inodes_list := free_inodes_list s @ [ino], free_inodes := free_inodes s + 1\<rparr>"

definition zero_slot_on_disk :: "kernel \<Rightarrow> nat \<Rightarrow> fs \<Rightarrow> fs" where
  "zero_slot_on_disk K ino s =
     (let block = XV6FS_IBLOCK ino (raw_sb s)
      in case sb_bread K s block of
           None \<Rightarrow> s
         | Some s1 \<Rightarrow>
             brelse (mark_buffer_dirty block
               (b_store block (put_dinode (XV6FS_IOFFSET ino) zero_dinode (disk s1 block)) s1)))"

definition xv6fs_evict_inode :: "kernel \<Rightarrow> nat \<Rightarrow> fs \<Rightarrow> fs" where
  "xv6fs_evict_inode K ino s =
     (if i_nlink (xv6fs_i s ino) = 0 \<and> 0 < ino then
        let s1 = set_inode ino ((xv6fs_i s ino)\<lparr>i_size := 0\<rparr>) s;
            s2 = xv6fs_truncate_blocks K ino 0 s1;
            s3 = zero_slot_on_disk K ino s2
        in list_add_tail_free ino (s3\<lparr>dinodes := (dinodes s3)[ino := zero_dinode]\<rparr>)
      else s)"

text \<open>
  \<open>iput\<close> on the last reference: the VFS calls \<open>xv6fs_evict_inode\<close> and drops
  the inode from its cache.  \<open>iget_failed\<close> marks an inode under construction
  bad and releases it the same way.
\<close>

definition iput_last :: "kernel \<Rightarrow> nat \<Rightarrow> fs \<Rightarrow> fs" where
  "iput_last K ino s =
     (let s1 = xv6fs_evict_inode K ino s
      in s1\<lparr>icache := (icache s1)(ino := None), idirty := idirty s1 - {ino}\<rparr>)"

definition iget_failed :: "kernel \<Rightarrow> nat \<Rightarrow> fs \<Rightarrow> fs" where
  "iget_failed K ino s = iput_last K ino s"

section \<open>Getting an inode\<close>

definition xv6fs_read_inode :: "fs \<Rightarrow> nat \<Rightarrow> xv6fs_inode_info \<Rightarrow> xv6fs_inode_info" where
  "xv6fs_read_inode s ino ei = xv6fs_dinode_to_cpu (dinodes s ! ino) ei"

text \<open>The switch on the inode type; \<open>None\<close> is its \<open>default\<close> branch.\<close>

definition iget_ops :: "xv6fs_inode_info \<Rightarrow> xv6fs_inode_info option" where
  "iget_ops ei =
     (if i_type ei = XV6FS_T_DIR then
        Some (ei\<lparr>i_mode := S_IFDIR OR 0x1ED, i_op := Ops_dir, i_fop := Ops_dir\<rparr>)
      else if i_type ei = XV6FS_T_FILE then
        Some (ei\<lparr>i_mode := S_IFREG OR 0x1A4, i_op := Ops_file, i_fop := Ops_file, i_aops := Ops_file\<rparr>)
      else if i_type ei = XV6FS_T_DEV then
        Some (ei\<lparr>i_mode := S_IFCHR OR 0x180, i_fop := Ops_special,
                 i_rdev := MKDEV (i_major ei) (i_minor ei)\<rparr>)
      else None)"

definition iget_attrs :: "xv6fs_inode_info \<Rightarrow> xv6fs_inode_info" where
  "iget_attrs ei =
     ei\<lparr>i_blocks := (i_size ei + 511) div 512, i_uid := 1000, i_gid := 1000,
        i_atime := 0, i_mtime := 0, i_ctime := 0\<rparr>"

definition xv6fs_iget :: "kernel \<Rightarrow> nat \<Rightarrow> fs \<Rightarrow> (errno + nat) \<times> fs" where
  "xv6fs_iget K ino s =
     (if ino = 0 then (Inl EINVAL, s)
      else if unat (sb_ninodes (raw_sb s)) \<le> ino then (Inl EINVAL, s)
      else case icache s ino of
             Some _ \<Rightarrow> (Inr ino, s)
           | None \<Rightarrow>
               if \<not> inode_alloc_ok K ino then (Inl ENOMEM, s)
               else
                 let ei = iget_attrs (xv6fs_read_inode s ino (fresh_inode K))
                 in case iget_ops ei of
                      Some ei' \<Rightarrow> (Inr ino, set_inode ino ei' s)
                    | None \<Rightarrow> (Inl EINVAL, iget_failed K ino (set_inode ino ei s)))"

section \<open>Allocating an inode\<close>

definition new_inode_fields :: "u16 \<Rightarrow> xv6fs_inode_info \<Rightarrow> xv6fs_inode_info" where
  "new_inode_fields mode ei =
     (let ei1 = ei\<lparr>i_blocks := 0, i_size := 0, i_uid := 1000, i_gid := 1000,
                   i_atime := 0, i_mtime := 0, i_ctime := 0,
                   i_addrs := replicate (XV6FS_NDIRECT + 1) 0, i_major := 0, i_minor := 0\<rparr>
      in if S_ISDIR mode
         then ei1\<lparr>i_type := XV6FS_T_DIR, i_mode := S_IFDIR OR 0x1ED, i_op := Ops_dir,
                  i_fop := Ops_dir, i_nlink := 2\<rparr>
         else ei1\<lparr>i_type := XV6FS_T_FILE, i_mode := S_IFREG OR 0x1A4, i_op := Ops_file,
                  i_fop := Ops_file, i_aops := Ops_file, i_nlink := 1\<rparr>)"

definition xv6fs_new_inode :: "kernel \<Rightarrow> u16 \<Rightarrow> fs \<Rightarrow> (errno + nat) \<times> fs" where
  "xv6fs_new_inode K mode s =
     (case free_inodes_list s of
        [] \<Rightarrow> (Inl ENOSPC, s)
      | ino # rest \<Rightarrow>
          let s1 = s\<lparr>free_inodes_list := rest, free_inodes := free_inodes s - 1\<rparr>
          in if \<not> inode_alloc_ok K ino
             then (Inl ENOMEM,
                   s1\<lparr>free_inodes_list := ino # free_inodes_list s1, free_inodes := free_inodes s1 + 1\<rparr>)
             else (Inr ino,
                   mark_inode_dirty ino (set_inode ino (new_inode_fields mode (fresh_inode K)) s1)))"

section \<open>The mount-time scan\<close>

definition disk_dinode :: "fs \<Rightarrow> nat \<Rightarrow> xv6fs_dinode" where
  "disk_dinode s i = dinode_at (disk s (XV6FS_IBLOCK i (raw_sb s))) (XV6FS_IOFFSET i)"

definition inode_block_ok :: "kernel \<Rightarrow> fs \<Rightarrow> nat \<Rightarrow> bool" where
  "inode_block_ok K s i = sb_bread_ok K (XV6FS_IBLOCK i (raw_sb s))"

definition free_slots :: "fs \<Rightarrow> nat \<Rightarrow> nat \<Rightarrow> nat list" where
  "free_slots s i n = filter (\<lambda>j. d_type (disk_dinode s j) = 0) [i..<n]"

text \<open>The tables after slots \<open>i\<close> to \<open>n - 1\<close> have been loaded.\<close>

definition loaded :: "nat \<Rightarrow> nat \<Rightarrow> fs \<Rightarrow> fs" where
  "loaded i n s =
     s\<lparr>dinodes := map (\<lambda>j. if i \<le> j \<and> j < n \<and> d_type (disk_dinode s j) \<noteq> 0
                          then disk_dinode s j else dinodes s ! j) [0..<length (dinodes s)],
       free_inodes_list := free_inodes_list s @ free_slots s i n,
       free_inodes := free_inodes s + of_nat (length (free_slots s i n))\<rparr>"

abbreviation held :: "nat option \<Rightarrow> int" where
  "held bh \<equiv> (if bh = None then 0 else 1)"

lemma disk_dinode_cong:
  "disk s' = disk s \<Longrightarrow> raw_sb s' = raw_sb s \<Longrightarrow> disk_dinode s' = disk_dinode s"
  by (simp add: disk_dinode_def fun_eq_iff)

lemma load_slot_sel [simp]:
  "disk (load_slot b i s) = disk s" "raw_sb (load_slot b i s) = raw_sb s"
  "holds (load_slot b i s) = holds s" "length (dinodes (load_slot b i s)) = length (dinodes s)"
  by (simp_all add: load_slot_def Let_def)

lemma dinodes_load_slot:
  "b = XV6FS_IBLOCK i (raw_sb s) \<Longrightarrow>
   dinodes (load_slot b i s) =
     (if d_type (disk_dinode s i) = 0 then dinodes s else (dinodes s)[i := disk_dinode s i])"
  by (simp add: load_slot_def Let_def disk_dinode_def)

lemma loaded_empty [simp]: "n \<le> i \<Longrightarrow> loaded i n s = s"
proof -
  assume "n \<le> i"
  then have "map (\<lambda>j. if i \<le> j \<and> j < n \<and> d_type (disk_dinode s j) \<noteq> 0
      then disk_dinode s j else dinodes s ! j) [0..<length (dinodes s)] = dinodes s"
    by (intro nth_equalityI) auto
  with \<open>n \<le> i\<close> show ?thesis by (simp add: loaded_def free_slots_def)
qed

lemma loaded_step:
  assumes "i < n" "b = XV6FS_IBLOCK i (raw_sb s)"
  shows "loaded (Suc i) n (load_slot b i s) = loaded i n s"
proof -
  let ?s' = "load_slot b i s"
  have dd: "disk_dinode ?s' = disk_dinode s" by (rule disk_dinode_cong) simp_all
  have sl: "free_slots s i n =
      (if d_type (disk_dinode s i) = 0 then [i] else []) @ free_slots s (Suc i) n"
    using assms(1) by (simp add: free_slots_def upt_conv_Cons)
  have sl': "free_slots ?s' (Suc i) n = free_slots s (Suc i) n" by (simp add: free_slots_def dd)
  have "map (\<lambda>j. if Suc i \<le> j \<and> j < n \<and> d_type (disk_dinode s j) \<noteq> 0
              then disk_dinode s j else dinodes ?s' ! j) [0..<length (dinodes ?s')] =
        map (\<lambda>j. if i \<le> j \<and> j < n \<and> d_type (disk_dinode s j) \<noteq> 0
              then disk_dinode s j else dinodes s ! j) [0..<length (dinodes s)]"
    (is "?l = ?r")
  proof (rule nth_equalityI)
    fix j assume "j < length ?l"
    then have "j < length (dinodes s)" by simp
    then show "?l ! j = ?r ! j" using assms
      by (cases "j = i") (auto simp: dinodes_load_slot)
  qed simp
  then show ?thesis
    unfolding loaded_def dd sl' sl using assms
    by (simp add: load_slot_def Let_def disk_dinode_def [of s i, symmetric])
qed

lemma loaded_holds: "loaded i n (s\<lparr>holds := h\<rparr>) = (loaded i n s)\<lparr>holds := h\<rparr>"
proof -
  have "disk_dinode (s\<lparr>holds := h\<rparr>) = disk_dinode s" by (rule disk_dinode_cong) simp_all
  then show ?thesis by (simp add: loaded_def free_slots_def)
qed

lemma IBLOCK_Suc: "Suc i mod 8 \<noteq> 0 \<Longrightarrow> XV6FS_IBLOCK (Suc i) sb = XV6FS_IBLOCK i sb"
  unfolding XV6FS_IBLOCK_def by (subst div_Suc) simp

lemma load_dinodes_loop_ok:
  assumes "\<forall>j. i \<le> j \<and> j < n \<longrightarrow> inode_block_ok K s j"
    and "i mod 8 \<noteq> 0 \<Longrightarrow> bh = Some (XV6FS_IBLOCK i (raw_sb s))"
  shows "\<exists>bh'. load_dinodes_loop K n bh i s =
    (Inr (), bh', (loaded i n s)\<lparr>holds := holds s - held bh + held bh'\<rparr>)"
  using assms
proof (induction "n - i" arbitrary: i s bh)
  case 0
  then show ?case by (simp add: load_dinodes_loop.simps [of K n bh i s])
next
  case (Suc m)
  then have i: "i < n" by simp
  let ?b = "XV6FS_IBLOCK i (raw_sb s)"
  define s0 where "s0 = (if i mod 8 = 0 then s\<lparr>holds := holds s - held bh + 1\<rparr> else s)"
  have ok: "sb_bread_ok K ?b" using Suc.prems(1) i by (simp add: inode_block_ok_def)
  have bhb: "i mod 8 \<noteq> 0 \<Longrightarrow> bh = Some ?b" using Suc.prems(2) .
  have unf: "load_dinodes_loop K n bh i s = load_dinodes_loop K n (Some ?b) (Suc i) (load_slot ?b i s0)"
    using i ok bhb
    by (auto simp: load_dinodes_loop.simps [of K n bh i s] Let_def s0_def buffer_defs)
  have "\<exists>bh'. load_dinodes_loop K n (Some ?b) (Suc i) (load_slot ?b i s0) =
      (Inr (), bh', (loaded (Suc i) n (load_slot ?b i s0))
         \<lparr>holds := holds (load_slot ?b i s0) - held (Some ?b) + held bh'\<rparr>)"
    using Suc.hyps(2) Suc.prems i
    by (intro Suc.hyps(1)) (auto simp: inode_block_ok_def s0_def IBLOCK_Suc)
  moreover have "loaded (Suc i) n (load_slot ?b i s0) = loaded i n s0"
    using i by (intro loaded_step) (auto simp: s0_def)
  moreover have "holds s0 - 1 = holds s - held bh" using bhb by (auto simp: s0_def)
  moreover have "(loaded i n s0)\<lparr>holds := h\<rparr> = (loaded i n s)\<lparr>holds := h\<rparr>" for h
    by (auto simp: s0_def loaded_holds)
  ultimately show ?case unfolding unf by simp
qed

text \<open>The tables dropped, as on the error path.\<close>

abbreviation no_tables :: "fs \<Rightarrow> fs" where
  "no_tables s \<equiv> s\<lparr>dinodes := [], free_inodes_list := [], free_inodes := 0\<rparr>"

lemma no_tables_load_slot [simp]: "no_tables (load_slot b i s) = no_tables s"
  by (simp add: load_slot_def Let_def)

lemma no_tables_holds: "no_tables s = no_tables t \<Longrightarrow> no_tables (s\<lparr>holds := h\<rparr>) = no_tables (t\<lparr>holds := h\<rparr>)"
  by (cases s, cases t) simp

lemma load_dinodes_loop_EIO:
  assumes "\<exists>j. i \<le> j \<and> j < n \<and> \<not> inode_block_ok K s j"
    and "i mod 8 \<noteq> 0 \<Longrightarrow> bh = Some (XV6FS_IBLOCK i (raw_sb s)) \<and> inode_block_ok K s i"
  shows "\<exists>t. load_dinodes_loop K n bh i s = (Inl EIO, None, t) \<and>
    no_tables t = no_tables (s\<lparr>holds := holds s - held bh\<rparr>)"
  using assms
proof (induction "n - i" arbitrary: i s bh)
  case 0
  then show ?case by auto
next
  case (Suc m)
  then have i: "i < n" by simp
  let ?b = "XV6FS_IBLOCK i (raw_sb s)"
  show ?case
  proof (cases "inode_block_ok K s i")
    case False
    with Suc.prems(2) have "i mod 8 = 0" by blast
    with False i show ?thesis
      by (auto simp: load_dinodes_loop.simps [of K n bh i s] Let_def buffer_defs inode_block_ok_def)
  next
    case True
    define s0 where "s0 = (if i mod 8 = 0 then s\<lparr>holds := holds s - held bh + 1\<rparr> else s)"
    have unf: "load_dinodes_loop K n bh i s = load_dinodes_loop K n (Some ?b) (Suc i) (load_slot ?b i s0)"
      using i True Suc.prems(2)
      by (auto simp: load_dinodes_loop.simps [of K n bh i s] Let_def s0_def buffer_defs inode_block_ok_def)
    obtain j where j: "i \<le> j" "j < n" "\<not> inode_block_ok K s j" using Suc.prems(1) by blast
    then have "Suc i \<le> j" using True by (metis Suc_leI le_neq_implies_less)
    then have "\<exists>t. load_dinodes_loop K n (Some ?b) (Suc i) (load_slot ?b i s0) = (Inl EIO, None, t) \<and>
        no_tables t = no_tables ((load_slot ?b i s0)\<lparr>holds := holds (load_slot ?b i s0) - held (Some ?b)\<rparr>)"
      using Suc.hyps(2) j True
      by (intro Suc.hyps(1)) (auto simp: inode_block_ok_def s0_def IBLOCK_Suc)
    moreover have "no_tables ((load_slot ?b i s0)\<lparr>holds := h\<rparr>) = no_tables (s0\<lparr>holds := h\<rparr>)" for h
      by (rule no_tables_holds) simp
    moreover have "s0\<lparr>holds := holds s0 - 1\<rparr> = s\<lparr>holds := holds s - held bh\<rparr>"
      using Suc.prems(2) by (auto simp: s0_def)
    ultimately show ?thesis unfolding unf by simp
  qed
qed

text \<open>The whole scan, on every path.\<close>

lemma load_dinodes_eq:
  fixes s :: fs and n :: nat
  defines "n \<equiv> unat (sb_ninodes (raw_sb s))"
  shows "xv6fs_load_dinodes K s =
    (if \<not> kvmalloc_ok K n then (Inl ENOMEM, s)
     else if \<forall>i < n. inode_block_ok K s i then
       (Inr (), s\<lparr>dinodes := map (\<lambda>i. if d_type (disk_dinode s i) = 0 then zero_dinode
                                       else disk_dinode s i) [0..<n],
                  free_inodes_list := free_slots s 0 n,
                  free_inodes := of_nat (length (free_slots s 0 n))\<rparr>)
     else (Inl EIO, no_tables s))"
proof -
  let ?s = "s\<lparr>dinodes := replicate n zero_dinode, free_inodes_list := [], free_inodes := 0\<rparr>"
  have dd: "disk_dinode ?s = disk_dinode s" by (rule disk_dinode_cong) simp_all
  have bok: "inode_block_ok K ?s = inode_block_ok K s" by (simp add: inode_block_ok_def fun_eq_iff)
  have ld: "loaded 0 n ?s = s\<lparr>dinodes := map (\<lambda>i. if d_type (disk_dinode s i) = 0 then zero_dinode
        else disk_dinode s i) [0..<n], free_inodes_list := free_slots s 0 n,
        free_inodes := of_nat (length (free_slots s 0 n))\<rparr>"
    by (simp add: loaded_def dd free_slots_def cong: map_cong)
  consider "\<not> kvmalloc_ok K n" | "kvmalloc_ok K n" "\<forall>i < n. inode_block_ok K s i"
    | "kvmalloc_ok K n" "\<exists>i < n. \<not> inode_block_ok K s i" by blast
  then show ?thesis
  proof cases
    case 1
    then show ?thesis by (simp add: xv6fs_load_dinodes_def flip: n_def)
  next
    case 2
    obtain bh' where r: "load_dinodes_loop K n None 0 ?s =
        (Inr (), bh', (loaded 0 n ?s)\<lparr>holds := holds s + held bh'\<rparr>)"
      using load_dinodes_loop_ok [of 0 n K ?s None] 2 bok by auto
    show ?thesis using 2 unfolding xv6fs_load_dinodes_def Let_def n_def [symmetric] r
      by (auto simp: ld brelse_def)
  next
    case 3
    obtain t where r: "load_dinodes_loop K n None 0 ?s = (Inl EIO, None, t)"
      and t: "no_tables t = no_tables (?s\<lparr>holds := holds ?s - 0\<rparr>)"
      using load_dinodes_loop_EIO [of 0 n K ?s None] 3 bok by auto
    show ?thesis using 3 t unfolding xv6fs_load_dinodes_def Let_def n_def [symmetric] r by auto
  qed
qed

section \<open>The invariant of the inode table\<close>

text \<open>
  The free list has no repetitions, holds slots of type 0 whose inode is not
  cached, and \<open>free_inodes\<close> is its length; cached inodes are in range.
\<close>

definition itable_ok :: "fs \<Rightarrow> bool" where
  "itable_ok s \<longleftrightarrow>
     length (dinodes s) = unat (sb_ninodes (raw_sb s)) \<and>
     distinct (free_inodes_list s) \<and> free_inodes s = of_nat (length (free_inodes_list s)) \<and>
     (\<forall>i \<in> set (free_inodes_list s). i < length (dinodes s) \<and> d_type (dinodes s ! i) = 0 \<and>
        icache s i = None) \<and>
     (\<forall>i \<in> dom (icache s). i < length (dinodes s))"

lemma load_dinodes_itable:
  assumes "icache s = Map.empty" "xv6fs_load_dinodes K s = (Inr u, s')"
  shows "itable_ok s'"
proof -
  let ?n = "unat (sb_ninodes (raw_sb s))"
  have s': "s' = s\<lparr>dinodes := map (\<lambda>i. if d_type (disk_dinode s i) = 0 then zero_dinode
        else disk_dinode s i) [0..<?n], free_inodes_list := free_slots s 0 ?n,
        free_inodes := of_nat (length (free_slots s 0 ?n))\<rparr>"
    using assms(2) by (simp add: load_dinodes_eq split: if_splits)
  have "i < ?n \<and> d_type (disk_dinode s i) = 0" if "i \<in> set (free_slots s 0 ?n)" for i
    using that by (simp add: free_slots_def)
  moreover have "distinct (free_slots s 0 ?n)" by (simp add: free_slots_def)
  ultimately show ?thesis by (simp add: itable_ok_def s' assms(1))
qed

lemma itable_ok_same:
  assumes "itable_ok s" "same_tables ino s s'" "ino < length (dinodes s)"
    and "ino \<notin> set (free_inodes_list s)"
  shows "itable_ok s'"
  using assms unfolding itable_ok_def same_tables_def
  by (metis (no_types, lifting) domD domI)

section \<open>Allocation and release of inodes\<close>

lemma new_inode_Inr:
  assumes "xv6fs_new_inode K mode s = (Inr ino, s')"
  shows "free_inodes_list s = ino # free_inodes_list s'" "free_inodes s' = free_inodes s - 1"
    "xv6fs_i s' ino = new_inode_fields mode (fresh_inode K)"
    "icache s' = (icache s)(ino \<mapsto> new_inode_fields mode (fresh_inode K))"
    "idirty s' = insert ino (idirty s)" "dinodes s' = dinodes s" "disk s' = disk s"
    "raw_sb s' = raw_sb s" "holds s' = holds s" "dirty s' = dirty s"
  using assms
  by (auto simp: xv6fs_new_inode_def Let_def inode_defs split: list.splits if_splits)

lemma new_inode_Inl:
  assumes "xv6fs_new_inode K mode s = (Inl e, s')"
  shows "s' = s" "e = ENOSPC \<and> free_inodes_list s = [] \<or>
    e = ENOMEM \<and> (\<exists>i. free_inodes_list s \<noteq> [] \<and> i = hd (free_inodes_list s) \<and> \<not> inode_alloc_ok K i)"
  using assms by (auto simp: xv6fs_new_inode_def Let_def split: list.splits if_splits)

lemma new_inode_itable:
  assumes "itable_ok s" "xv6fs_new_inode K mode s = (Inr ino, s')"
  shows "itable_ok s'" "ino < unat (sb_ninodes (raw_sb s))" "ino \<notin> dom (icache s)"
    "ino \<notin> set (free_inodes_list s')"
proof -
  note r = new_inode_Inr [OF assms(2)]
  from assms(1) r(1) show "ino < unat (sb_ninodes (raw_sb s))" "ino \<notin> dom (icache s)"
    "ino \<notin> set (free_inodes_list s')" by (auto simp: itable_ok_def)
  with assms(1) r show "itable_ok s'" by (auto simp: itable_ok_def)
qed

lemma zero_slot_on_disk_frame:
  "raw_sb (zero_slot_on_disk K ino s) = raw_sb s" "dinodes (zero_slot_on_disk K ino s) = dinodes s"
  "free_inodes_list (zero_slot_on_disk K ino s) = free_inodes_list s"
  "free_inodes (zero_slot_on_disk K ino s) = free_inodes s"
  "icache (zero_slot_on_disk K ino s) = icache s" "holds (zero_slot_on_disk K ino s) = holds s"
  "b \<noteq> XV6FS_IBLOCK ino (raw_sb s) \<Longrightarrow> disk (zero_slot_on_disk K ino s) b = disk s b"
  "inode_block_ok K s ino \<Longrightarrow> disk (zero_slot_on_disk K ino s) (XV6FS_IBLOCK ino (raw_sb s)) =
     put_dinode (XV6FS_IOFFSET ino) zero_dinode (disk s (XV6FS_IBLOCK ino (raw_sb s)))"
  by (auto simp: zero_slot_on_disk_def Let_def buffer_defs inode_block_ok_def split: option.splits)

text \<open>The state of an evicted inode that has no links left, before the slot is zeroed.\<close>

abbreviation evict_trunc :: "kernel \<Rightarrow> nat \<Rightarrow> fs \<Rightarrow> fs" where
  "evict_trunc K ino s \<equiv>
     xv6fs_truncate_blocks K ino 0 (set_inode ino ((xv6fs_i s ino)\<lparr>i_size := 0\<rparr>) s)"

lemma evict_trunc_tables: "same_tables ino s (evict_trunc K ino s)"
  using same_tables_trans [OF same_tables_basic(5) truncate_blocks_tables] .

lemma evict_unlinked:
  fixes K :: kernel
  assumes "i_nlink (xv6fs_i s ino) = 0" "0 < ino"
  defines "s' \<equiv> xv6fs_evict_inode K ino s"
  shows "free_inodes_list s' = free_inodes_list s @ [ino]" "free_inodes s' = free_inodes s + 1"
    "dinodes s' = (dinodes s)[ino := zero_dinode]" "raw_sb s' = raw_sb s" "holds s' = holds s"
    "\<And>j. j \<noteq> ino \<Longrightarrow> icache s' j = icache s j"
    "disk s' = disk (zero_slot_on_disk K ino (evict_trunc K ino s))"
    "icache s' ino = icache (evict_trunc K ino s) ino"
  using evict_trunc_tables [of ino s K] assms(1,2)
  by (simp_all add: s'_def xv6fs_evict_inode_def Let_def list_add_tail_free_def
        zero_slot_on_disk_frame same_tables_def)

lemma evict_linked:
  "i_nlink (xv6fs_i s ino) \<noteq> 0 \<or> ino = 0 \<Longrightarrow> xv6fs_evict_inode K ino s = s"
  by (auto simp: xv6fs_evict_inode_def)

lemma iput_last_itable:
  assumes "itable_ok s" "ino \<in> dom (icache s)"
  shows "itable_ok (iput_last K ino s)"
proof -
  have ino: "ino < length (dinodes s)" "ino \<notin> set (free_inodes_list s)"
    using assms by (auto simp: itable_ok_def)
  show ?thesis
  proof (cases "i_nlink (xv6fs_i s ino) = 0 \<and> 0 < ino")
    case True
    then show ?thesis
      using assms(1) ino evict_unlinked [where s = s and ino = ino and K = K]
      by (auto simp: itable_ok_def iput_last_def Let_def nth_list_update)
  next
    case False
    then show ?thesis using assms(1) by (auto simp: iput_last_def evict_linked itable_ok_def)
  qed
qed

section \<open>Write-back\<close>

lemma write_inode_Inr:
  assumes "xv6fs_write_inode K ino sync s = (Inr u, s')"
  shows "inode_block_ok K s ino" "sync \<longrightarrow> sync_dirty_buffer K (XV6FS_IBLOCK ino (raw_sb s)) = None"
    "ino < length (dinodes s) \<Longrightarrow>
     s' = s\<lparr>dinodes := (dinodes s)[ino := xv6fs_dinode_to_disk (xv6fs_i s ino)],
            disk := (disk s)(XV6FS_IBLOCK ino (raw_sb s) :=
              put_dinode (XV6FS_IOFFSET ino) (xv6fs_dinode_to_disk (xv6fs_i s ino))
                (disk s (XV6FS_IBLOCK ino (raw_sb s)))),
            dirty := insert (XV6FS_IBLOCK ino (raw_sb s)) (dirty s)\<rparr>"
  using assms
  by (auto simp: xv6fs_write_inode_def Let_def buffer_defs inode_block_ok_def
        split: option.splits if_splits)

lemma write_inode_itable:
  assumes "itable_ok s" "ino \<in> dom (icache s)"
  shows "itable_ok (snd (xv6fs_write_inode K ino sync s))"
proof -
  let ?s' = "snd (xv6fs_write_inode K ino sync s)"
  have "dinodes ?s' = (dinodes s)[ino := xv6fs_dinode_to_disk (xv6fs_i s ino)]"
    "free_inodes_list ?s' = free_inodes_list s" "free_inodes ?s' = free_inodes s"
    "icache ?s' = icache s" "raw_sb ?s' = raw_sb s"
    by (simp_all add: xv6fs_write_inode_def Let_def buffer_defs split: option.splits)
  moreover have "\<forall>i \<in> set (free_inodes_list s). (dinodes s)[ino := x] ! i = dinodes s ! i" for x
    using assms by (auto simp: itable_ok_def intro!: nth_list_update_neq)
  ultimately show ?thesis using assms(1) unfolding itable_ok_def by auto
qed

lemma write_inode_holds: "holds (snd (xv6fs_write_inode K ino sync s)) = holds s"
  by (simp add: xv6fs_write_inode_def Let_def buffer_defs split: option.splits)

text \<open>What an on-disk slot holds after the write-back, and what the others keep.\<close>

lemma disk_dinode_put:
  assumes "length (disk s (XV6FS_IBLOCK ino (raw_sb s))) = 512" "wf_dinode di"
    and "disk s' (XV6FS_IBLOCK ino (raw_sb s)) =
      put_dinode (XV6FS_IOFFSET ino) di (disk s (XV6FS_IBLOCK ino (raw_sb s)))"
    and "\<And>b. b \<noteq> XV6FS_IBLOCK ino (raw_sb s) \<Longrightarrow> disk s' b = disk s b" "raw_sb s' = raw_sb s"
  shows "disk_dinode s' i = (if i = ino then di else disk_dinode s i)"
proof (cases "XV6FS_IBLOCK i (raw_sb s) = XV6FS_IBLOCK ino (raw_sb s)")
  case True
  then have "i \<noteq> ino \<Longrightarrow> XV6FS_IOFFSET ino \<noteq> XV6FS_IOFFSET i" using IBLOCK_IOFFSET_inj by metis
  then show ?thesis using assms(1-3,5) True
    by (cases "i = ino") (simp_all add: disk_dinode_def dinode_at_put_other)
next
  case False
  then show ?thesis using assms by (auto simp: disk_dinode_def)
qed

text \<open>The fields of an in-memory inode that the disk format keeps, when they fit.\<close>

definition fits_dinode :: "xv6fs_inode_info \<Rightarrow> bool" where
  "fits_dinode ei \<longleftrightarrow>
     length (i_addrs ei) = 13 \<and> unat (i_nlink ei) < 65536 \<and> 0 \<le> i_size ei \<and> i_size ei < 4294967296"

definition same_persistent :: "xv6fs_inode_info \<Rightarrow> xv6fs_inode_info \<Rightarrow> bool" where
  "same_persistent ei ej \<longleftrightarrow>
     i_type ei = i_type ej \<and> i_major ei = i_major ej \<and> i_minor ei = i_minor ej \<and>
     i_nlink ei = i_nlink ej \<and> i_size ei = i_size ej \<and> i_addrs ei = i_addrs ej"

lemma wf_dinode_to_disk [simp]: "fits_dinode ei \<Longrightarrow> wf_dinode (xv6fs_dinode_to_disk ei)"
  by (simp add: wf_dinode_def xv6fs_dinode_to_disk_def fits_dinode_def)

lemma dinode_disk_roundtrip:
  assumes "fits_dinode ei"
  shows "same_persistent (xv6fs_dinode_to_cpu (xv6fs_dinode_to_disk ei) ej) ei"
proof -
  have "take_bit 16 (unat (i_nlink ei)) = unat (i_nlink ei)"
    using assms by (simp add: fits_dinode_def take_bit_nat_eq_self)
  then have "(ucast (ucast (i_nlink ei) :: u16) :: u32) = i_nlink ei"
    by (simp add: word_unat_eq_iff unsigned_ucast_eq take_bit_word_eq_self unsigned_take_bit_eq)
  moreover have "uint (word_of_int (i_size ei) :: u32) = i_size ei"
    using assms by (simp add: fits_dinode_def uint_word_of_int)
  ultimately show ?thesis
    by (simp add: same_persistent_def xv6fs_dinode_to_cpu_def xv6fs_dinode_to_disk_def)
qed

section \<open>Getting an inode: the branches\<close>

lemma iget_range: "ino = 0 \<or> unat (sb_ninodes (raw_sb s)) \<le> ino \<Longrightarrow> xv6fs_iget K ino s = (Inl EINVAL, s)"
  by (auto simp: xv6fs_iget_def)

lemma iget_cached:
  "0 < ino \<Longrightarrow> ino < unat (sb_ninodes (raw_sb s)) \<Longrightarrow> ino \<in> dom (icache s) \<Longrightarrow>
   xv6fs_iget K ino s = (Inr ino, s)"
  by (auto simp: xv6fs_iget_def)

lemma iget_ops_type:
  "iget_ops ei = None \<longleftrightarrow> i_type ei \<notin> {1, 2, 3}"
  "iget_ops ei = Some ei' \<Longrightarrow> same_persistent ei' ei"
  by (auto simp: iget_ops_def same_persistent_def split: if_splits)

lemma iget_attrs_persistent: "same_persistent (iget_attrs ei) ei"
  by (simp add: iget_attrs_def same_persistent_def)

lemma same_persistent_trans: "same_persistent a b \<Longrightarrow> same_persistent b c \<Longrightarrow> same_persistent a c"
  by (simp add: same_persistent_def)

lemma iget_read:
  assumes "0 < ino" "ino < unat (sb_ninodes (raw_sb s))" "icache s ino = None" "inode_alloc_ok K ino"
    and "d_type (dinodes s ! ino) \<in> {1, 2, 3}"
  obtains ei where "xv6fs_iget K ino s = (Inr ino, set_inode ino ei s)"
    and "same_persistent ei (xv6fs_dinode_to_cpu (dinodes s ! ino) (fresh_inode K))"
proof -
  define e0 where "e0 = iget_attrs (xv6fs_read_inode s ino (fresh_inode K))"
  have p: "same_persistent e0 (xv6fs_dinode_to_cpu (dinodes s ! ino) (fresh_inode K))"
    unfolding e0_def xv6fs_read_inode_def by (rule iget_attrs_persistent)
  then have "i_type e0 \<in> {1, 2, 3}" using assms(5) by (simp add: same_persistent_def xv6fs_dinode_to_cpu_def)
  then obtain ei where ei: "iget_ops e0 = Some ei" using iget_ops_type(1) [of e0] by blast
  then have "xv6fs_iget K ino s = (Inr ino, set_inode ino ei s)"
    using assms(1-4) by (simp add: xv6fs_iget_def Let_def flip: e0_def)
  moreover have "same_persistent ei (xv6fs_dinode_to_cpu (dinodes s ! ino) (fresh_inode K))"
    using same_persistent_trans [OF iget_ops_type(2) [OF ei] p] .
  ultimately show ?thesis by (rule that)
qed

lemma iget_bad_type:
  assumes "0 < ino" "ino < unat (sb_ninodes (raw_sb s))" "icache s ino = None" "inode_alloc_ok K ino"
    and "d_type (dinodes s ! ino) \<notin> {1, 2, 3}"
  shows "xv6fs_iget K ino s =
    (Inl EINVAL, iput_last K ino (set_inode ino
       (iget_attrs (xv6fs_dinode_to_cpu (dinodes s ! ino) (fresh_inode K))) s))"
proof -
  have "iget_ops (iget_attrs (xv6fs_dinode_to_cpu (dinodes s ! ino) (fresh_inode K))) = None"
    using assms(5) iget_ops_type(1) by (simp add: iget_attrs_def xv6fs_dinode_to_cpu_def)
  then show ?thesis using assms(1-4)
    by (simp add: xv6fs_iget_def Let_def xv6fs_read_inode_def iget_failed_def)
qed

lemma iget_Inr_itable:
  assumes "itable_ok s" "xv6fs_iget K ino s = (Inr i, s')"
  shows "itable_ok s'"
proof (cases "icache s ino")
  case (Some ei)
  then show ?thesis using assms by (auto simp: xv6fs_iget_def split: if_splits)
next
  case None
  define e0 where "e0 = iget_attrs (xv6fs_read_inode s ino (fresh_inode K))"
  from None assms(2) obtain ei where ei: "iget_ops e0 = Some ei" "s' = set_inode ino ei s"
    and r: "ino < unat (sb_ninodes (raw_sb s))"
    by (auto simp: xv6fs_iget_def Let_def e0_def split: if_splits option.splits)
  have "d_type (dinodes s ! ino) \<noteq> 0"
    using ei(1) iget_ops_type(1) [of e0]
    by (auto simp: e0_def iget_attrs_def xv6fs_read_inode_def xv6fs_dinode_to_cpu_def)
  then have "ino \<notin> set (free_inodes_list s)" using assms(1) by (auto simp: itable_ok_def)
  moreover have "same_tables ino s s'" unfolding ei(2) by (rule same_tables_basic(5))
  moreover have "ino < length (dinodes s)" using r assms(1) by (simp add: itable_ok_def)
  ultimately show ?thesis using itable_ok_same [OF assms(1)] by blast
qed

section \<open>Eviction\<close>

lemma zero_slot_block_used:
  assumes "layout_ok (raw_sb s)" "ino < unat (sb_ninodes (raw_sb s))"
  shows "block_used (zero_slot_on_disk K ino s) = block_used s"
  using IBLOCK_not_BBLOCK [OF assms]
  by (simp add: fun_eq_iff block_used_def zero_slot_on_disk_frame) (metis zero_slot_on_disk_frame(7))

lemma evict_frees_blocks:
  fixes K :: kernel
  assumes "trunc_pre K s ino" "i_nlink (xv6fs_i s ino) = 0" "0 < ino"
    and "ino < unat (sb_ninodes (raw_sb s))"
    and "i_addrs (xv6fs_i s ino) ! 12 \<noteq> 0 \<longrightarrow> sb_bread_ok K (unat (i_addrs (xv6fs_i s ino) ! 12))"
  defines "s' \<equiv> iput_last K ino s"
  shows "b < unat (sb_size (raw_sb s)) \<Longrightarrow>
    block_used s' b \<longleftrightarrow> block_used s b \<and> b \<notin> set (inode_blocks s ino)"
proof -
  assume b: "b < unat (sb_size (raw_sb s))"
  define t where "t = set_inode ino ((xv6fs_i s ino)\<lparr>i_size := 0\<rparr>) s"
  have ad: "i_addrs ((xv6fs_i s ino)\<lparr>i_size := 0\<rparr>) = i_addrs (xv6fs_i s ino)" by simp
  note v = inode_views_set_inode [OF ad, folded t_def]
  have pt: "trunc_pre K t ino" by (rule v(7) [OF assms(1)])
  have it: "i_addrs (xv6fs_i t ino) = i_addrs (xv6fs_i s ino)" by (simp add: t_def)
  let ?u = "evict_trunc K ino s"
  have r: "trunc_rel t ino ?u" "inode_blocks ?u ino = []"
    using truncate_blocks_rel [OF pt, of 0] truncate_blocks_all [OF pt] assms(5)
    unfolding it by (simp_all add: t_def)
  have ru: "raw_sb ?u = raw_sb s" "layout_ok (raw_sb ?u)"
    using evict_trunc_tables [of ino s K] assms(1)
    by (simp_all add: same_tables_def trunc_pre_def bmap_inv_def)
  have "block_used s' = block_used (zero_slot_on_disk K ino ?u)"
    using evict_unlinked(4,7) [OF assms(2,3), of K] ru(1)
    by (intro block_used_cong) (simp_all add: s'_def iput_last_def Let_def zero_slot_on_disk_frame)
  also have "\<dots> = block_used ?u"
    using zero_slot_block_used [OF ru(2)] assms(4) ru(1) by simp
  finally show "block_used s' b \<longleftrightarrow> block_used s b \<and> b \<notin> set (inode_blocks s ino)"
    using r b ru(1) v(2,5) by (simp add: trunc_rel_def t_def inode_defs)
qed

section \<open>The inode table as an allocator\<close>

text \<open>\<open>set_nlink (inode, 0); iput (inode)\<close>, as the error paths of \<^verbatim>\<open>dir.c\<close> do.\<close>

definition set_nlink :: "nat \<Rightarrow> u32 \<Rightarrow> fs \<Rightarrow> fs" where
  "set_nlink ino n s = set_inode ino ((xv6fs_i s ino)\<lparr>i_nlink := n\<rparr>) s"

definition discard_inode :: "kernel \<Rightarrow> nat \<Rightarrow> fs \<Rightarrow> fs" where
  "discard_inode K ino s = iput_last K ino (set_nlink ino 0 s)"

text \<open>
  The reserved inode 0 is kept out of the free list by a file system whose
  slot 0 is not of type 0.
\<close>

definition ialloc_inv :: "fs \<Rightarrow> bool" where
  "ialloc_inv s \<longleftrightarrow> itable_ok s \<and> 0 \<notin> set (free_inodes_list s)"

lemma itable_set_inode:
  "itable_ok s \<Longrightarrow> ino \<in> dom (icache s) \<Longrightarrow> itable_ok (set_inode ino ei s)"
  by (rule itable_ok_same [OF _ same_tables_basic(5)]) (auto simp: itable_ok_def)

lemma discard_free_list:
  assumes "0 < ino"
  shows "free_inodes_list (discard_inode K ino s) = free_inodes_list s @ [ino]"
proof -
  have "i_nlink (xv6fs_i (set_nlink ino 0 s) ino) = 0" by (simp add: set_nlink_def)
  from evict_unlinked(1) [OF this assms] show ?thesis
    by (simp add: discard_inode_def iput_last_def Let_def set_nlink_def)
qed

interpretation itable: slot_allocator "xv6fs_new_inode K mode" "discard_inode K"
  "\<lambda>s. set (free_inodes_list s)" ialloc_inv "\<lambda>s i. 0 < i \<and> i \<in> dom (icache s)" for K mode
proof
  fix s b s' assume inv: "ialloc_inv s" and r: "xv6fs_new_inode K mode s = (Inr b, s')"
  then have ok: "itable_ok s" by (simp add: ialloc_inv_def)
  have l: "free_inodes_list s = b # free_inodes_list s'" by (rule new_inode_Inr(1) [OF r])
  have "b \<notin> set (free_inodes_list s')" using ok l by (auto simp: itable_ok_def)
  then show "b \<in> set (free_inodes_list s) \<and>
      set (free_inodes_list s') = set (free_inodes_list s) - {b} \<and> ialloc_inv s'"
    using inv l new_inode_itable(1) [OF ok r] by (auto simp: ialloc_inv_def)
  show "0 < b \<and> b \<in> dom (icache s')"
    using inv l new_inode_Inr(4) [OF r] by (auto simp: ialloc_inv_def intro!: gr0I)
next
  fix s e s' assume "xv6fs_new_inode K mode s = (Inl e, s')"
  then show "s' = s" by (rule new_inode_Inl(1))
next
  fix s b assume inv: "ialloc_inv s" and b: "0 < b \<and> b \<in> dom (icache s)"
  then show "set (free_inodes_list (discard_inode K b s)) = insert b (set (free_inodes_list s))"
    by (simp add: discard_free_list)
  have "itable_ok (set_nlink b 0 s)" unfolding set_nlink_def
    using inv b by (intro itable_set_inode) (simp_all add: ialloc_inv_def)
  then have "itable_ok (discard_inode K b s)" unfolding discard_inode_def
    by (rule iput_last_itable) (simp add: set_nlink_def set_inode_def)
  then show "ialloc_inv (discard_inode K b s)"
    using inv b by (auto simp: ialloc_inv_def discard_free_list)
qed

section \<open>Properties\<close>

text \<open>The state a new mount of the same device starts from: no inode is cached.\<close>

definition remounted :: "fs \<Rightarrow> fs" where
  "remounted s = s\<lparr>icache := Map.empty, idirty := {}\<rparr>"

lemma demo_itable_ok: "itable_ok demo_fs"
  by (auto simp: itable_ok_def demo_fs_def demo_sb_def nth_list_update)

lemma demo_dinode: "disk_dinode demo_fs i = zero_dinode"
proof -
  have "get_bytes (64 * XV6FS_IOFFSET i) 64 (replicate 512 0) = (replicate 64 0 :: byte list)"
  proof -
    have "64 \<le> 512 - 64 * XV6FS_IOFFSET i" using IOFFSET_less [of i] by linarith
    then show ?thesis by (simp add: get_bytes_def min_def)
  qed
  moreover have "bytes_dinode (replicate 64 0) = zero_dinode"
  proof -
    have "dinode_bytes zero_dinode = replicate 64 0" by code_simp
    then show ?thesis using bytes_dinode_inverse [OF wf_zero_dinode] by simp
  qed
  ultimately show ?thesis by (simp add: disk_dinode_def dinode_at_def)
qed

text \<open>
  C26: The mount-time scan of the inode table.  It fails with \<open>-ENOMEM\<close> when
  the table cannot be allocated and with \<open>-EIO\<close> when one of the inode blocks
  cannot be read, leaving the tables empty; otherwise it copies every slot in
  use and puts every slot of type 0, and no other, on the free list in
  ascending order, with their number in \<open>free_inodes\<close>.  No buffer is kept and
  nothing else changes.
\<close>

theorem load_dinodes_correct:
  "xv6fs_load_dinodes K s =
    (let n = unat (sb_ninodes (raw_sb s));
         free = filter (\<lambda>i. d_type (disk_dinode s i) = 0) [0..<n]
     in if \<not> kvmalloc_ok K n then (Inl ENOMEM, s)
        else if \<forall>i < n. sb_bread_ok K (XV6FS_IBLOCK i (raw_sb s)) then
          (Inr (), s\<lparr>dinodes := map (\<lambda>i. if d_type (disk_dinode s i) = 0 then zero_dinode
                                          else disk_dinode s i) [0..<n],
                     free_inodes_list := free, free_inodes := of_nat (length free)\<rparr>)
        else (Inl EIO, s\<lparr>dinodes := [], free_inodes_list := [], free_inodes := 0\<rparr>))"
  unfolding load_dinodes_eq Let_def free_slots_def inode_block_ok_def ..

theorem load_dinodes_correct_witness:
  "xv6fs_load_dinodes ref_kernel demo_fs =
     (Inr (), demo_fs\<lparr>dinodes := replicate 16 zero_dinode, free_inodes_list := [0..<16],
                      free_inodes := 16\<rparr>)"
  unfolding load_dinodes_correct Let_def
  by (simp add: demo_dinode map_replicate_const del: upt_Suc)

text \<open>
  What \<open>xv6fs_write_inode\<close> writes survives a remount: after a successful
  write-back of an inode whose link count and size fit the disk format, a
  fresh scan of the table and \<open>xv6fs_iget\<close> give back its type, device
  numbers, link count, size and addresses.
\<close>

lemma write_inode_survives_remount:
  assumes "blocks_512 s" "ino < length (dinodes s)" "length (dinodes s) = unat (sb_ninodes (raw_sb s))"
    and "0 < ino" "fits_dinode (xv6fs_i s ino)" "i_type (xv6fs_i s ino) \<in> {XV6FS_T_DIR, XV6FS_T_FILE, XV6FS_T_DEV}"
    and "xv6fs_write_inode K ino sync s = (Inr u, s1)"
    and "xv6fs_load_dinodes K (remounted s1) = (Inr v, s2)" "inode_alloc_ok K ino"
  shows "\<exists>s3. xv6fs_iget K ino s2 = (Inr ino, s3) \<and> same_persistent (xv6fs_i s3 ino) (xv6fs_i s ino)"
proof -
  let ?di = "xv6fs_dinode_to_disk (xv6fs_i s ino)"
  note w = write_inode_Inr(3) [OF assms(7,2)]
  have wf: "wf_dinode ?di" using assms(5) by simp
  have "disk_dinode s1 ino = ?di"
    using disk_dinode_put [of s ino ?di s1 ino] assms(1) wf w by (simp add: blocks_512_def)
  moreover have "disk_dinode (remounted s1) = disk_dinode s1"
    by (rule disk_dinode_cong) (simp_all add: remounted_def)
  moreover have "d_type ?di \<noteq> 0" using assms(6) by (auto simp: xv6fs_dinode_to_disk_def)
  ultimately have di: "dinodes s2 ! ino = ?di" and rest: "icache s2 = Map.empty" "raw_sb s2 = raw_sb s"
    using assms(2,3,8) w by (auto simp: load_dinodes_eq remounted_def split: if_splits)
  have "d_type (dinodes s2 ! ino) \<in> {1, 2, 3}" using assms(6) di by (simp add: xv6fs_dinode_to_disk_def)
  with assms(2-4,9) rest obtain ei where ei: "xv6fs_iget K ino s2 = (Inr ino, set_inode ino ei s2)"
      "same_persistent ei (xv6fs_dinode_to_cpu (dinodes s2 ! ino) (fresh_inode K))"
    using iget_read [of ino s2 K] by auto
  from same_persistent_trans [OF ei(2) [unfolded di] dinode_disk_roundtrip [OF assms(5)]] ei(1)
  show ?thesis by (intro exI [of _ "set_inode ino ei s2"]) simp
qed

text \<open>
  C30: \<open>xv6fs_new_inode\<close> takes the first inode of the free list, which was
  neither cached nor out of range, and gives it the fields of an empty
  directory or file; the table invariant is kept.  It fails, changing
  nothing, with \<open>-ENOSPC\<close> exactly when the list is empty and with \<open>-ENOMEM\<close>
  when no inode can be allocated.
\<close>

theorem new_inode_correct:
  assumes "itable_ok s"
  shows "case xv6fs_new_inode K mode s of
      (Inr ino, s') \<Rightarrow>
        free_inodes_list s = ino # free_inodes_list s' \<and> free_inodes s' = free_inodes s - 1 \<and>
        ino < unat (sb_ninodes (raw_sb s)) \<and> ino \<notin> dom (icache s) \<and> itable_ok s' \<and>
        i_size (xv6fs_i s' ino) = 0 \<and> file_map s' ino = Map.empty \<and> ino \<in> idirty s' \<and>
        (if S_ISDIR mode then i_type (xv6fs_i s' ino) = XV6FS_T_DIR \<and> i_nlink (xv6fs_i s' ino) = 2
         else i_type (xv6fs_i s' ino) = XV6FS_T_FILE \<and> i_nlink (xv6fs_i s' ino) = 1) \<and>
        disk s' = disk s
    | (Inl e, s') \<Rightarrow>
        s' = s \<and> (if free_inodes_list s = [] then e = ENOSPC else e = ENOMEM)"
proof -
  obtain r s' where call: "xv6fs_new_inode K mode s = (r, s')" by fastforce
  show ?thesis
  proof (cases r)
    case (Inl e)
    then show ?thesis using new_inode_Inl [OF call [unfolded Inl]] by (auto simp: call)
  next
    case (Inr ino)
    note a = new_inode_Inr [OF call [unfolded Inr]] new_inode_itable [OF assms call [unfolded Inr]]
    have "i_addrs (xv6fs_i s' ino) = replicate 13 0" "i_size (xv6fs_i s' ino) = 0"
      "if S_ISDIR mode then i_type (xv6fs_i s' ino) = 1 \<and> i_nlink (xv6fs_i s' ino) = 2
         else i_type (xv6fs_i s' ino) = 2 \<and> i_nlink (xv6fs_i s' ino) = 1"
      by (simp_all add: a(3) new_inode_fields_def Let_def)
    moreover from this(1) have "file_map s' ino = Map.empty"
      by (simp add: file_map_def ind_entries_def block_opt_def fun_eq_iff)
    ultimately show ?thesis using a Inr by (simp add: call)
  qed
qed

theorem new_inode_correct_witness:
  "fst (xv6fs_new_inode ref_kernel S_IFREG demo_fs) = Inr 2 \<and>
   itable_ok (snd (xv6fs_new_inode ref_kernel S_IFREG demo_fs)) \<and>
   free_inodes_list demo_fs = 2 # free_inodes_list (snd (xv6fs_new_inode ref_kernel S_IFREG demo_fs))"
proof -
  have "fst (xv6fs_new_inode ref_kernel S_IFREG demo_fs) = Inr 2"
    by (simp add: xv6fs_new_inode_def demo_fs_def upt_conv_Cons Let_def)
  then show ?thesis using new_inode_correct [OF demo_itable_ok, where K = ref_kernel and mode = S_IFREG]
    by (cases "xv6fs_new_inode ref_kernel S_IFREG demo_fs") simp
qed

text \<open>
  C16: The last reference to an inode without links is dropped: all its blocks,
  and no others, become free in the bitmap, its slot on disk and in the table
  is zeroed, it goes to the end of the free list and out of the inode cache,
  and the table invariant is kept.
\<close>

theorem evict_unlinked_inode:
  fixes K :: kernel
  assumes "kernel_bitops K" "bmap_inv s" "imap_ok s ino" "bitmap_readable K s" "itable_ok s"
    and "i_nlink (xv6fs_i s ino) = 0" "0 < ino" "inode_block_ok K s ino"
    and "i_addrs (xv6fs_i s ino) ! 12 \<noteq> 0 \<longrightarrow> sb_bread_ok K (unat (i_addrs (xv6fs_i s ino) ! 12))"
    and "s' = iput_last K ino s"
  shows "(\<forall>b < unat (sb_size (raw_sb s)). block_used s' b \<longleftrightarrow>
            block_used s b \<and> b \<notin> set (inode_blocks s ino)) \<and>
    disk_dinode s' ino = zero_dinode \<and> dinodes s' = (dinodes s)[ino := zero_dinode] \<and>
    free_inodes_list s' = free_inodes_list s @ [ino] \<and> icache s' = (icache s)(ino := None) \<and>
    itable_ok s' \<and> holds s' = holds s"
proof -
  have c: "ino \<in> dom (icache s)" "ino < unat (sb_ninodes (raw_sb s))"
    using assms(3,5) by (auto simp: imap_ok_def itable_ok_def)
  have pre: "trunc_pre K s ino" using assms(1-4) by (simp add: trunc_pre_def)
  note e = evict_unlinked [where K = K, OF assms(6,7)]
  let ?u = "evict_trunc K ino s"
  have ru: "raw_sb ?u = raw_sb s" using evict_trunc_tables [of ino s K] by (simp add: same_tables_def)
  have "bmap_inv ?u"
    using truncate_blocks_rel [OF inode_views_set_inode(7) [OF _ pre], of _ 0] assms(9)
    by (simp add: trunc_rel_def)
  then have l512: "length (disk ?u (XV6FS_IBLOCK ino (raw_sb ?u))) = 512"
    unfolding bmap_inv_def blocks_512_def by blast
  have "inode_block_ok K ?u ino" using assms(8) ru by (simp add: inode_block_ok_def)
  from disk_dinode_put [OF l512 wf_zero_dinode zero_slot_on_disk_frame(8) [OF this]
      zero_slot_on_disk_frame(7) zero_slot_on_disk_frame(1), of ino]
  have "disk_dinode (zero_slot_on_disk K ino ?u) ino = zero_dinode" by simp
  moreover have "disk_dinode s' = disk_dinode (zero_slot_on_disk K ino ?u)"
    using e ru by (intro disk_dinode_cong)
      (simp_all add: assms(10) iput_last_def Let_def zero_slot_on_disk_frame)
  moreover have "icache s' = (icache s)(ino := None)"
    using e(6) by (auto simp: fun_eq_iff assms(10) iput_last_def Let_def)
  moreover have "itable_ok s'" using iput_last_itable [OF assms(5) c(1)] by (simp add: assms(10))
  ultimately show ?thesis
    using evict_frees_blocks [OF pre assms(6,7) c(2) assms(9)] e
    by (simp add: assms(10)) (simp add: iput_last_def Let_def)
qed

lemma demo_unlinked:
  "trunc_pre ref_kernel (set_nlink 1 0 demo_mapped) 1" "itable_ok (set_nlink 1 0 demo_mapped)"
  "i_nlink (xv6fs_i (set_nlink 1 0 demo_mapped) 1) = 0"
  "i_addrs (xv6fs_i (set_nlink 1 0 demo_mapped) 1) ! 12 = 0"
proof -
  have f: "same_tables 1 demo_fs demo_mapped"
    using get_block_frame [of 1 demo_fs ref_kernel 0 True] by (simp add: demo_mapped_def)
  have c: "1 \<in> dom (icache demo_mapped)"
    using demo_mapped_pre(1) by (simp add: trunc_pre_def imap_ok_def)
  have "itable_ok demo_mapped"
    by (rule itable_ok_same [OF demo_itable_ok f]) (simp_all add: demo_fs_def)
  then show "itable_ok (set_nlink 1 0 demo_mapped)"
    unfolding set_nlink_def using c by (intro itable_set_inode)
  show "trunc_pre ref_kernel (set_nlink 1 0 demo_mapped) 1"
    unfolding set_nlink_def using demo_mapped_pre(1) by (intro inode_views_set_inode(7)) simp_all
qed (use demo_mapped_pre(3) in \<open>simp_all add: set_nlink_def\<close>)

theorem evict_unlinked_inode_witness:
  "disk_dinode (iput_last ref_kernel 1 (set_nlink 1 0 demo_mapped)) 1 = zero_dinode \<and>
   icache (iput_last ref_kernel 1 (set_nlink 1 0 demo_mapped)) =
     (icache (set_nlink 1 0 demo_mapped))(1 := None) \<and>
   itable_ok (iput_last ref_kernel 1 (set_nlink 1 0 demo_mapped))"
proof -
  note d = demo_unlinked
  have p: "kernel_bitops ref_kernel" "bmap_inv (set_nlink 1 0 demo_mapped)"
    "imap_ok (set_nlink 1 0 demo_mapped) 1" "bitmap_readable ref_kernel (set_nlink 1 0 demo_mapped)"
    using d(1) unfolding trunc_pre_def by blast+
  have i: "inode_block_ok ref_kernel (set_nlink 1 0 demo_mapped) 1" by (simp add: inode_block_ok_def)
  show ?thesis using evict_unlinked_inode [OF p d(2,3) _ i _ refl] d(4) by simp
qed

text \<open>
  Inode allocation under the reserved-inode invariant: successive
  \<open>xv6fs_new_inode\<close> calls hand out pairwise distinct inodes from the free list.
\<close>

lemma new_inode_run_distinct:
  assumes "ialloc_inv s"
  shows "case itable.alloc_run K mode s k of (is, t) \<Rightarrow>
    distinct is \<and> set is \<subseteq> set (free_inodes_list s) \<and> 0 \<notin> set is \<and>
    set (free_inodes_list t) = set (free_inodes_list s) - set is"
proof -
  obtain "is" t where run: "itable.alloc_run K mode s k = (is, t)" by fastforce
  show ?thesis using itable.alloc_run_distinct [OF assms run] assms unfolding run
    by (auto simp: ialloc_inv_def)
qed

lemma demo_ialloc_inv: "ialloc_inv demo_fs"
  using demo_itable_ok by (simp add: ialloc_inv_def demo_fs_def)

text \<open>
  Discarding the inode \<open>xv6fs_new_inode\<close> has just returned (\<open>set_nlink 0\<close> and
  \<open>iput\<close>, as the error paths of the directory code do) restores the set of
  free inodes.
\<close>

lemma new_inode_discard_roundtrip:
  assumes "ialloc_inv s" "xv6fs_new_inode K mode s = (Inr ino, s')"
  shows "set (free_inodes_list (discard_inode K ino s')) = set (free_inodes_list s) \<and>
    ialloc_inv (discard_inode K ino s')"
  using itable.alloc_release [OF assms] itable.release_inv [of s' ino K]
    itable.alloc_Inr [OF assms] itable.alloc_releasable [OF assms] by blast

text \<open>
  C31: The branches of \<open>xv6fs_iget\<close>: inode 0 and numbers past the table are
  refused, a cached inode is returned as it is, an inode of a known type is
  read from the table, and success keeps the table invariant.
\<close>

theorem iget_correct:
  assumes "itable_ok s"
  shows "case xv6fs_iget K ino s of
      (Inr i, s') \<Rightarrow>
        i = ino \<and> 0 < ino \<and> ino < unat (sb_ninodes (raw_sb s)) \<and> ino \<in> dom (icache s') \<and> itable_ok s' \<and>
        (if ino \<in> dom (icache s) then s' = s
         else same_persistent (xv6fs_i s' ino) (xv6fs_dinode_to_cpu (dinodes s ! ino) (fresh_inode K)))
    | (Inl e, s') \<Rightarrow>
        e = EINVAL \<and> s' = s \<and> (ino = 0 \<or> unat (sb_ninodes (raw_sb s)) \<le> ino) \<or>
        e = ENOMEM \<and> s' = s \<and> \<not> inode_alloc_ok K ino \<or>
        e = EINVAL \<and> d_type (dinodes s ! ino) \<notin> {XV6FS_T_DIR, XV6FS_T_FILE, XV6FS_T_DEV}"
proof -
  consider "ino = 0 \<or> unat (sb_ninodes (raw_sb s)) \<le> ino"
    | "0 < ino" "ino < unat (sb_ninodes (raw_sb s))" "ino \<in> dom (icache s)"
    | "0 < ino" "ino < unat (sb_ninodes (raw_sb s))" "icache s ino = None" "\<not> inode_alloc_ok K ino"
    | "0 < ino" "ino < unat (sb_ninodes (raw_sb s))" "icache s ino = None" "inode_alloc_ok K ino"
        "d_type (dinodes s ! ino) \<in> {1, 2, 3}"
    | "0 < ino" "ino < unat (sb_ninodes (raw_sb s))" "icache s ino = None" "inode_alloc_ok K ino"
        "d_type (dinodes s ! ino) \<notin> {1, 2, 3}" by fastforce
  then show ?thesis
  proof cases
    case 1
    then show ?thesis by (simp add: iget_range)
  next
    case 2
    then show ?thesis using assms by (simp add: iget_cached)
  next
    case 3
    then show ?thesis by (simp add: xv6fs_iget_def)
  next
    case 4
    from iget_read [OF 4] obtain ei where ei: "xv6fs_iget K ino s = (Inr ino, set_inode ino ei s)"
      "same_persistent ei (xv6fs_dinode_to_cpu (dinodes s ! ino) (fresh_inode K))" .
    moreover have "ino \<in> dom (icache (set_inode ino ei s))" by (simp add: set_inode_def)
    ultimately show ?thesis using 4 iget_Inr_itable [OF assms ei(1)]
      by (simp only: ei(1) prod.case sum.case xv6fs_i_simps domIff if_False simp_thms)
  next
    case 5
    then show ?thesis using iget_bad_type [OF 5] by simp
  qed
qed

theorem iget_correct_witness:
  "xv6fs_iget ref_kernel 1 demo_fs = (Inr 1, demo_fs) \<and> itable_ok demo_fs \<and>
   xv6fs_iget ref_kernel 16 demo_fs = (Inl EINVAL, demo_fs)"
  using iget_correct [OF demo_itable_ok, where K = ref_kernel and ino = 1]
    iget_correct [OF demo_itable_ok, where K = ref_kernel and ino = 16]
  by (simp add: xv6fs_iget_def)

text \<open>
  \<open>xv6fs_write_inode\<close> writes one slot: on success the slot of its inode
  holds the converted inode on disk and in the table, every other slot, the
  bitmap and every data block are as before, the inode block is marked dirty
  and no buffer is kept.
\<close>

lemma write_inode_exact:
  assumes "bmap_inv s" "itable_ok s" "ino < unat (sb_ninodes (raw_sb s))"
    and "fits_dinode (xv6fs_i s ino)" "xv6fs_write_inode K ino sync s = (Inr u, s')"
  shows "disk_dinode s' = (disk_dinode s)(ino := xv6fs_dinode_to_disk (xv6fs_i s ino)) \<and>
    dinodes s' = (dinodes s)[ino := xv6fs_dinode_to_disk (xv6fs_i s ino)] \<and>
    block_used s' = block_used s \<and> (\<forall>b \<in> data_blocks s. disk s' b = disk s b) \<and>
    dirty s' = insert (XV6FS_IBLOCK ino (raw_sb s)) (dirty s) \<and> holds s' = holds s"
proof -
  let ?di = "xv6fs_dinode_to_disk (xv6fs_i s ino)" and ?b = "XV6FS_IBLOCK ino (raw_sb s)"
  have len: "ino < length (dinodes s)" using assms(2,3) by (simp add: itable_ok_def)
  note w = write_inode_Inr(3) [OF assms(5) len]
  have lay: "layout_ok (raw_sb s)" and l512: "length (disk s ?b) = 512"
    using assms(1) by (simp_all add: bmap_inv_def blocks_512_def)
  have "disk_dinode s' i = (if i = ino then ?di else disk_dinode s i)" for i
    by (rule disk_dinode_put [OF l512 wf_dinode_to_disk [OF assms(4)]]) (simp_all add: w)
  then have "disk_dinode s' = (disk_dinode s)(ino := ?di)" by (auto simp: fun_eq_iff)
  moreover have "block_used s' = block_used s"
    using IBLOCK_not_BBLOCK [OF lay assms(3), THEN not_sym] by (simp add: fun_eq_iff block_used_def w)
  moreover have "disk s' b = disk s b" if "b \<in> data_blocks s" for b
    using IBLOCK_less_DSTART [OF lay assms(3)] that by (auto simp: data_blocks_def w)
  ultimately show ?thesis by (simp add: w)
qed

text \<open>
  C33: The mount-time scan also puts the reserved inode 0 on the free list when
  its slot has type 0, as in every image the XV6 tools write.  The first
  \<open>xv6fs_new_inode\<close> after such a mount returns inode 0, which \<open>xv6fs_iget\<close>
  refuses and which a directory entry cannot name.
\<close>

theorem first_new_inode_is_zero:
  assumes "xv6fs_load_dinodes K s = (Inr u, s1)" "d_type (disk_dinode s 0) = 0"
    and "0 < sb_ninodes (raw_sb s)" "inode_alloc_ok K 0"
  shows "\<exists>s2. xv6fs_new_inode K mode s1 = (Inr 0, s2) \<and> xv6fs_iget K 0 s2 = (Inl EINVAL, s2)"
proof -
  let ?n = "unat (sb_ninodes (raw_sb s))"
  have "0 < ?n" using assms(3) by (simp add: unat_gt_0 word_neq_0_conv [symmetric])
  then have "free_slots s 0 ?n = 0 # free_slots s 1 ?n"
    using assms(2) by (simp add: free_slots_def upt_conv_Cons)
  moreover have "free_inodes_list s1 = free_slots s 0 ?n"
    using assms(1) by (simp add: load_dinodes_eq split: if_splits) auto
  ultimately show ?thesis using assms(4)
    by (simp add: xv6fs_new_inode_def Let_def iget_range)
qed

theorem first_new_inode_is_zero_witness:
  "\<exists>s1 s2. xv6fs_load_dinodes ref_kernel demo_fs = (Inr (), s1) \<and>
     xv6fs_new_inode ref_kernel S_IFREG s1 = (Inr 0, s2) \<and> xv6fs_iget ref_kernel 0 s2 = (Inl EINVAL, s2)"
proof -
  obtain s1 where l: "xv6fs_load_dinodes ref_kernel demo_fs = (Inr (), s1)"
    by (simp add: load_dinodes_eq inode_block_ok_def)
  from first_new_inode_is_zero [OF l] l show ?thesis by (simp add: demo_dinode)
qed

end
