(* ===== verification/Xv6fs_Dir.thy ===== *)
theory Xv6fs_Dir
  imports Xv6fs_Itable "HOL-Library.Monad_Syntax"
begin

text \<open>
  Directories, from \<^verbatim>\<open>src/dir.c\<close>: the cursor that walks a directory's entries,
  listing, lookup, insertion and removal of entries, and the directory
  operations built on them.

  A directory is a file whose content is an array of 16-byte entries; an
  entry with inode number 0, or one in an unmapped block, is free.  The
  cursor's loops need not end (a directory whose size is not a multiple of
  the entry size and whose last block is a hole), so the functions are
  partial functions into \<open>option\<close>, with \<open>None\<close> for a call that does not
  return; an access through a null buffer or outside the buffer is the
  result \<open>Oops\<close>.

  The abstract view is the array of slots \<open>slot_at\<close>; \<open>ref_scan\<close> is the plain
  scan of that array.  The lemmas show that on a well-formed directory the
  cursor returns and refines the plain scan, and from it what each
  operation computes.
\<close>

section \<open>Names\<close>

definition strnlen :: "byte list \<Rightarrow> nat \<Rightarrow> nat" where
  "strnlen s n = length (takeWhile (\<lambda>c. c \<noteq> 0) (take n s))"

text \<open>\<open>strncmp (a, b, n) == 0\<close>; a list stands for the bytes before the terminating 0.\<close>

fun strncmp_eq :: "byte list \<Rightarrow> byte list \<Rightarrow> nat \<Rightarrow> bool" where
  "strncmp_eq a b 0 = True"
| "strncmp_eq (x # a) (y # b) (Suc n) = (x = y \<and> (x = 0 \<or> strncmp_eq a b n))"
| "strncmp_eq [] (y # b) (Suc n) = (y = 0)"
| "strncmp_eq (x # a) [] (Suc n) = (x = 0)"
| "strncmp_eq [] [] (Suc n) = True"

section \<open>The directory cursor\<close>

text \<open>The member \<open>ei\<close> is the inode number every function takes; \<open>de\<close> is an offset in the buffer.\<close>

record xv6fs_dir_cursor =
  c_bh :: "nat option"
  c_de :: "nat option"
  c_pos :: int
  c_last_empty :: int
  c_first_empty :: int

definition INIT_DIR_CURSOR_OFFSET :: "int \<Rightarrow> xv6fs_dir_cursor" where
  "INIT_DIR_CURSOR_OFFSET offset =
     \<lparr>c_bh = None, c_de = None, c_pos = offset - 16, c_last_empty = -1, c_first_empty = -1\<rparr>"

definition INIT_DIR_CURSOR :: xv6fs_dir_cursor where
  "INIT_DIR_CURSOR = INIT_DIR_CURSOR_OFFSET 0"

text \<open>\<open>NULL\<close>, an error pointer, a pointer to the entry under the cursor, or a bad access.\<close>

datatype de_result = De_null | De_err errno | De_entry | De_oops

definition release_dir_cursor :: "xv6fs_dir_cursor \<times> fs \<Rightarrow> xv6fs_dir_cursor \<times> fs" where
  "release_dir_cursor cs =
     (case cs of (c, s) \<Rightarrow> if c_bh c \<noteq> None then (c\<lparr>c_bh := None, c_de := None\<rparr>, brelse s) else (c, s))"

definition note_empty :: "xv6fs_dir_cursor \<Rightarrow> xv6fs_dir_cursor" where
  "note_empty c =
     c\<lparr>c_first_empty := (if c_first_empty c = -1 then c_pos c else c_first_empty c),
       c_last_empty := c_pos c\<rparr>"

text \<open>\<open>unsigned int size = inode->i_size\<close>.\<close>

definition dir_size :: "fs \<Rightarrow> nat \<Rightarrow> int" where
  "dir_size s ino = i_size (xv6fs_i s ino) mod 4294967296"

definition skip_hole :: "int \<Rightarrow> xv6fs_dir_cursor \<Rightarrow> xv6fs_dir_cursor" where
  "skip_hole sz c =
     (let blk_remaining = 512 - c_pos c mod 512;
          remaining = sz - c_pos c;
          m = min blk_remaining remaining;
          last_empty = c_pos c + (m - m mod 16) - 16
      in c\<lparr>c_first_empty := (if c_first_empty c = -1 then c_pos c else c_first_empty c),
           c_last_empty := last_empty, c_pos := last_empty + 16\<rparr>)"

text \<open>
  The inner loop; the first component is \<open>Some r\<close> when the function returns
  \<open>r\<close> from inside it, \<open>None\<close> when the loop is left.
\<close>

partial_function (option) resolve_block ::
    "kernel \<Rightarrow> nat \<Rightarrow> xv6fs_dir_cursor \<Rightarrow> fs \<Rightarrow> (de_result option \<times> xv6fs_dir_cursor \<times> fs) option" where
  "resolve_block K ino c s =
     (if 0 \<le> c_pos c \<and> c_pos c < dir_size s ino \<and> c_bh c = None then
        (case xv6fs_get_block K ino (nat (c_pos c div 512)) False s of
           (Inl e, s1) \<Rightarrow> Some (Some (De_err e), c, s1)
         | (Inr (Mapped b new), s1) \<Rightarrow>
             (case sb_bread K s1 b of
                None \<Rightarrow> Some (Some (De_err EIO), c\<lparr>c_de := None\<rparr>, s1)
              | Some s2 \<Rightarrow>
                  if c_pos c mod 512 \<noteq> 0 then Some (None, c\<lparr>c_bh := Some b\<rparr>, s2)
                  else if inum (dirent_at (disk s2 b) 0) = 0
                       then Some (None, note_empty (c\<lparr>c_bh := Some b, c_de := Some 0\<rparr>), s2)
                       else Some (Some De_entry, c\<lparr>c_bh := Some b, c_de := Some 0\<rparr>, s2))
         | (Inr Unmapped, s1) \<Rightarrow> resolve_block K ino (skip_hole (dir_size s ino) c) s1)
      else Some (None, c, s))"

partial_function (option) advance_dir_cursor ::
    "kernel \<Rightarrow> nat \<Rightarrow> xv6fs_dir_cursor \<Rightarrow> fs \<Rightarrow> (de_result \<times> xv6fs_dir_cursor \<times> fs) option" where
  "advance_dir_cursor K ino c s =
     Option.bind (resolve_block K ino c s) (\<lambda>(r, c1, s1).
       case r of
         Some d \<Rightarrow> Some (d, c1, s1)
       | None \<Rightarrow>
           let c2 = c1\<lparr>c_pos := c_pos c1 + 16\<rparr>;
               blk_off = nat (c_pos c2 mod 512)
           in if dir_size s1 ino \<le> c_pos c2 then Some (De_null, release_dir_cursor (c2, s1))
              else if blk_off = 0 then
                advance_dir_cursor K ino (fst (release_dir_cursor (c2, s1)))
                  (snd (release_dir_cursor (c2, s1)))
              else case c_bh c2 of
                     None \<Rightarrow> Some (De_oops, c2, s1)
                   | Some b \<Rightarrow>
                       if XV6FS_BSIZE < blk_off + 16 then Some (De_oops, c2, s1)
                       else if inum (dirent_at (disk s1 b) blk_off) = 0
                            then advance_dir_cursor K ino (note_empty (c2\<lparr>c_de := Some blk_off\<rparr>)) s1
                            else Some (De_entry, c2\<lparr>c_de := Some blk_off\<rparr>, s1))"

definition cursor_dirent :: "fs \<Rightarrow> xv6fs_dir_cursor \<Rightarrow> xv6fs_dirent" where
  "cursor_dirent s c = dirent_at (disk s (the (c_bh c))) (the (c_de c))"

section \<open>Listing and lookup\<close>

text \<open>The result of a directory operation: a value, an error number, or a bad access.\<close>

datatype 'a dir_ret = Ret 'a | Err errno | Oops

text \<open>
  \<open>emit\<close> is the caller's \<open>dir_emit\<close>: given what it has been handed so far and
  the next name and inode number, whether it takes it.
\<close>

type_synonym emitter = "(byte list \<times> u16) list \<Rightarrow> byte list \<Rightarrow> u16 \<Rightarrow> bool"

partial_function (option) readdir_loop ::
    "kernel \<Rightarrow> nat \<Rightarrow> emitter \<Rightarrow> xv6fs_dir_cursor \<Rightarrow> fs \<Rightarrow> (byte list \<times> u16) list \<Rightarrow> int \<Rightarrow>
     (unit dir_ret \<times> (byte list \<times> u16) list \<times> int \<times> fs) option" where
  "readdir_loop K ino emit c s out pos =
     Option.bind (advance_dir_cursor K ino c s) (\<lambda>(r, c1, s1).
       case r of
         De_null \<Rightarrow> Some (Ret (), out, i_size (xv6fs_i s1 ino), snd (release_dir_cursor (c1, s1)))
       | De_err e \<Rightarrow> Some (Err e, out, pos, snd (release_dir_cursor (c1, s1)))
       | De_oops \<Rightarrow> Some (Oops, out, pos, s1)
       | De_entry \<Rightarrow>
           let de = cursor_dirent s1 c1;
               name = take (strnlen (de_name de) XV6FS_DIRSIZ) (de_name de)
           in if \<not> emit out name (inum de)
              then Some (Ret (), out, pos, snd (release_dir_cursor (c1, s1)))
              else readdir_loop K ino emit c1 s1 (out @ [(name, inum de)]) (c_pos c1 + 16))"

definition xv6fs_readdir ::
    "kernel \<Rightarrow> nat \<Rightarrow> emitter \<Rightarrow> int \<Rightarrow> fs \<Rightarrow>
     (unit dir_ret \<times> (byte list \<times> u16) list \<times> int \<times> fs) option" where
  "xv6fs_readdir K ino emit pos s = readdir_loop K ino emit (INIT_DIR_CURSOR_OFFSET pos) s [] pos"

definition name_matches :: "byte list \<Rightarrow> xv6fs_dirent \<Rightarrow> bool" where
  "name_matches name de \<longleftrightarrow>
     strnlen (de_name de) XV6FS_DIRSIZ = length name \<and>
     strncmp_eq (de_name de) name (strnlen (de_name de) XV6FS_DIRSIZ)"

partial_function (option) find_entry_loop ::
    "kernel \<Rightarrow> nat \<Rightarrow> byte list \<Rightarrow> xv6fs_dir_cursor \<Rightarrow> fs \<Rightarrow>
     (de_result \<times> xv6fs_dir_cursor \<times> fs) option" where
  "find_entry_loop K ino name c s =
     Option.bind (advance_dir_cursor K ino c s) (\<lambda>(r, c1, s1).
       case r of
         De_entry \<Rightarrow>
           if name_matches name (cursor_dirent s1 c1) then Some (De_entry, c1, s1)
           else find_entry_loop K ino name c1 s1
       | _ \<Rightarrow> Some (r, c1, s1))"

definition xv6fs_find_entry ::
    "kernel \<Rightarrow> nat \<Rightarrow> byte list \<Rightarrow> fs \<Rightarrow> (de_result \<times> xv6fs_dir_cursor \<times> fs) option" where
  "xv6fs_find_entry K ino name s = find_entry_loop K ino name INIT_DIR_CURSOR s"

text \<open>\<open>d_splice_alias\<close> passes an inode, \<open>NULL\<close> or an error pointer on to the caller.\<close>

definition xv6fs_lookup ::
    "kernel \<Rightarrow> nat \<Rightarrow> byte list \<Rightarrow> fs \<Rightarrow> (nat option dir_ret \<times> fs) option" where
  "xv6fs_lookup K dir name s =
     (if XV6FS_DIRSIZ < length name then Some (Err ENAMETOOLONG, s)
      else Option.bind (xv6fs_find_entry K dir name s) (\<lambda>(r, c, s1).
        case r of
          De_err e \<Rightarrow> Some (Err e, snd (release_dir_cursor (c, s1)))
        | De_oops \<Rightarrow> Some (Oops, s1)
        | De_null \<Rightarrow> Some (Ret None, snd (release_dir_cursor (c, s1)))
        | De_entry \<Rightarrow>
            (case xv6fs_iget K (unat (inum (cursor_dirent s1 c))) s1 of
               (Inr ino, s2) \<Rightarrow> Some (Ret (Some ino), snd (release_dir_cursor (c, s2)))
             | (Inl e, s2) \<Rightarrow> Some (Err e, snd (release_dir_cursor (c, s2))))))"

section \<open>Adding an entry\<close>

partial_function (option) scan_dir_loop ::
    "kernel \<Rightarrow> nat \<Rightarrow> xv6fs_dir_cursor \<Rightarrow> fs \<Rightarrow> (de_result \<times> xv6fs_dir_cursor \<times> fs) option" where
  "scan_dir_loop K ino c s =
     Option.bind (advance_dir_cursor K ino c s) (\<lambda>(r, c1, s1).
       case r of
         De_entry \<Rightarrow> scan_dir_loop K ino c1 s1
       | _ \<Rightarrow> Some (r, c1, s1))"

definition new_dirent :: "byte list \<Rightarrow> nat \<Rightarrow> xv6fs_dirent" where
  "new_dirent name ino =
     \<lparr>inum = of_nat ino,
      de_name = take (min (length name) XV6FS_DIRSIZ) name @
                replicate (XV6FS_DIRSIZ - min (length name) XV6FS_DIRSIZ) 0\<rparr>"

text \<open>The entry written into the buffer in hand, and the directory inode updated.\<close>

definition store_entry :: "nat \<Rightarrow> byte list \<Rightarrow> nat \<Rightarrow> int \<Rightarrow> nat \<Rightarrow> fs \<Rightarrow> unit dir_ret \<times> fs" where
  "store_entry dir name ino write_pos b s =
     (let blk_off = nat (write_pos mod 512)
      in if XV6FS_BSIZE < blk_off + 16 then (Oops, s)
         else
           let s1 = brelse (mark_buffer_dirty b
                      (b_store b (put_dirent blk_off (new_dirent name ino) (disk s b)) s));
               s2 = (if i_size (xv6fs_i s1 dir) < write_pos + 16
                     then set_inode dir ((xv6fs_i s1 dir)\<lparr>i_size := write_pos + 16\<rparr>) s1 else s1)
           in (Ret (), mark_inode_dirty dir s2))"

definition dir_write_entry :: "kernel \<Rightarrow> nat \<Rightarrow> byte list \<Rightarrow> nat \<Rightarrow> int \<Rightarrow> fs \<Rightarrow> unit dir_ret \<times> fs" where
  "dir_write_entry K dir name ino write_pos s =
     (case xv6fs_get_block K dir (nat (write_pos div 512)) True s of
        (Inl e, s1) \<Rightarrow> (Err e, s1)
      | (Inr r, s1) \<Rightarrow>
          (case (case r of Mapped b new \<Rightarrow> (b, new) | Unmapped \<Rightarrow> (0, False)) of
             (b, True) \<Rightarrow>
               (case sb_getblk K s1 b of
                  None \<Rightarrow> (Err EIO, xv6fs_bfree K b s1)
                | Some s2 \<Rightarrow> store_entry dir name ino write_pos b (b_store b (replicate XV6FS_BSIZE 0) s2))
           | (b, False) \<Rightarrow>
               (case sb_bread K s1 b of
                  None \<Rightarrow> (Err EIO, s1)
                | Some s2 \<Rightarrow> store_entry dir name ino write_pos b s2)))"

definition xv6fs_dir_add_entry ::
    "kernel \<Rightarrow> nat \<Rightarrow> byte list \<Rightarrow> nat \<Rightarrow> fs \<Rightarrow> (unit dir_ret \<times> fs) option" where
  "xv6fs_dir_add_entry K dir name ino s =
     (if XV6FS_DIRSIZ < length name then Some (Err ENAMETOOLONG, s)
      else Option.bind (scan_dir_loop K dir INIT_DIR_CURSOR s) (\<lambda>(r, c, s1).
        case r of
          De_err e \<Rightarrow> Some (Err e, snd (release_dir_cursor (c, s1)))
        | De_oops \<Rightarrow> Some (Oops, s1)
        | _ \<Rightarrow>
            let s2 = snd (release_dir_cursor (c, s1));
                write_pos = (if c_first_empty c < 0 then i_size (xv6fs_i s2 dir) else c_first_empty c)
            in Some (dir_write_entry K dir name ino write_pos s2)))"

section \<open>Emptiness\<close>

partial_function (option) dir_is_empty_loop ::
    "kernel \<Rightarrow> nat \<Rightarrow> nat \<Rightarrow> xv6fs_dir_cursor \<Rightarrow> fs \<Rightarrow> (bool dir_ret \<times> fs) option" where
  "dir_is_empty_loop K ino count c s =
     Option.bind (advance_dir_cursor K ino c s) (\<lambda>(r, c1, s1).
       case r of
         De_null \<Rightarrow> Some (Ret True, snd (release_dir_cursor (c1, s1)))
       | De_err e \<Rightarrow> Some (Ret False, snd (release_dir_cursor (c1, s1)))
       | De_oops \<Rightarrow> Some (Oops, s1)
       | De_entry \<Rightarrow>
           if 2 < Suc count then Some (Ret False, snd (release_dir_cursor (c1, s1)))
           else dir_is_empty_loop K ino (Suc count) c1 s1)"

definition xv6fs_dir_is_empty :: "kernel \<Rightarrow> nat \<Rightarrow> fs \<Rightarrow> (bool dir_ret \<times> fs) option" where
  "xv6fs_dir_is_empty K ino s = dir_is_empty_loop K ino 0 INIT_DIR_CURSOR s"

section \<open>Directory operations\<close>

definition inode_inc_link_count :: "nat \<Rightarrow> fs \<Rightarrow> fs" where
  "inode_inc_link_count ino s = mark_inode_dirty ino (set_nlink ino (i_nlink (xv6fs_i s ino) + 1) s)"

definition inode_dec_link_count :: "nat \<Rightarrow> fs \<Rightarrow> fs" where
  "inode_dec_link_count ino s = mark_inode_dirty ino (set_nlink ino (i_nlink (xv6fs_i s ino) - 1) s)"

definition xv6fs_create ::
    "kernel \<Rightarrow> nat \<Rightarrow> byte list \<Rightarrow> u16 \<Rightarrow> fs \<Rightarrow> (nat dir_ret \<times> fs) option" where
  "xv6fs_create K dir name mode s =
     (case xv6fs_new_inode K mode s of
        (Inl e, s1) \<Rightarrow> Some (Err e, s1)
      | (Inr ino, s1) \<Rightarrow>
          Option.bind (xv6fs_dir_add_entry K dir name ino s1) (\<lambda>(r, s2).
            case r of
              Ret _ \<Rightarrow> Some (Ret ino, s2)
            | Err e \<Rightarrow> Some (Err e, discard_inode K ino s2)
            | Oops \<Rightarrow> Some (Oops, s2)))"

text \<open>The three insertions of \<open>xv6fs_mkdir\<close>, stopping at the first that fails.\<close>

fun add_entries ::
    "kernel \<Rightarrow> (nat \<times> byte list \<times> nat) list \<Rightarrow> fs \<Rightarrow> (unit dir_ret \<times> fs) option" where
  "add_entries K [] s = Some (Ret (), s)"
| "add_entries K ((dir, name, ino) # es) s =
     Option.bind (xv6fs_dir_add_entry K dir name ino s) (\<lambda>(r, s1).
       case r of Ret _ \<Rightarrow> add_entries K es s1 | _ \<Rightarrow> Some (r, s1))"

definition xv6fs_mkdir ::
    "kernel \<Rightarrow> nat \<Rightarrow> byte list \<Rightarrow> u16 \<Rightarrow> fs \<Rightarrow> (nat dir_ret \<times> fs) option" where
  "xv6fs_mkdir K dir name mode s =
     (case xv6fs_new_inode K (S_IFDIR OR mode) s of
        (Inl e, s1) \<Rightarrow> Some (Err e, s1)
      | (Inr ino, s1) \<Rightarrow>
          Option.bind (add_entries K [(ino, [46], ino), (ino, [46, 46], dir), (dir, name, ino)] s1)
            (\<lambda>(r, s2).
              case r of
                Ret _ \<Rightarrow> Some (Ret ino, inode_inc_link_count dir s2)
              | Err e \<Rightarrow> Some (Err e, discard_inode K ino s2)
              | Oops \<Rightarrow> Some (Oops, s2)))"

text \<open>\<open>ino\<close> is the inode of the dentry to remove.\<close>

definition xv6fs_unlink ::
    "kernel \<Rightarrow> nat \<Rightarrow> byte list \<Rightarrow> nat \<Rightarrow> fs \<Rightarrow> (unit dir_ret \<times> fs) option" where
  "xv6fs_unlink K dir name ino s =
     Option.bind (xv6fs_find_entry K dir name s) (\<lambda>(r, c, s1).
       case r of
         De_err e \<Rightarrow> Some (Err e, snd (release_dir_cursor (c, s1)))
       | De_oops \<Rightarrow> Some (Oops, s1)
       | De_null \<Rightarrow> Some (Err ENOENT, snd (release_dir_cursor (c, s1)))
       | De_entry \<Rightarrow>
           let b = the (c_bh c);
               s2 = b_store b (put_dirent (the (c_de c))
                      \<lparr>inum = 0, de_name = replicate XV6FS_DIRSIZ 0\<rparr> (disk s1 b)) s1;
               s3 = snd (release_dir_cursor (c, mark_buffer_dirty b s2))
           in Some (Ret (), inode_dec_link_count ino s3))"

definition xv6fs_rmdir ::
    "kernel \<Rightarrow> nat \<Rightarrow> byte list \<Rightarrow> nat \<Rightarrow> fs \<Rightarrow> (unit dir_ret \<times> fs) option" where
  "xv6fs_rmdir K dir name ino s =
     Option.bind (xv6fs_dir_is_empty K ino s) (\<lambda>(e, s1).
       case e of
         Oops \<Rightarrow> Some (Oops, s1)
       | Err x \<Rightarrow> Some (Err x, s1)
       | Ret is_empty \<Rightarrow>
           if \<not> is_empty then Some (Err ENOTEMPTY, s1)
           else Option.bind (xv6fs_unlink K dir name ino s1) (\<lambda>(r, s2).
             case r of
               Ret _ \<Rightarrow> Some (Ret (), inode_dec_link_count dir (inode_dec_link_count ino s2))
             | _ \<Rightarrow> Some (r, s2)))"

definition xv6fs_link ::
    "kernel \<Rightarrow> nat \<Rightarrow> nat \<Rightarrow> byte list \<Rightarrow> fs \<Rightarrow> (unit dir_ret \<times> fs) option" where
  "xv6fs_link K ino dir name s =
     (if S_ISDIR (i_mode (xv6fs_i s ino)) then Some (Err EPERM, s)
      else if 65535 \<le> i_nlink (xv6fs_i s ino) then Some (Err EMLINK, s)
      else Option.bind (xv6fs_dir_add_entry K dir name ino s) (\<lambda>(r, s1).
        case r of
          Ret _ \<Rightarrow> Some (Ret (), inode_inc_link_count ino s1)
        | _ \<Rightarrow> Some (r, s1)))"

section \<open>The abstract directory\<close>

text \<open>Slot \<open>i\<close> of a directory is the entry at byte position \<open>16 * i\<close>; \<open>None\<close> in a hole.\<close>

definition slot_at :: "fs \<Rightarrow> nat \<Rightarrow> nat \<Rightarrow> xv6fs_dirent option" where
  "slot_at s ino i =
     map_option (\<lambda>b. dirent_at (disk s b) (16 * (i mod 32))) (file_map s ino (i div 32))"

definition live :: "fs \<Rightarrow> nat \<Rightarrow> nat \<Rightarrow> bool" where
  "live s ino i = (case slot_at s ino i of None \<Rightarrow> False | Some de \<Rightarrow> inum de \<noteq> 0)"

definition nslots :: "fs \<Rightarrow> nat \<Rightarrow> nat" where
  "nslots s ino = nat (i_size (xv6fs_i s ino)) div 16"

text \<open>
  A well-formed directory: whole entries, a size the block map can hold, and
  blocks that can be read.
\<close>

definition dir_ok :: "kernel \<Rightarrow> fs \<Rightarrow> nat \<Rightarrow> bool" where
  "dir_ok K s ino \<longleftrightarrow>
     0 \<le> i_size (xv6fs_i s ino) \<and> i_size (xv6fs_i s ino) \<le> 71680 \<and>
     i_size (xv6fs_i s ino) mod 16 = 0 \<and>
     (\<forall>l b. file_map s ino l = Some b \<longrightarrow> sb_bread_ok K b) \<and>
     (i_addrs (xv6fs_i s ino) ! 12 \<noteq> 0 \<longrightarrow> sb_bread_ok K (unat (i_addrs (xv6fs_i s ino) ! 12)))"

text \<open>
  The plain scan of an array of slots from slot \<open>i\<close> on: the first live slot,
  and the position of the first free one unless one was known.
\<close>

function ref_scan :: "(nat \<Rightarrow> bool) \<Rightarrow> nat \<Rightarrow> nat \<Rightarrow> int \<Rightarrow> nat option \<times> int" where
  "ref_scan lv n i fe =
     (if i < n then
        if lv i then (Some i, fe)
        else ref_scan lv n (Suc i) (if fe = -1 then 16 * int i else fe)
      else (None, fe))"
  by pat_completeness auto
termination
  by (relation "measure (\<lambda>(lv, n, i, fe). n - i)") auto

declare ref_scan.simps [simp del]

lemma ref_scan_end: "n \<le> i \<Longrightarrow> ref_scan lv n i fe = (None, fe)"
  by (simp add: ref_scan.simps)

lemma ref_scan_live: "i < n \<Longrightarrow> lv i \<Longrightarrow> ref_scan lv n i fe = (Some i, fe)"
  by (simp add: ref_scan.simps)

lemma ref_scan_dead:
  "i < n \<Longrightarrow> \<not> lv i \<Longrightarrow> ref_scan lv n i fe = ref_scan lv n (Suc i) (if fe = -1 then 16 * int i else fe)"
  by (simp add: ref_scan.simps [of lv n i])

lemma ref_scan_skip:
  "i < k \<Longrightarrow> k \<le> n \<Longrightarrow> \<forall>j. i \<le> j \<and> j < k \<longrightarrow> \<not> lv j \<Longrightarrow>
   ref_scan lv n i fe = ref_scan lv n k (if fe = -1 then 16 * int i else fe)"
proof (induction "k - i" arbitrary: i fe)
  case 0
  then show ?case by simp
next
  case (Suc m)
  have step: "ref_scan lv n i fe = ref_scan lv n (Suc i) (if fe = -1 then 16 * int i else fe)"
    using Suc.prems by (intro ref_scan_dead) auto
  show ?case
  proof (cases "Suc i = k")
    case True
    then show ?thesis using step by simp
  next
    case False
    then have "ref_scan lv n (Suc i) (if fe = -1 then 16 * int i else fe) =
        ref_scan lv n k (if (if fe = -1 then 16 * int i else fe) = -1 then 16 * int (Suc i)
          else (if fe = -1 then 16 * int i else fe))"
      using Suc.hyps(2) Suc.prems by (intro Suc.hyps(1)) auto
    then show ?thesis using step by (simp split: if_splits)
  qed
qed

section \<open>The cursor refines the plain scan\<close>

lemma dir_ok_size:
  assumes "dir_ok K s ino"
  shows "dir_size s ino = 16 * int (nslots s ino)" "i_size (xv6fs_i s ino) = 16 * int (nslots s ino)"
    "nslots s ino \<le> 4480"
proof -
  let ?z = "i_size (xv6fs_i s ino)"
  have z: "0 \<le> ?z" "?z \<le> 71680" "?z mod 16 = 0" using assms by (simp_all add: dir_ok_def)
  then show sz: "?z = 16 * int (nslots s ino)" by (simp add: nslots_def zdiv_int) presburger
  show "dir_size s ino = 16 * int (nslots s ino)" using z sz by (simp add: dir_size_def)
  show "nslots s ino \<le> 4480" using z sz by linarith
qed

lemma dir_ghost [simp]:
  "dir_size (s\<lparr>holds := h\<rparr>) ino = dir_size s ino" "slot_at (s\<lparr>holds := h\<rparr>) ino = slot_at s ino"
  "live (s\<lparr>holds := h\<rparr>) ino = live s ino" "nslots (s\<lparr>holds := h\<rparr>) ino = nslots s ino"
  "dir_ok K (s\<lparr>holds := h\<rparr>) ino = dir_ok K s ino"
  by (simp_all add: dir_size_def slot_at_def live_def nslots_def dir_ok_def fun_eq_iff)

lemma dir_lookup_block:
  assumes "dir_ok K s ino" "i < nslots s ino"
  shows "xv6fs_get_block K ino (i div 32) False s = (Inr (opt_result (file_map s ino (i div 32))), s)"
proof -
  have "i div 32 < 140" using assms dir_ok_size(3) [OF assms(1)] by linarith
  with assms(1) show ?thesis by (auto simp: get_block_lookup dir_ok_def)
qed

lemma pos_block:
  "nat (16 * int i div 512) = i div 32" "16 * int i mod 512 = 16 * int (i mod 32)"
proof -
  have "16 * int i div 512 = int (i div 32)" by (simp add: zdiv_int)
  then show "nat (16 * int i div 512) = i div 32" by simp
  have "(16 * int i) mod (16 * 32) = 16 * (int i mod 32)" by (rule mult_mod_right [symmetric])
  then show "16 * int i mod 512 = 16 * int (i mod 32)" by (simp add: zmod_int)
qed

text \<open>How the resolver leaves the cursor, starting at the block boundary of slot \<open>i\<close>.\<close>

definition resolve_post ::
    "fs \<Rightarrow> nat \<Rightarrow> nat \<Rightarrow> int \<Rightarrow> de_result option \<times> xv6fs_dir_cursor \<times> fs \<Rightarrow> bool" where
  "resolve_post s ino i fe res \<longleftrightarrow>
     (case res of (r, c', s') \<Rightarrow>
        (\<exists>j b. i \<le> j \<and> j < nslots s ino \<and> j mod 32 = 0 \<and> file_map s ino (j div 32) = Some b \<and>
           c_pos c' = 16 * int j \<and> c_bh c' = Some b \<and> c_de c' = Some 0 \<and>
           s' = s\<lparr>holds := holds s + 1\<rparr> \<and>
           (r = Some De_entry \<and> ref_scan (live s ino) (nslots s ino) i fe = (Some j, c_first_empty c') \<or>
            r = None \<and> ref_scan (live s ino) (nslots s ino) i fe =
              ref_scan (live s ino) (nslots s ino) (Suc j) (c_first_empty c'))) \<or>
        r = None \<and> c_pos c' = 16 * int (nslots s ino) \<and> c_bh c' = None \<and> s' = s \<and>
        ref_scan (live s ino) (nslots s ino) i fe = (None, c_first_empty c'))"

lemma resolve_post_mono:
  assumes "resolve_post s ino k fe' res" "i \<le> k"
    and "ref_scan (live s ino) (nslots s ino) i fe = ref_scan (live s ino) (nslots s ino) k fe'"
  shows "resolve_post s ino i fe res"
  using assms unfolding resolve_post_def by (auto split: prod.splits intro: le_trans)

lemma skip_hole_eq:
  assumes "c_pos c = 16 * int i" "i mod 32 = 0" "i < n"
  shows "skip_hole (16 * int n) c =
    c\<lparr>c_first_empty := (if c_first_empty c = -1 then 16 * int i else c_first_empty c),
      c_last_empty := 16 * int (min (i + 32) n) - 16, c_pos := 16 * int (min (i + 32) n)\<rparr>"
proof -
  let ?m = "min (512 - 16 * int i mod 512) (16 * int n - 16 * int i)"
  have "16 * int i mod 512 = 0" using assms(2) by (simp add: pos_block)
  moreover have "int (min 32 (n - i)) = min 32 (int n - int i)"
    using assms(3) by (simp add: of_nat_min of_nat_diff)
  ultimately have "?m = 16 * int (min 32 (n - i))" by (simp add: min_def)
  moreover from this have "?m mod 16 = 0" by simp
  moreover have "i + min 32 (n - i) = min (i + 32) n" using assms(3) by (auto simp: min_def)
  then have "16 * int i + 16 * int (min 32 (n - i)) = 16 * int (min (i + 32) n)"
    by (metis of_nat_add distrib_left)
  ultimately show ?thesis using assms(1) by (simp add: skip_hole_def Let_def)
qed

lemma same_block:
  assumes "i mod 32 = 0" "i \<le> j" "j < i + (32::nat)" shows "j div 32 = i div 32"
proof -
  have "i = 32 * (i div 32)" using assms(1) by auto
  then have "j = 32 * (i div 32) + (j - i)" "j - i < 32" using assms(2,3) by auto
  then show ?thesis by (metis div_mult_self4 div_less add.commute add_cancel_left_left zero_neq_numeral)
qed

lemma resolve_block_post:
  assumes "dir_ok K s ino" "c_pos c = 16 * int i" "c_bh c = None"
    and "i mod 32 = 0 \<or> i = nslots s ino" "i \<le> nslots s ino"
  shows "\<exists>res. resolve_block K ino c s = Some res \<and> resolve_post s ino i (c_first_empty c) res"
  using assms(2-5)
proof (induction "nslots s ino - i" arbitrary: i c rule: less_induct)
  case less
  let ?n = "nslots s ino"
  note sz = dir_ok_size [OF assms(1)]
  show ?case
  proof (cases "i = ?n")
    case True
    then have "resolve_block K ino c s = Some (None, c, s)"
      using less.prems by (simp add: resolve_block.simps [of K ino c s] sz)
    then show ?thesis using True less.prems by (simp add: resolve_post_def ref_scan_end)
  next
    case False
    then have i: "i < ?n" "i mod 32 = 0" using less.prems by auto
    have look: "xv6fs_get_block K ino (nat (c_pos c div 512)) False s =
        (Inr (opt_result (file_map s ino (i div 32))), s)"
      using dir_lookup_block [OF assms(1) i(1)] less.prems(1) pos_block(1) by simp
    have unf: "resolve_block K ino c s = (case xv6fs_get_block K ino (nat (c_pos c div 512)) False s of
           (Inl e, s1) \<Rightarrow> Some (Some (De_err e), c, s1)
         | (Inr (Mapped b new), s1) \<Rightarrow>
             (case sb_bread K s1 b of
                None \<Rightarrow> Some (Some (De_err EIO), c\<lparr>c_de := None\<rparr>, s1)
              | Some s2 \<Rightarrow>
                  if c_pos c mod 512 \<noteq> 0 then Some (None, c\<lparr>c_bh := Some b\<rparr>, s2)
                  else if inum (dirent_at (disk s2 b) 0) = 0
                       then Some (None, note_empty (c\<lparr>c_bh := Some b, c_de := Some 0\<rparr>), s2)
                       else Some (Some De_entry, c\<lparr>c_bh := Some b, c_de := Some 0\<rparr>, s2))
         | (Inr Unmapped, s1) \<Rightarrow> resolve_block K ino (skip_hole (dir_size s ino) c) s1)"
      using less.prems i by (subst resolve_block.simps) (simp add: sz)
    show ?thesis
    proof (cases "file_map s ino (i div 32)")
      case None
      let ?k = "min (i + 32) ?n"
      let ?c = "skip_hole (dir_size s ino) c"
      have c: "c_pos ?c = 16 * int ?k" "c_bh ?c = None"
        "c_first_empty ?c = (if c_first_empty c = -1 then 16 * int i else c_first_empty c)"
        using skip_hole_eq [OF less.prems(1) i(2,1)] less.prems(2) by (simp_all add: sz)
      have k: "?k mod 32 = 0 \<or> ?k = ?n" using i(2) by (simp add: min_def)
      have "\<exists>res. resolve_block K ino ?c s = Some res \<and> resolve_post s ino ?k (c_first_empty ?c) res"
        using i(1) c(1,2) k by (intro less.hyps) auto
      moreover have "\<not> live s ino j" if "i \<le> j" "j < ?k" for j
      proof -
        have "j < i + 32" using that(2) by simp
        then have "j div 32 = i div 32" using same_block [OF i(2) that(1)] by simp
        with None show ?thesis by (simp add: live_def slot_at_def)
      qed
      then have "ref_scan (live s ino) ?n i (c_first_empty c) =
          ref_scan (live s ino) ?n ?k (c_first_empty ?c)"
        unfolding c(3) using i by (intro ref_scan_skip) auto
      ultimately show ?thesis
        using unf look None resolve_post_mono [of s ino ?k "c_first_empty ?c" _ i] i
        by (auto simp: opt_result_def)
    next
      case (Some b)
      have "sb_bread_ok K b" using assms(1) Some by (auto simp: dir_ok_def)
      moreover have "c_pos c mod 512 = 0" using less.prems(1) i(2) by (simp add: pos_block)
      moreover have "slot_at s ino i = Some (dirent_at (disk s b) 0)" using Some i(2) by (simp add: slot_at_def)
      ultimately show ?thesis using unf look Some i less.prems
        by (auto simp: opt_result_def sb_bread_def resolve_post_def live_def note_empty_def
              ref_scan_live ref_scan_dead)
    qed
  qed
qed

text \<open>
  The cursor stands just before slot \<open>i\<close>: at the start, or on slot \<open>i - 1\<close>
  with its block in hand.
\<close>

definition cursor_at :: "fs \<Rightarrow> nat \<Rightarrow> nat \<Rightarrow> xv6fs_dir_cursor \<Rightarrow> bool" where
  "cursor_at s ino i c \<longleftrightarrow>
     c_pos c = 16 * int i - 16 \<and> i \<le> nslots s ino \<and>
     (if i = 0 then c_bh c = None
      else \<exists>b. c_bh c = Some b \<and> file_map s ino ((i - 1) div 32) = Some b)"

definition cursor_base :: "xv6fs_dir_cursor \<Rightarrow> fs \<Rightarrow> fs" where
  "cursor_base c s = s\<lparr>holds := holds s - held (c_bh c)\<rparr>"

text \<open>What a call of the cursor computes from slot \<open>i\<close> on.\<close>

definition advance_post ::
    "fs \<Rightarrow> nat \<Rightarrow> nat \<Rightarrow> int \<Rightarrow> de_result \<times> xv6fs_dir_cursor \<times> fs \<Rightarrow> bool" where
  "advance_post s0 ino i fe res \<longleftrightarrow>
     (case res of (r, c', s') \<Rightarrow>
        cursor_base c' s' = s0 \<and>
        (case ref_scan (live s0 ino) (nslots s0 ino) i fe of
           (Some j, fe') \<Rightarrow>
             r = De_entry \<and> i \<le> j \<and> cursor_at s0 ino (Suc j) c' \<and>
             c_de c' = Some (16 * (j mod 32)) \<and> c_first_empty c' = fe'
         | (None, fe') \<Rightarrow> r = De_null \<and> c_bh c' = None \<and> c_first_empty c' = fe'))"

lemma advance_post_mono:
  "advance_post s0 ino k fe' res \<Longrightarrow> i \<le> k \<Longrightarrow>
   ref_scan (live s0 ino) (nslots s0 ino) i fe = ref_scan (live s0 ino) (nslots s0 ino) k fe' \<Longrightarrow>
   advance_post s0 ino i fe res"
  unfolding advance_post_def by (auto split: prod.splits option.splits)

lemma resolve_idle:
  "c_bh c \<noteq> None \<or> c_pos c < 0 \<or> dir_size s ino \<le> c_pos c \<Longrightarrow>
   resolve_block K ino c s = Some (None, c, s)"
  by (subst resolve_block.simps) auto

lemma advance_after_resolve:
  assumes "resolve_block K ino c s = Some (None, c', s')"
    and "c_bh c' \<noteq> None \<or> c_pos c' < 0 \<or> dir_size s' ino \<le> c_pos c'"
  shows "advance_dir_cursor K ino c s = advance_dir_cursor K ino c' s'"
  using assms(1) resolve_idle [OF assms(2), of K]
  by (simp add: advance_dir_cursor.simps [of K ino c s] advance_dir_cursor.simps [of K ino c' s'])

lemma cursor_base_ghost:
  "cursor_base c s = s0 \<Longrightarrow> s = s0\<lparr>holds := holds s0 + held (c_bh c)\<rparr>"
  by (auto simp: cursor_base_def)

text \<open>From a block boundary the cursor finishes, or goes on from a later slot.\<close>

lemma advance_boundary:
  assumes "dir_ok K s ino" "c_pos c = 16 * int i" "c_bh c = None" "i mod 32 = 0" "i < nslots s ino"
  obtains (finished) res where "advance_dir_cursor K ino c s = Some res"
      "advance_post s ino i (c_first_empty c) res"
    | (later) j c' s' where "i \<le> j" "j < nslots s ino" "cursor_at s ino (Suc j) c'" "cursor_base c' s' = s"
      "advance_dir_cursor K ino c s = advance_dir_cursor K ino c' s'"
      "ref_scan (live s ino) (nslots s ino) i (c_first_empty c) =
       ref_scan (live s ino) (nslots s ino) (Suc j) (c_first_empty c')"
proof -
  obtain r c' s' where res: "resolve_block K ino c s = Some (r, c', s')"
    and post: "resolve_post s ino i (c_first_empty c) (r, c', s')"
    using resolve_block_post [OF assms(1-3)] assms(4,5) by fastforce
  from post consider
    (entry) j b where "i \<le> j" "j < nslots s ino" "32 dvd j" "file_map s ino (j div 32) = Some b"
      "c_pos c' = 16 * int j" "c_bh c' = Some b" "c_de c' = Some 0" "s' = s\<lparr>holds := holds s + 1\<rparr>"
      "r = Some De_entry" "ref_scan (live s ino) (nslots s ino) i (c_first_empty c) = (Some j, c_first_empty c')"
  | (dead) j b where "i \<le> j" "j < nslots s ino" "file_map s ino (j div 32) = Some b"
      "c_pos c' = 16 * int j" "c_bh c' = Some b" "s' = s\<lparr>holds := holds s + 1\<rparr>" "r = None"
      "ref_scan (live s ino) (nslots s ino) i (c_first_empty c) =
       ref_scan (live s ino) (nslots s ino) (Suc j) (c_first_empty c')"
  | (holes) "r = None" "c_pos c' = 16 * int (nslots s ino)" "c_bh c' = None" "s' = s"
      "ref_scan (live s ino) (nslots s ino) i (c_first_empty c) = (None, c_first_empty c')"
    unfolding resolve_post_def by auto
  then show thesis
  proof cases
    case entry
    then have "advance_dir_cursor K ino c s = Some (De_entry, c', s')"
      using res by (simp add: advance_dir_cursor.simps [of K ino c s])
    moreover have "advance_post s ino i (c_first_empty c) (De_entry, c', s')"
      using entry by (simp add: advance_post_def cursor_base_def cursor_at_def)
    ultimately show thesis by (rule finished)
  next
    case dead
    have "advance_dir_cursor K ino c s = advance_dir_cursor K ino c' s'"
      using res dead by (intro advance_after_resolve) simp_all
    then show thesis using dead
      by (intro later [of j c' s']) (simp_all add: cursor_at_def cursor_base_def)
  next
    case holes
    have sz: "dir_size s ino = 16 * int (nslots s ino)" by (rule dir_ok_size(1) [OF assms(1)])
    have "advance_dir_cursor K ino c s = Some (De_null, c'\<lparr>c_pos := c_pos c' + 16\<rparr>, s)"
      using res holes sz
      by (simp add: advance_dir_cursor.simps [of K ino c s] Let_def release_dir_cursor_def)
    moreover have "advance_post s ino i (c_first_empty c) (De_null, c'\<lparr>c_pos := c_pos c' + 16\<rparr>, s)"
      using holes by (simp add: advance_post_def cursor_base_def)
    ultimately show thesis by (rule finished)
  qed
qed

text \<open>The cursor standing before slot \<open>i\<close>, moved to it inside its block.\<close>

lemma advance_in_block:
  assumes "dir_ok K s0 ino" "cursor_at s0 ino i c" "cursor_base c s = s0"
    and "i < nslots s0 ino" "i mod 32 \<noteq> 0"
  obtains b where "file_map s0 ino (i div 32) = Some b" "c_bh c = Some b"
    "advance_dir_cursor K ino c s =
      (if live s0 ino i then Some (De_entry, c\<lparr>c_pos := 16 * int i, c_de := Some (16 * (i mod 32))\<rparr>, s)
       else advance_dir_cursor K ino
              (note_empty (c\<lparr>c_pos := 16 * int i, c_de := Some (16 * (i mod 32))\<rparr>)) s)"
proof -
  have i0: "i \<noteq> 0" using assms(5) by (cases i) auto
  have blk: "(i - 1) div 32 = i div 32"
  proof -
    obtain k where k: "i = Suc k" using i0 by (cases i) auto
    then show ?thesis using assms(5) div_Suc [of k 32] by simp
  qed
  from assms(2) i0 obtain b where b: "c_bh c = Some b" "file_map s0 ino (i div 32) = Some b"
    and pos: "c_pos c = 16 * int i - 16"
    unfolding cursor_at_def blk by auto
  have s: "s = s0\<lparr>holds := holds s0 + 1\<rparr>" using cursor_base_ghost [OF assms(3)] b by simp
  have sz: "dir_size s ino = 16 * int (nslots s0 ino)" using dir_ok_size(1) [OF assms(1)] s by simp
  have off: "nat (16 * int i mod 512) = 16 * (i mod 32)" by (simp add: pos_block nat_mult_distrib)
  have fit: "16 * (i mod 32) + 16 \<le> 512" using mod_less_divisor [of 32 i] by linarith
  have lv: "live s0 ino i \<longleftrightarrow> inum (dirent_at (disk s b) (16 * (i mod 32))) \<noteq> 0"
    using b(2) s by (simp add: live_def slot_at_def)
  have "resolve_block K ino c s = Some (None, c, s)" using b by (intro resolve_idle) simp
  then have "advance_dir_cursor K ino c s =
      (if live s0 ino i then Some (De_entry, c\<lparr>c_pos := 16 * int i, c_de := Some (16 * (i mod 32))\<rparr>, s)
       else advance_dir_cursor K ino
              (note_empty (c\<lparr>c_pos := 16 * int i, c_de := Some (16 * (i mod 32))\<rparr>)) s)"
    using pos sz off fit assms(4,5) b(1) lv
    by (subst advance_dir_cursor.simps) (simp add: Let_def)
  with b show thesis by (intro that)
qed

lemma advance_refines_scan:
  assumes "dir_ok K s0 ino" "cursor_at s0 ino i c" "cursor_base c s = s0"
  shows "\<exists>res. advance_dir_cursor K ino c s = Some res \<and> advance_post s0 ino i (c_first_empty c) res"
  using assms(2,3)
proof (induction "nslots s0 ino - i" arbitrary: i c s rule: less_induct)
  case less
  let ?n = "nslots s0 ino"
  have s: "s = s0\<lparr>holds := holds s0 + held (c_bh c)\<rparr>" by (rule cursor_base_ghost [OF less.prems(2)])
  have sz: "dir_size s ino = 16 * int ?n" using dir_ok_size(1) [OF assms(1)] by (subst s) simp
  have pos: "c_pos c = 16 * int i - 16" using less.prems(1) by (simp add: cursor_at_def)
  have idle: "resolve_block K ino c s = Some (None, c, s)"
    using less.prems(1) by (intro resolve_idle) (auto simp: cursor_at_def split: if_splits)
  consider "i = ?n" | "i < ?n" "i mod 32 = 0" | "i < ?n" "i mod 32 \<noteq> 0"
    using less.prems(1) unfolding cursor_at_def by linarith
  then show ?case
  proof cases
    case 1
    let ?res = "(De_null, release_dir_cursor (c\<lparr>c_pos := 16 * int i\<rparr>, s))"
    have "advance_dir_cursor K ino c s = Some ?res"
      using idle pos sz 1 by (subst advance_dir_cursor.simps) (simp add: Let_def)
    moreover have "advance_post s0 ino i (c_first_empty c) ?res"
      using 1 s by (auto simp: advance_post_def ref_scan_end release_dir_cursor_def cursor_base_def brelse_def)
    ultimately show ?thesis by blast
  next
    case 2
    define c2 where "c2 = fst (release_dir_cursor (c\<lparr>c_pos := 16 * int i\<rparr>, s))"
    have rel: "release_dir_cursor (c\<lparr>c_pos := 16 * int i\<rparr>, s) = (c2, s0)"
      using s by (auto simp: c2_def release_dir_cursor_def brelse_def)
    have c2: "c_pos c2 = 16 * int i" "c_bh c2 = None" "c_first_empty c2 = c_first_empty c"
      by (auto simp: c2_def release_dir_cursor_def)
    have call: "advance_dir_cursor K ino c s = advance_dir_cursor K ino c2 s0"
      using idle pos sz 2 rel by (subst advance_dir_cursor.simps) (simp add: Let_def pos_block)
    show ?thesis
    proof (cases rule: advance_boundary [OF assms(1) c2(1,2) 2(2,1), case_names finished later])
      case (finished res)
      then show ?thesis using call c2(3) by auto
    next
      case (later j c' s')
      have "\<exists>res. advance_dir_cursor K ino c' s' = Some res \<and>
          advance_post s0 ino (Suc j) (c_first_empty c') res"
        using later by (intro less.hyps) auto
      then show ?thesis using later call c2(3) advance_post_mono [of s0 ino "Suc j" _ _ i] by auto
    qed
  next
    case 3
    obtain b where b: "file_map s0 ino (i div 32) = Some b" "c_bh c = Some b"
      and call: "advance_dir_cursor K ino c s =
        (if live s0 ino i then Some (De_entry, c\<lparr>c_pos := 16 * int i, c_de := Some (16 * (i mod 32))\<rparr>, s)
         else advance_dir_cursor K ino
                (note_empty (c\<lparr>c_pos := 16 * int i, c_de := Some (16 * (i mod 32))\<rparr>)) s)"
      using advance_in_block [OF assms(1) less.prems 3] .
    show ?thesis
    proof (cases "live s0 ino i")
      case True
      then show ?thesis using call b 3 less.prems(2)
        by (auto simp: advance_post_def ref_scan_live cursor_at_def cursor_base_def)
    next
      case False
      let ?c = "note_empty (c\<lparr>c_pos := 16 * int i, c_de := Some (16 * (i mod 32))\<rparr>)"
      have "cursor_at s0 ino (Suc i) ?c" "cursor_base ?c s = s0"
        using b 3 less.prems(2) by (simp_all add: cursor_at_def note_empty_def cursor_base_def)
      then have "\<exists>res. advance_dir_cursor K ino ?c s = Some res \<and>
          advance_post s0 ino (Suc i) (c_first_empty ?c) res"
        using 3(1) by (intro less.hyps) auto
      moreover have "ref_scan (live s0 ino) ?n i (c_first_empty c) =
          ref_scan (live s0 ino) ?n (Suc i) (c_first_empty ?c)"
        using ref_scan_dead [OF 3(1), of "live s0 ino"] False by (simp add: note_empty_def)
      ultimately show ?thesis using call False advance_post_mono [of s0 ino "Suc i" _ _ i] by auto
    qed
  qed
qed

section \<open>Facts on the plain scan\<close>

lemma ref_scan_Some:
  "ref_scan lv n i fe = (Some j, fe') \<Longrightarrow> i \<le> j \<and> j < n \<and> lv j \<and> (\<forall>k. i \<le> k \<and> k < j \<longrightarrow> \<not> lv k)"
proof (induction lv n i fe rule: ref_scan.induct)
  case (1 lv n i fe)
  show ?case
  proof (cases "i < n \<and> \<not> lv i")
    case True
    then have "Suc i \<le> j \<and> j < n \<and> lv j \<and> (\<forall>k. Suc i \<le> k \<and> k < j \<longrightarrow> \<not> lv k)"
      using 1 ref_scan_dead [of i n lv fe] by auto
    with True show ?thesis by (metis Suc_leD Suc_leI le_neq_implies_less)
  next
    case False
    then show ?thesis using 1(2) ref_scan_live [of i n lv fe] ref_scan_end [of n i lv fe]
      by (cases "i < n") auto
  qed
qed

lemma ref_scan_None: "ref_scan lv n i fe = (None, fe') \<Longrightarrow> i \<le> k \<Longrightarrow> k < n \<Longrightarrow> \<not> lv k"
proof (induction lv n i fe rule: ref_scan.induct)
  case (1 lv n i fe)
  then have i: "i < n" "\<not> lv i" using ref_scan_live [of i n lv fe] by auto
  show ?case
  proof (cases "k = i")
    case False
    then show ?thesis using 1 i ref_scan_dead [of i n lv fe] by simp
  qed (use i in simp)
qed

text \<open>The first free position of slots \<open>i\<close> to \<open>n - 1\<close>, unless one is known.\<close>

definition first_free :: "(nat \<Rightarrow> bool) \<Rightarrow> nat \<Rightarrow> nat \<Rightarrow> int \<Rightarrow> int" where
  "first_free lv n i fe =
     (if fe \<noteq> -1 then fe
      else case find (\<lambda>k. \<not> lv k) [i..<n] of None \<Rightarrow> -1 | Some k \<Rightarrow> 16 * int k)"

lemma first_free_live: "lv i \<Longrightarrow> first_free lv n (Suc i) fe = first_free lv n i fe"
  by (cases "i < n") (simp_all add: first_free_def upt_conv_Cons)

lemma first_free_dead:
  "i < n \<Longrightarrow> \<not> lv i \<Longrightarrow> first_free lv n (Suc i) (if fe = -1 then 16 * int i else fe) = first_free lv n i fe"
  by (simp add: first_free_def upt_conv_Cons)

lemma ref_scan_first_free:
  "ref_scan lv n i fe = (Some j, fe') \<Longrightarrow> first_free lv n i fe = first_free lv n (Suc j) fe'"
  "ref_scan lv n i fe = (None, fe') \<Longrightarrow> first_free lv n i fe = fe'"
proof (induction lv n i fe rule: ref_scan.induct)
  case (1 lv n i fe)
  {
    case 1
    then show ?case
      using "1.IH"(1) ref_scan_dead [of i n lv fe] ref_scan_live [of i n lv fe] ref_scan_end [of n i lv fe]
        first_free_live [of lv i n fe] first_free_dead [of i n lv fe]
      by (cases "i < n"; cases "lv i") auto
  next
    case 2
    then show ?case
      using "1.IH"(2) ref_scan_dead [of i n lv fe] ref_scan_live [of i n lv fe] ref_scan_end [of n i lv fe]
        first_free_dead [of i n lv fe]
      by (cases "i < n"; cases "lv i") (auto simp: first_free_def)
  }
qed

section \<open>The loops over the cursor\<close>

lemma cursor_at_init: "cursor_at s ino 0 INIT_DIR_CURSOR" "cursor_base INIT_DIR_CURSOR s = s"
  "c_first_empty INIT_DIR_CURSOR = -1"
  by (simp_all add: cursor_at_def cursor_base_def INIT_DIR_CURSOR_def INIT_DIR_CURSOR_OFFSET_def)

text \<open>One step of a loop: the next live slot under the cursor, or the end.\<close>

lemma advance_cases:
  assumes "dir_ok K s0 ino" "cursor_at s0 ino i c" "cursor_base c s = s0"
  obtains (entry) j c' s' where "advance_dir_cursor K ino c s = Some (De_entry, c', s')"
      "i \<le> j" "j < nslots s0 ino" "live s0 ino j" "\<forall>k. i \<le> k \<and> k < j \<longrightarrow> \<not> live s0 ino k"
      "cursor_at s0 ino (Suc j) c'" "cursor_base c' s' = s0"
      "slot_at s0 ino j = Some (cursor_dirent s' c')" "c_de c' = Some (16 * (j mod 32))"
      "first_free (live s0 ino) (nslots s0 ino) i (c_first_empty c) =
       first_free (live s0 ino) (nslots s0 ino) (Suc j) (c_first_empty c')"
    | (over) c' where "advance_dir_cursor K ino c s = Some (De_null, c', s0)"
      "\<forall>k. i \<le> k \<and> k < nslots s0 ino \<longrightarrow> \<not> live s0 ino k" "c_bh c' = None"
      "c_first_empty c' = first_free (live s0 ino) (nslots s0 ino) i (c_first_empty c)"
proof -
  obtain r c' s' where call: "advance_dir_cursor K ino c s = Some (r, c', s')"
    and post: "advance_post s0 ino i (c_first_empty c) (r, c', s')"
    using advance_refines_scan [OF assms] by (metis surj_pair)
  obtain x fe where scan: "ref_scan (live s0 ino) (nslots s0 ino) i (c_first_empty c) = (x, fe)"
    by fastforce
  have base: "cursor_base c' s' = s0" using post by (simp add: advance_post_def)
  show thesis
  proof (cases x)
    case None
    have n: "r = De_null" "c_bh c' = None" "c_first_empty c' = fe"
      using post scan None by (simp_all add: advance_post_def)
    have "s' = s0" using base n(2) by (simp add: cursor_base_def)
    then show thesis
      using call n ref_scan_None [OF scan [unfolded None]] ref_scan_first_free(2) [OF scan [unfolded None]]
      by (intro over) simp_all
  next
    case (Some j)
    note sc = ref_scan_Some [OF scan [unfolded Some]]
    have e: "r = De_entry" "cursor_at s0 ino (Suc j) c'" "c_de c' = Some (16 * (j mod 32))"
      "c_first_empty c' = fe"
      using post scan Some by (simp_all add: advance_post_def)
    then obtain b where "c_bh c' = Some b" "file_map s0 ino (j div 32) = Some b"
      by (auto simp: cursor_at_def)
    moreover have "disk s' = disk s0" using base by (auto simp: cursor_base_def)
    ultimately have "slot_at s0 ino j = Some (cursor_dirent s' c')"
      using e(3) by (simp add: slot_at_def cursor_dirent_def)
    then show thesis
      using call e sc base ref_scan_first_free(1) [OF scan [unfolded Some]] by (intro entry [of c' s' j]) simp_all
  qed
qed

lemma find_upt_skip:
  "i \<le> j \<Longrightarrow> \<forall>k. i \<le> k \<and> k < j \<longrightarrow> \<not> P k \<Longrightarrow> find P [i..<n] = find P [j..<n]"
proof (induction "j - i" arbitrary: i)
  case (Suc m)
  then have "find P [i..<n] = find P [Suc i..<n]" by (cases "i < n") (simp_all add: upt_conv_Cons)
  also have "\<dots> = find P [j..<n]" using Suc by (intro Suc.hyps(1)) auto
  finally show ?case .
qed simp

lemma filter_upt_skip:
  "i \<le> j \<Longrightarrow> \<forall>k. i \<le> k \<and> k < j \<longrightarrow> \<not> P k \<Longrightarrow> filter P [i..<n] = filter P [j..<n]"
proof (induction "j - i" arbitrary: i)
  case (Suc m)
  then have "filter P [i..<n] = filter P [Suc i..<n]" by (cases "i < n") (simp_all add: upt_conv_Cons)
  also have "\<dots> = filter P [j..<n]" using Suc by (intro Suc.hyps(1)) auto
  finally show ?case .
qed simp

text \<open>The live slots from slot \<open>i\<close> on, and the first of them that carries a name.\<close>

definition live_slots :: "fs \<Rightarrow> nat \<Rightarrow> nat \<Rightarrow> nat list" where
  "live_slots s ino i = filter (live s ino) [i..<nslots s ino]"

definition has_name :: "fs \<Rightarrow> nat \<Rightarrow> byte list \<Rightarrow> nat \<Rightarrow> bool" where
  "has_name s ino name k \<longleftrightarrow> live s ino k \<and> name_matches name (the (slot_at s ino k))"

lemma live_slots_next:
  assumes "i \<le> j" "j < nslots s ino" "live s ino j" "\<forall>k. i \<le> k \<and> k < j \<longrightarrow> \<not> live s ino k"
  shows "live_slots s ino i = j # live_slots s ino (Suc j)"
  unfolding live_slots_def filter_upt_skip [OF assms(1,4)] upt_conv_Cons [OF assms(2)]
  using assms(3) by simp

lemma live_slots_none:
  "\<forall>k. i \<le> k \<and> k < nslots s ino \<longrightarrow> \<not> live s ino k \<Longrightarrow> live_slots s ino i = []"
  by (simp add: live_slots_def filter_empty_conv)

text \<open>What a search by name returns from slot \<open>i\<close> on.\<close>

definition found_at ::
    "fs \<Rightarrow> nat \<Rightarrow> nat option \<Rightarrow> de_result \<times> xv6fs_dir_cursor \<times> fs \<Rightarrow> bool" where
  "found_at s0 ino x res \<longleftrightarrow>
     (case res of (r, c', s') \<Rightarrow>
        cursor_base c' s' = s0 \<and>
        (case x of
           None \<Rightarrow> r = De_null \<and> c_bh c' = None
         | Some j \<Rightarrow> r = De_entry \<and> cursor_at s0 ino (Suc j) c' \<and> c_de c' = Some (16 * (j mod 32)) \<and>
                     slot_at s0 ino j = Some (cursor_dirent s' c')))"

lemma find_entry_loop_post:
  assumes "dir_ok K s0 ino" "cursor_at s0 ino i c" "cursor_base c s = s0"
  shows "\<exists>res. find_entry_loop K ino name c s = Some res \<and>
    found_at s0 ino (find (has_name s0 ino name) [i..<nslots s0 ino]) res"
  using assms(2,3)
proof (induction "nslots s0 ino - i" arbitrary: i c s rule: less_induct)
  case less
  show ?case
  proof (cases rule: advance_cases [OF assms(1) less.prems, case_names entry over])
    case (entry j c' s')
    have skip: "find (has_name s0 ino name) [i..<nslots s0 ino] =
        (if has_name s0 ino name j then Some j
         else find (has_name s0 ino name) [Suc j..<nslots s0 ino])"
      using find_upt_skip [OF entry(2), of "has_name s0 ino name"] entry(3,5)
      by (simp add: has_name_def upt_conv_Cons)
    have m: "has_name s0 ino name j \<longleftrightarrow> name_matches name (cursor_dirent s' c')"
      using entry(4,8) by (simp add: has_name_def)
    show ?thesis
    proof (cases "has_name s0 ino name j")
      case True
      then have "find_entry_loop K ino name c s = Some (De_entry, c', s')"
        using entry(1) m by (subst find_entry_loop.simps) simp
      then show ?thesis using True skip entry by (simp add: found_at_def)
    next
      case False
      then have "find_entry_loop K ino name c s = find_entry_loop K ino name c' s'"
        using entry(1) m by (subst find_entry_loop.simps) simp
      moreover have "\<exists>res. find_entry_loop K ino name c' s' = Some res \<and>
          found_at s0 ino (find (has_name s0 ino name) [Suc j..<nslots s0 ino]) res"
        using entry by (intro less.hyps) auto
      ultimately show ?thesis using False skip by simp
    qed
  next
    case (over c')
    then have "find (has_name s0 ino name) [i..<nslots s0 ino] = None"
      by (auto simp: find_None_iff has_name_def)
    moreover have "find_entry_loop K ino name c s = Some (De_null, c', s0)"
      using over(1) by (subst find_entry_loop.simps) simp
    ultimately show ?thesis using over by (simp add: found_at_def cursor_base_def)
  qed
qed

lemma scan_dir_loop_post:
  assumes "dir_ok K s0 ino" "cursor_at s0 ino i c" "cursor_base c s = s0"
  shows "\<exists>c'. scan_dir_loop K ino c s = Some (De_null, c', s0) \<and> c_bh c' = None \<and>
    c_first_empty c' = first_free (live s0 ino) (nslots s0 ino) i (c_first_empty c)"
  using assms(2,3)
proof (induction "nslots s0 ino - i" arbitrary: i c s rule: less_induct)
  case less
  show ?case
  proof (cases rule: advance_cases [OF assms(1) less.prems, case_names entry over])
    case (entry j c' s')
    have "scan_dir_loop K ino c s = scan_dir_loop K ino c' s'"
      using entry(1) by (subst scan_dir_loop.simps) simp
    moreover have "\<exists>c''. scan_dir_loop K ino c' s' = Some (De_null, c'', s0) \<and> c_bh c'' = None \<and>
        c_first_empty c'' = first_free (live s0 ino) (nslots s0 ino) (Suc j) (c_first_empty c')"
      using entry by (intro less.hyps) auto
    ultimately show ?thesis using entry(10) by simp
  next
    case (over c')
    then have "scan_dir_loop K ino c s = Some (De_null, c', s0)"
      by (subst scan_dir_loop.simps) simp
    with over show ?thesis by simp
  qed
qed

lemma dir_is_empty_loop_eq:
  assumes "dir_ok K s0 ino" "cursor_at s0 ino i c" "cursor_base c s = s0" "count \<le> 2"
  shows "dir_is_empty_loop K ino count c s =
    Some (Ret (count + length (live_slots s0 ino i) \<le> 2), s0)"
  using assms(2-4)
proof (induction "nslots s0 ino - i" arbitrary: i c s count rule: less_induct)
  case less
  show ?case
  proof (cases rule: advance_cases [OF assms(1) less.prems(1,2), case_names entry over])
    case (entry j c' s')
    note nxt = live_slots_next [OF entry(2-5)]
    have rel: "snd (release_dir_cursor (c', s')) = s0"
      using cursor_base_ghost [OF entry(7)] entry(6)
      by (auto simp: release_dir_cursor_def cursor_at_def brelse_def)
    show ?thesis
    proof (cases "count = 2")
      case True
      then show ?thesis using entry(1) rel nxt by (subst dir_is_empty_loop.simps) simp
    next
      case False
      then have "dir_is_empty_loop K ino count c s = dir_is_empty_loop K ino (Suc count) c' s'"
        using entry(1) less.prems(3) by (subst dir_is_empty_loop.simps) simp
      also have "\<dots> = Some (Ret (Suc count + length (live_slots s0 ino (Suc j)) \<le> 2), s0)"
        using entry False less.prems(3) by (intro less.hyps) auto
      finally show ?thesis using nxt by simp
    qed
  next
    case (over c')
    then show ?thesis using less.prems(3) live_slots_none [of i s0 ino]
      by (subst dir_is_empty_loop.simps) (simp add: release_dir_cursor_def)
  qed
qed

section \<open>Listing\<close>

definition slot_name :: "xv6fs_dirent \<Rightarrow> byte list" where
  "slot_name de = take (strnlen (de_name de) XV6FS_DIRSIZ) (de_name de)"

text \<open>The name and inode number a listing hands out for a live slot.\<close>

definition slot_entry :: "fs \<Rightarrow> nat \<Rightarrow> nat \<Rightarrow> byte list \<times> u16" where
  "slot_entry s ino i = (slot_name (the (slot_at s ino i)), inum (the (slot_at s ino i)))"

text \<open>The emitter applied to a list of slots, with the position it leaves.\<close>

fun emit_slots ::
    "fs \<Rightarrow> nat \<Rightarrow> emitter \<Rightarrow> nat list \<Rightarrow> (byte list \<times> u16) list \<Rightarrow> int \<Rightarrow> (byte list \<times> u16) list \<times> int" where
  "emit_slots s ino emit [] out pos = (out, i_size (xv6fs_i s ino))"
| "emit_slots s ino emit (i # is) out pos =
     (if emit out (fst (slot_entry s ino i)) (snd (slot_entry s ino i))
      then emit_slots s ino emit is (out @ [slot_entry s ino i]) (16 * int i + 16)
      else (out, pos))"

lemma release_to_base:
  assumes "cursor_at s0 ino (Suc j) c" "cursor_base c s = s0"
  shows "snd (release_dir_cursor (c, s)) = s0"
  using cursor_base_ghost [OF assms(2)] assms(1)
  by (auto simp: release_dir_cursor_def cursor_at_def brelse_def)

lemma readdir_loop_eq:
  assumes "dir_ok K s0 ino" "cursor_at s0 ino i c" "cursor_base c s = s0"
  shows "readdir_loop K ino emit c s out pos =
    Some (case emit_slots s0 ino emit (live_slots s0 ino i) out pos of (o', p') \<Rightarrow> (Ret (), o', p', s0))"
  using assms(2,3)
proof (induction "nslots s0 ino - i" arbitrary: i c s out pos rule: less_induct)
  case less
  show ?case
  proof (cases rule: advance_cases [OF assms(1) less.prems(1,2), case_names entry over])
    case (entry j c' s')
    note nxt = live_slots_next [OF entry(2-5)]
    note rel = release_to_base [OF entry(6,7)]
    let ?e = "slot_entry s0 ino j"
    have e: "?e = (take (strnlen (de_name (cursor_dirent s' c')) 14) (de_name (cursor_dirent s' c')),
        inum (cursor_dirent s' c'))"
      using entry(8) by (simp add: slot_entry_def slot_name_def)
    have pos: "c_pos c' + 16 = 16 * int j + 16" using entry(6) by (simp add: cursor_at_def)
    show ?thesis
    proof (cases "emit out (fst ?e) (snd ?e)")
      case True
      have "readdir_loop K ino emit c s out pos = readdir_loop K ino emit c' s' (out @ [?e]) (16 * int j + 16)"
        using entry(1) True pos by (subst readdir_loop.simps) (simp add: e Let_def)
      also have "\<dots> = Some (case emit_slots s0 ino emit (live_slots s0 ino (Suc j)) (out @ [?e])
          (16 * int j + 16) of (o', p') \<Rightarrow> (Ret (), o', p', s0))"
        using entry by (intro less.hyps) auto
      finally show ?thesis using nxt True by simp
    next
      case False
      then show ?thesis using entry(1) rel nxt by (subst readdir_loop.simps) (simp add: e Let_def)
    qed
  next
    case (over c')
    then show ?thesis using live_slots_none [of i s0 ino]
      by (subst readdir_loop.simps) (simp add: release_dir_cursor_def)
  qed
qed

text \<open>A listing resumed at position 16 starts on the boundary of slot 0 again.\<close>

lemma readdir_16_is_readdir_0:
  assumes "dir_ok K s ino" "0 < nslots s ino"
  shows "readdir_loop K ino emit (INIT_DIR_CURSOR_OFFSET 16) s out pos =
         readdir_loop K ino emit INIT_DIR_CURSOR s out pos"
proof -
  let ?c = "INIT_DIR_CURSOR_OFFSET 16"
  have sz: "dir_size s ino = 16 * int (nslots s ino)" by (rule dir_ok_size(1) [OF assms(1)])
  have "resolve_block K ino INIT_DIR_CURSOR s = Some (None, INIT_DIR_CURSOR, s)"
    by (rule resolve_idle) (simp add: INIT_DIR_CURSOR_def INIT_DIR_CURSOR_OFFSET_def)
  then have "advance_dir_cursor K ino INIT_DIR_CURSOR s = advance_dir_cursor K ino ?c s"
    using assms(2) sz
    by (subst advance_dir_cursor.simps)
       (simp add: Let_def INIT_DIR_CURSOR_def INIT_DIR_CURSOR_OFFSET_def release_dir_cursor_def)
  then show ?thesis
    by (simp add: readdir_loop.simps [of K ino emit ?c] readdir_loop.simps [of K ino emit INIT_DIR_CURSOR])
qed

end
