(* ===== verification/Xv6fs_Dirops.thy ===== *)
theory Xv6fs_Dirops
  imports Xv6fs_Dir
begin

text \<open>
  What the directory operations of \<^verbatim>\<open>src/dir.c\<close> do to the abstract directory:
  insertion fills the first free slot or appends one, removal frees the slot
  of a name, lookup and listing read the live slots.  The first sections
  relate names and slots to the bytes of the blocks; the last one states the
  properties.
\<close>

section \<open>Names\<close>

lemma strnlen_le: "strnlen s n \<le> n" "strnlen s n \<le> length s"
proof -
  have "strnlen s n \<le> length (take n s)" unfolding strnlen_def by (rule length_takeWhile_le)
  then show "strnlen s n \<le> n" "strnlen s n \<le> length s" by auto
qed

lemma take_strnlen: "take (strnlen s n) s = takeWhile (\<lambda>c. c \<noteq> 0) (take n s)"
  unfolding strnlen_def
  by (metis length_takeWhile_le take_take min.absorb1 takeWhile_eq_take min.bounded_iff length_take)

lemma strncmp_eq_take:
  "0 \<notin> set (take n a) \<Longrightarrow> n \<le> length a \<Longrightarrow> n \<le> length b \<Longrightarrow> strncmp_eq a b n \<longleftrightarrow> take n a = take n b"
proof (induction n arbitrary: a b)
  case (Suc n)
  then obtain x a' y b' where "a = x # a'" "b = y # b'" by (metis Suc_le_length_iff)
  with Suc show ?case by auto
qed simp

lemma name_matches_iff: "name_matches name de \<longleftrightarrow> slot_name de = name"
proof -
  let ?n = "strnlen (de_name de) 14"
  have z: "0 \<notin> set (take ?n (de_name de))"
    unfolding take_strnlen by (auto dest: set_takeWhileD)
  show ?thesis
    using strncmp_eq_take [OF z, of name] strnlen_le [of "de_name de" 14]
    by (auto simp: name_matches_def slot_name_def)
qed

lemma new_dirent_facts:
  assumes "length name \<le> 14"
  shows "wf_dirent (new_dirent name ino)" "inum (new_dirent name ino) = of_nat ino"
    "0 \<notin> set name \<Longrightarrow> slot_name (new_dirent name ino) = name"
proof -
  let ?d = "new_dirent name ino"
  have n: "de_name ?d = name @ replicate (14 - length name) 0" using assms by (simp add: new_dirent_def)
  show "wf_dirent ?d" using assms by (simp add: wf_dirent_def n)
  show "inum ?d = of_nat ino" by (simp add: new_dirent_def)
  assume z: "0 \<notin> set name"
  have "takeWhile (\<lambda>c. c \<noteq> 0) (name @ replicate (14 - length name) 0) = name"
    using z by (subst takeWhile_append2) (auto simp: takeWhile_eq_Nil_iff hd_replicate)
  then show "slot_name ?d = name"
    using assms unfolding slot_name_def take_strnlen n by simp
qed

section \<open>Blocks of a file\<close>

lemma distinct_nz_inj:
  assumes "distinct (nz_blocks xs)" "i < length xs" "j < length xs"
    and "xs ! i \<noteq> 0" "unat (xs ! i) = unat (xs ! j)"
  shows "i = j"
proof -
  have False if "i < j" "j < length xs" "xs ! i \<noteq> 0" "xs ! i = xs ! j" for i j
  proof -
    have "drop (Suc i) xs ! (j - Suc i) = xs ! j" "j - Suc i < length (drop (Suc i) xs)"
      using that by auto
    then have "xs ! j \<in> set (drop (Suc i) xs)" by (metis nth_mem)
    then have "unat (xs ! j) \<in> set (nz_blocks (drop (Suc i) xs))"
      using that by (auto simp: set_nz_blocks)
    moreover have "nz_blocks xs = nz_blocks (take i xs) @ unat (xs ! i) # nz_blocks (drop (Suc i) xs)"
      using that by (subst id_take_nth_drop [of i]) (simp_all add: nz_blocks_def)
    ultimately show False using assms(1) that(4) by simp
  qed
  moreover have "xs ! i = xs ! j" using assms(5) by (simp add: word_unat_eq_iff)
  ultimately show ?thesis using assms(2-4) by (metis linorder_neqE_nat)
qed

lemma file_map_slot:
  assumes "length (i_addrs (xv6fs_i s ino)) = 13" "file_map s ino l = Some b"
  obtains i where "i = (if l < 12 then l else l + 1)" "i < 141" "addr_list s ino ! i \<noteq> 0"
    "b = unat (addr_list s ino ! i)"
  using assms(2) by (auto simp: file_map_addr_list [OF assms(1)] block_opt_def split: if_splits)

lemma file_map_inj:
  assumes "imap_ok s ino" "file_map s ino l = Some b" "file_map s ino l' = Some b"
  shows "l = l'"
proof -
  have len: "length (i_addrs (xv6fs_i s ino)) = 13" "length (addr_list s ino) = 141"
    and d: "distinct (nz_blocks (addr_list s ino))"
    using assms(1) by (simp_all add: imap_ok_def addr_list_def inode_blocks_def)
  obtain i j where "i = (if l < 12 then l else l + 1)" "i < 141" "addr_list s ino ! i \<noteq> 0"
    "b = unat (addr_list s ino ! i)" "j = (if l' < 12 then l' else l' + 1)" "j < 141"
    "b = unat (addr_list s ino ! j)"
    using file_map_slot [OF len(1) assms(2)] file_map_slot [OF len(1) assms(3)] by metis
  with distinct_nz_inj [OF d, of i j] len(2) show ?thesis by (auto split: if_splits)
qed

lemma file_map_not_ind:
  assumes "imap_ok s ino" "file_map s ino l = Some b"
  shows "b \<noteq> unat (addr_list s ino ! 12)"
proof
  assume eq: "b = unat (addr_list s ino ! 12)"
  have len: "length (i_addrs (xv6fs_i s ino)) = 13" "length (addr_list s ino) = 141"
    and d: "distinct (nz_blocks (addr_list s ino))"
    using assms(1) by (simp_all add: imap_ok_def addr_list_def inode_blocks_def)
  obtain i where "i = (if l < 12 then l else l + 1)" "i < 141" "addr_list s ino ! i \<noteq> 0"
    "b = unat (addr_list s ino ! i)"
    using file_map_slot [OF len(1) assms(2)] .
  with distinct_nz_inj [OF d, of i 12] len(2) eq show False by (auto split: if_splits)
qed

lemma file_map_data: "imap_ok s ino \<Longrightarrow> file_map s ino l = Some b \<Longrightarrow> b \<in> data_blocks s"
  using file_map_in_blocks [of s ino l b] by (auto simp: imap_ok_def)

text \<open>An inode owns the blocks of its map and at most one more, the indirect block.\<close>

lemma inode_blocks_cover:
  assumes "length (i_addrs (xv6fs_i s i)) = 13"
  shows "set (inode_blocks s i) \<subseteq> insert (unat (addr_list s i ! 12)) (ran (file_map s i))"
proof
  fix b assume "b \<in> set (inode_blocks s i)"
  then obtain a where a: "b = unat a" "a \<in> set (addr_list s i)" "a \<noteq> 0"
    by (auto simp: inode_blocks_def set_nz_blocks)
  have "length (addr_list s i) = 141" using assms by (simp add: addr_list_def)
  then obtain j where j: "j < 141" "addr_list s i ! j = a" using a(2) by (metis in_set_conv_nth)
  consider "j < 12" | "j = 12" | "12 < j" by linarith
  then show "b \<in> insert (unat (addr_list s i ! 12)) (ran (file_map s i))"
  proof cases
    case 1
    then have "file_map s i j = Some b" using a j by (simp add: file_map_addr_list [OF assms] block_opt_def)
    then show ?thesis by (auto simp: ran_def)
  next
    case 2
    then show ?thesis using a(1) j(2) by simp
  next
    case 3
    then obtain k where "j = Suc k" "12 \<le> k" by (cases j) auto
    then have "file_map s i k = Some b" using a j by (simp add: file_map_addr_list [OF assms] block_opt_def)
    then show ?thesis by (auto simp: ran_def)
  qed
qed

text \<open>Writing a mapped block of a file changes no map and keeps the invariants.\<close>

lemma file_store:
  assumes "bmap_inv s" "imap_ok s ino" "file_map s ino l = Some b" "length d = 512"
  defines "t \<equiv> b_store b d s"
  shows "bmap_inv t" "imap_ok t ino" "file_map t ino = file_map s ino"
    "addr_list t ino = addr_list s ino" "raw_sb t = raw_sb s" "data_blocks t = data_blocks s"
    "\<And>n. n < unat (sb_size (raw_sb s)) \<Longrightarrow> block_used t n = block_used s n"
proof -
  have data: "b \<in> data_blocks s" by (rule file_map_data [OF assms(2,3)])
  have len: "length (i_addrs (xv6fs_i s ino)) = 13" using assms(2) by (simp add: imap_ok_def)
  have ind: "b \<noteq> unat (i_addrs (xv6fs_i s ino) ! 12)"
    using file_map_not_ind [OF assms(2,3)] len by (simp add: nth_addr_list)
  show inv: "bmap_inv t" unfolding t_def by (rule bmap_inv_b_store [OF assms(1) data assms(4)])
  show al: "addr_list t ino = addr_list s ino"
    unfolding t_def using ind by (intro addr_list_cong) auto
  show rs: "raw_sb t = raw_sb s" and dt: "data_blocks t = data_blocks s"
    by (simp_all add: t_def data_blocks_def)
  have len': "length (i_addrs (xv6fs_i t ino)) = 13" using len by (simp add: t_def)
  show "file_map t ino = file_map s ino"
    by (simp add: fun_eq_iff file_map_addr_list [OF len] file_map_addr_list [OF len'] al)
  have lay: "layout_ok (raw_sb s)" using assms(1) by (simp add: bmap_inv_def)
  show used: "block_used t n = block_used s n" if "n < unat (sb_size (raw_sb s))" for n
    unfolding t_def by (rule block_used_b_store [OF lay that data])
  have "inode_blocks t ino = inode_blocks s ino" by (simp add: inode_blocks_def al)
  then show "imap_ok t ino"
    using assms(2) len' used dt by (auto simp: imap_ok_def t_def data_blocks_def subset_iff)
qed

lemma slot_at_store:
  assumes "bmap_inv s" "imap_ok s ino" "file_map s ino l = Some b" "length d = 512"
  shows "slot_at (b_store b d s) ino j =
    (if j div 32 = l then Some (dirent_at d (16 * (j mod 32))) else slot_at s ino j)"
proof (cases "file_map s ino (j div 32)")
  case None
  then show ?thesis using file_store(3) [OF assms] assms(3) by (auto simp: slot_at_def)
next
  case (Some b')
  then have "j div 32 \<noteq> l \<Longrightarrow> b' \<noteq> b" using file_map_inj [OF assms(2) Some] assms(3) by blast
  then show ?thesis using file_store(3) [OF assms] assms(3) Some
    by (cases "j div 32 = l") (simp_all add: slot_at_def)
qed

section \<open>Filling a slot\<close>

text \<open>
  How the directory looks after the entry \<open>de\<close> has been stored in slot \<open>k\<close>:
  the slot holds it, the other live slots are the same and no other slot
  became live.
\<close>

definition slot_filled :: "fs \<Rightarrow> nat \<Rightarrow> nat \<Rightarrow> xv6fs_dirent \<Rightarrow> fs \<Rightarrow> bool" where
  "slot_filled s dir k de s' \<longleftrightarrow>
     slot_at s' dir k = Some de \<and>
     (\<forall>j. j \<noteq> k \<longrightarrow> live s' dir j = live s dir j \<and>
          (live s dir j \<longrightarrow> slot_at s' dir j = slot_at s dir j))"

lemma zero_block_dirent: "off + 16 \<le> 512 \<Longrightarrow> inum (dirent_at (replicate 512 0) off) = 0"
  by (simp add: dirent_at_def bytes_dirent_def get_bytes_def le16_to_cpu_def)

lemma mod_32_fits: "16 * (j mod 32) + 16 \<le> (512::nat)"
  using mod_less_divisor [of 32 j] by linarith

lemma same_slot: "(i::nat) div 32 = j div 32 \<Longrightarrow> i mod 32 = j mod 32 \<Longrightarrow> i = j"
  by (metis div_mult_mod_eq)

lemma put_dirent_slots:
  assumes "length d = 512" "wf_dirent de" "j div 32 = k div 32"
  shows "dirent_at (put_dirent (16 * (k mod 32)) de d) (16 * (j mod 32)) =
    (if j = k then de else dirent_at d (16 * (j mod 32)))"
proof (cases "j = k")
  case True
  then show ?thesis using assms mod_32_fits [of k] by simp
next
  case False
  then have ne: "j mod 32 \<noteq> k mod 32" using same_slot assms(3) by blast
  have "dirent_at (put_dirent (16 * (k mod 32)) de d) (16 * (j mod 32)) = dirent_at d (16 * (j mod 32))"
    using assms mod_32_fits [of k] mod_32_fits [of j] ne by (intro dirent_at_put_other) linarith+
  with False show ?thesis by simp
qed

text \<open>An existing block of the directory.\<close>

lemma fill_old_block:
  assumes "bmap_inv s" "imap_ok s dir" "file_map s dir (k div 32) = Some b" "wf_dirent de"
  shows "slot_filled s dir k de (b_store b (put_dirent (16 * (k mod 32)) de (disk s b)) s)"
proof -
  have l: "length (disk s b) = 512" using assms(1) by (simp add: bmap_inv_def blocks_512_def)
  have l': "length (put_dirent (16 * (k mod 32)) de (disk s b)) = 512"
    using l assms(4) mod_32_fits [of k] by simp
  have "slot_at (b_store b (put_dirent (16 * (k mod 32)) de (disk s b)) s) dir j =
      (if j = k then Some de else slot_at s dir j)" for j
    using slot_at_store [OF assms(1-3) l', of j] put_dirent_slots [OF l assms(4), of j k] assms(3)
    by (auto simp: slot_at_def)
  then show ?thesis by (simp add: slot_filled_def live_def)
qed

text \<open>A block just mapped, zeroed first.\<close>

lemma fill_new_block:
  assumes "bmap_inv t" "imap_ok t dir" "file_map t dir (k div 32) = Some b" "wf_dirent de"
    and "file_map s dir (k div 32) = None"
    and "\<And>j. j div 32 \<noteq> k div 32 \<Longrightarrow> slot_at t dir j = slot_at s dir j"
  shows "slot_filled s dir k de
    (b_store b (put_dirent (16 * (k mod 32)) de (replicate 512 0)) (b_store b (replicate 512 0) t))"
proof -
  let ?z = "replicate 512 0 :: block"
  let ?u = "b_store b (put_dirent (16 * (k mod 32)) de ?z) (b_store b ?z t)"
  have u: "?u = b_store b (put_dirent (16 * (k mod 32)) de ?z) t" by (simp add: b_store_def)
  have l': "length (put_dirent (16 * (k mod 32)) de ?z) = 512"
    using assms(4) mod_32_fits [of k] by simp
  have sl: "slot_at ?u dir j = (if j div 32 = k div 32 then
      Some (if j = k then de else dirent_at ?z (16 * (j mod 32))) else slot_at s dir j)" for j
    unfolding u using slot_at_store [OF assms(1-3) l', of j] assms(6) [of j]
      put_dirent_slots [of ?z de j k] assms(4) by simp
  have dead: "\<not> live s dir j" if "j div 32 = k div 32" for j
    using assms(5) that by (simp add: live_def slot_at_def)
  have "live ?u dir j = live s dir j" if "j \<noteq> k" for j
    using sl [of j] dead [of j] that zero_block_dirent [OF mod_32_fits, of j]
    by (auto simp: live_def)
  moreover have "slot_at ?u dir j = slot_at s dir j" if "j \<noteq> k" "live s dir j" for j
    using sl [of j] dead [of j] that by auto
  ultimately show ?thesis using sl [of k] by (simp add: slot_filled_def)
qed

text \<open>The other slots after an allocating lookup.\<close>

lemma create_post_slots:
  assumes "create_post s dir l (Mapped b new) t" "imap_ok s dir" "j div 32 \<noteq> l"
  shows "slot_at t dir j = slot_at s dir j"
proof (cases "file_map s dir (j div 32)")
  case None
  then show ?thesis using assms(1,3) by (auto simp: create_post_def maps_block_def slot_at_def)
next
  case (Some b')
  have m: "maps_block s dir l b t" using assms(1) by (simp add: create_post_def)
  then have f: "file_map t dir (j div 32) = Some b'" "imap_ok t dir"
    using Some assms(3) by (simp_all add: maps_block_def)
  have "b' \<in> data_blocks s" by (rule file_map_data [OF assms(2) Some])
  then have "disk t b' = disk s b'"
    using m file_map_not_ind [OF f(2,1)] by (simp add: maps_block_def)
  then show ?thesis using f(1) Some by (simp add: slot_at_def)
qed

section \<open>Writing an entry\<close>

text \<open>Every read and every buffer allocation succeeds.\<close>

definition io_ok :: "kernel \<Rightarrow> bool" where
  "io_ok K \<longleftrightarrow> (\<forall>b. sb_bread_ok K b \<and> sb_getblk_ok K b)"

lemma dir_ok_io:
  "io_ok K \<Longrightarrow> i_size (xv6fs_i s ino) = 16 * int n \<Longrightarrow> n \<le> 4480 \<Longrightarrow> dir_ok K s ino \<and> nslots s ino = n"
  by (auto simp: dir_ok_def io_ok_def nslots_def)

lemma slot_at_cong:
  "file_map s' ino = file_map s ino \<Longrightarrow> disk s' = disk s \<Longrightarrow> slot_at s' ino = slot_at s ino"
  by (simp add: slot_at_def fun_eq_iff)

text \<open>What the operations on a directory keep: the tables, the buffers and the other inodes.\<close>

definition dir_frame :: "nat \<Rightarrow> fs \<Rightarrow> fs \<Rightarrow> bool" where
  "dir_frame dir s s' \<longleftrightarrow> same_tables dir s s' \<and> bmap_inv s' \<and> imap_ok s' dir"

lemma store_entry_post:
  fixes ino :: nat
  assumes "bmap_inv u" "imap_ok u dir" "file_map u dir (k div 32) = Some b"
    and "i_size (xv6fs_i u dir) = 16 * int n" "length name \<le> 14"
  defines "w \<equiv> b_store b (put_dirent (16 * (k mod 32)) (new_dirent name ino) (disk u b)) u"
  shows "\<exists>s'. store_entry dir name ino (16 * int k) b u = (Ret (), s') \<and> slot_at s' dir = slot_at w dir \<and>
    i_size (xv6fs_i s' dir) = 16 * int (max n (Suc k)) \<and> dir_frame dir (brelse u) s'"
proof -
  have off: "nat (16 * int k mod 512) = 16 * (k mod 32)" by (simp add: pos_block nat_mult_distrib)
  have "length (disk u b) = 512" using assms(1) by (simp add: bmap_inv_def blocks_512_def)
  then have l: "length (put_dirent (16 * (k mod 32)) (new_dirent name ino) (disk u b)) = 512"
    using new_dirent_facts(1) [OF assms(5)] mod_32_fits [of k] by simp
  note w = file_store [OF assms(1-3) l, folded w_def]
  let ?s1 = "brelse (mark_buffer_dirty b w)"
  define s' where "s' = mark_inode_dirty dir (if i_size (xv6fs_i ?s1 dir) < 16 * int k + 16
      then set_inode dir ((xv6fs_i ?s1 dir)\<lparr>i_size := 16 * int k + 16\<rparr>) ?s1 else ?s1)"
  have call: "store_entry dir name ino (16 * int k) b u = (Ret (), s')"
    using mod_32_fits [of k] by (simp add: store_entry_def off Let_def s'_def w_def)
  have ad: "i_addrs ((xv6fs_i w dir)\<lparr>i_size := 16 * int k + 16\<rparr>) = i_addrs (xv6fs_i ?s1 dir)" by simp
  note v = inode_views_set_inode [OF ad]
  have "slot_at s' dir = slot_at w dir"
  proof (rule slot_at_cong)
    show "file_map s' dir = file_map w dir" by (simp add: s'_def v(8))
    show "disk s' = disk w" by (simp add: s'_def set_inode_def)
  qed
  moreover have "i_size (xv6fs_i s' dir) = 16 * int (max n (Suc k))"
    using assms(4) by (simp add: s'_def w_def max_def)
  moreover have "same_tables dir (brelse u) s'"
    by (auto simp: same_tables_def s'_def w_def set_inode_def)
  moreover have "bmap_inv s'" "imap_ok s' dir"
    using w(1,2) v(3,6) by (simp_all add: s'_def)
  ultimately show ?thesis using call by (auto simp: dir_frame_def)
qed

text \<open>What an attempt to store an entry in slot \<open>k\<close> leaves.\<close>

definition entry_post ::
    "kernel \<Rightarrow> fs \<Rightarrow> nat \<Rightarrow> nat \<Rightarrow> xv6fs_dirent \<Rightarrow> unit dir_ret \<times> fs \<Rightarrow> bool" where
  "entry_post K s dir k de res \<longleftrightarrow>
     (case res of (r, s') \<Rightarrow>
        dir_frame dir s s' \<and>
        (r = Ret () \<and> slot_filled s dir k de s' \<and>
           i_size (xv6fs_i s' dir) = 16 * int (max (nslots s dir) (Suc k)) \<or>
         r \<in> {Err ENOSPC, Err EIO, Err EFBIG} \<and> slot_at s' dir = slot_at s dir \<and>
           i_size (xv6fs_i s' dir) = i_size (xv6fs_i s dir)))"

lemma same_attrs_size: "same_attrs ino s t \<Longrightarrow> i_size (xv6fs_i t ino) = i_size (xv6fs_i s ino)"
proof -
  assume "same_attrs ino s t"
  then have "xv6fs_i t ino = (xv6fs_i s ino)\<lparr>i_addrs := i_addrs (xv6fs_i t ino)\<rparr>"
    unfolding same_attrs_def by blast
  from arg_cong [OF this, of i_size] show ?thesis by simp
qed

lemma map_kept_slots:
  assumes "map_kept s dir t" "imap_ok s dir" shows "slot_at t dir = slot_at s dir"
proof
  fix j
  show "slot_at t dir j = slot_at s dir j"
  proof (cases "file_map s dir (j div 32)")
    case None
    then show ?thesis using assms(1) by (simp add: map_kept_def slot_at_def)
  next
    case (Some b)
    then have "disk t b = disk s b"
      using assms(1) file_map_data [OF assms(2) Some] file_map_not_ind [of t dir "j div 32" b]
      by (simp add: map_kept_def)
    then show ?thesis using assms(1) Some by (simp add: map_kept_def slot_at_def)
  qed
qed

lemma slot_filled_cong:
  "slot_at w dir = slot_at w' dir \<Longrightarrow> slot_filled s dir k de w = slot_filled s dir k de w'"
  by (simp add: slot_filled_def live_def)

text \<open>With a device that does not fail, only the allocation decides.\<close>

lemma dir_write_entry_io:
  assumes "io_ok K" "xv6fs_get_block K dir (k div 32) True s = (x, t)"
  shows "dir_write_entry K dir name ino (16 * int k) s =
      (case x of Inl e \<Rightarrow> (Err e, t)
       | Inr r \<Rightarrow> (case (case r of Mapped b new \<Rightarrow> (b, new) | Unmapped \<Rightarrow> (0, False)) of
             (b, True) \<Rightarrow> store_entry dir name ino (16 * int k) b
                 (b_store b (replicate 512 0) (t\<lparr>holds := holds t + 1\<rparr>))
           | (b, False) \<Rightarrow> store_entry dir name ino (16 * int k) b (t\<lparr>holds := holds t + 1\<rparr>)))"
  unfolding dir_write_entry_def pos_block(1) assms(2) prod.case using assms(1)
  by (simp add: sb_bread_def sb_getblk_def io_ok_def split: sum.splits bh_result.splits bool.splits)

lemma dir_write_entry_post:
  assumes "kernel_bitops K" "bmap_inv s" "imap_ok s dir" "dir_ok K s dir" "io_ok K"
    and "length name \<le> 14" "k < 4480"
  shows "entry_post K s dir k (new_dirent name ino) (dir_write_entry K dir name ino (16 * int k) s)"
proof -
  let ?de = "new_dirent name ino"
  obtain x t where call: "xv6fs_get_block K dir (k div 32) True s = (x, t)" by fastforce
  have l: "k div 32 < 140" using assms(7) by linarith
  have frame: "same_tables dir s t" "same_attrs dir s t"
    using get_block_frame [of dir s K "k div 32" True] call by simp_all
  note wr = dir_write_entry_io [OF assms(5) call]
  have sz: "i_size (xv6fs_i t dir) = 16 * int (nslots s dir)"
    using same_attrs_size [OF frame(2)] dir_ok_size(2) [OF assms(4)] by simp
  show ?thesis
  proof (cases x)
    case (Inl e)
    then have k: "map_kept s dir t" "e = ENOSPC \<or> e = EIO"
      using get_block_create_Inl [OF assms(1-3)] assms(5) call l by (auto simp: io_ok_def)
    with map_kept_slots [OF k(1) assms(3)] Inl frame wr same_attrs_size [OF frame(2)]
    show ?thesis by (auto simp: entry_post_def dir_frame_def map_kept_def)
  next
    case (Inr r)
    have post: "create_post s dir (k div 32) r t"
      by (rule get_block_create [OF assms(1-3) call [unfolded Inr]])
    then obtain b new where r: "r = Mapped b new" and m: "maps_block s dir (k div 32) b t"
      and new: "new \<longleftrightarrow> file_map s dir (k div 32) = None" "\<not> new \<longrightarrow> t = s"
      by (auto simp: create_post_def)
    let ?t = "t\<lparr>holds := holds t + 1\<rparr>"
    have pre: "bmap_inv ?t" "imap_ok ?t dir" "file_map ?t dir (k div 32) = Some b"
      "i_size (xv6fs_i ?t dir) = 16 * int (nslots s dir)"
      using m sz by (simp_all add: maps_block_def)
    show ?thesis
    proof (cases new)
      case True
      let ?z = "replicate 512 0 :: block"
      let ?u = "b_store b ?z ?t"
      note fs = file_store [OF pre(1-3), of ?z]
      obtain s' where s': "store_entry dir name ino (16 * int k) b ?u = (Ret (), s')"
        "slot_at s' dir = slot_at (b_store b (put_dirent (16 * (k mod 32)) ?de (disk ?u b)) ?u) dir"
        "i_size (xv6fs_i s' dir) = 16 * int (max (nslots s dir) (Suc k))" "dir_frame dir (brelse ?u) s'"
        using store_entry_post [of ?u dir k b "nslots s dir" name ino] fs pre assms(6) by auto
      have fill: "slot_filled s dir k ?de
          (b_store b (put_dirent (16 * (k mod 32)) ?de ?z) (b_store b ?z ?t))"
        using new True create_post_slots [OF post [unfolded r] assms(3)]
        by (intro fill_new_block [OF pre(1-3) new_dirent_facts(1) [OF assms(6)]]) simp_all
      have "slot_filled s dir k ?de s'"
        unfolding slot_filled_cong [OF s'(2)] using fill by simp
      moreover have "same_tables dir t (brelse ?u)" by (simp add: same_tables_def)
      then have "dir_frame dir s s'"
        using s'(4) same_tables_trans [OF same_tables_trans [OF frame(1)]] by (simp add: dir_frame_def)
      ultimately show ?thesis using wr Inr r True s'(1,3) by (simp add: entry_post_def)
    next
      case False
      obtain s' where s': "store_entry dir name ino (16 * int k) b ?t = (Ret (), s')"
        "slot_at s' dir = slot_at (b_store b (put_dirent (16 * (k mod 32)) ?de (disk ?t b)) ?t) dir"
        "i_size (xv6fs_i s' dir) = 16 * int (max (nslots s dir) (Suc k))" "dir_frame dir (brelse ?t) s'"
        using store_entry_post [OF pre assms(6)] by auto
      have fill: "slot_filled ?t dir k ?de (b_store b (put_dirent (16 * (k mod 32)) ?de (disk ?t b)) ?t)"
        by (rule fill_old_block [OF pre(1-3) new_dirent_facts(1) [OF assms(6)]])
      have "slot_filled s dir k ?de s'"
        unfolding slot_filled_cong [OF s'(2)] using fill new False by (simp add: slot_filled_def)
      moreover have "brelse ?t = s" using new False by (simp add: brelse_def)
      ultimately show ?thesis using wr Inr r False s' by (simp add: entry_post_def)
    qed
  qed
qed

section \<open>What a failed allocation leaves\<close>

text \<open>
  A call that fails for want of a block may have got one before: the indirect
  block, which stays with the inode.  \<open>only_indirect d s t\<close> says that \<open>t\<close> differs
  from \<open>s\<close> in nothing else as far as inode \<open>d\<close>, the bitmap and the contents of
  the blocks in use are concerned: \<open>d\<close> has the same fields but for its indirect
  block, an indirect block it had is still the same, its block map is the same,
  and the blocks in use are those of before and the indirect block.
\<close>

definition only_indirect :: "nat \<Rightarrow> fs \<Rightarrow> fs \<Rightarrow> bool" where
  "only_indirect d s t \<longleftrightarrow>
     (\<exists>a. xv6fs_i t d = (xv6fs_i s d)\<lparr>i_addrs := (i_addrs (xv6fs_i s d))[12 := a]\<rparr> \<and>
        (i_addrs (xv6fs_i s d) ! 12 \<noteq> 0 \<longrightarrow> a = i_addrs (xv6fs_i s d) ! 12) \<and>
        file_map t d = file_map s d \<and>
        (\<forall>b \<in> data_blocks s. block_used t b \<longleftrightarrow> block_used s b \<or> b = unat a) \<and>
        (\<forall>b \<in> data_blocks s. block_used s b \<longrightarrow> disk t b = disk s b))"

lemma get_block_indirect_fails:
  assumes "kernel_bitops K" "bmap_inv s" "xv6fs_get_block K ino l True s = (Inl e, t)"
    and "i_addrs (xv6fs_i s ino) ! 12 \<noteq> 0"
  shows "disk t = disk s \<and> icache t = icache s"
proof -
  have bl: "blocks_512 s" using assms(2) by (simp add: bmap_inv_def)
  let ?u = "s\<lparr>holds := holds s + 1\<rparr>" and ?b = "unat (i_addrs (xv6fs_i s ino) ! 12)"
  consider "t = s" | "xv6fs_balloc K s = (Inl e, t)" | "get_block_indirect K ino l True ?b ?u = (Inl e, t)"
    using assms(3,4)
    by (auto simp: xv6fs_get_block_def Let_def sb_bread_def split: if_splits prod.splits sum.splits)
  then show ?thesis
  proof cases
    case 2
    then show ?thesis using balloc_Inl [OF assms(1) bl] by simp
  next
    case 3
    then show ?thesis using get_block_indirect_Inl [OF assms(1) _ 3] assms(2) by simp
  qed simp
qed

lemma block_opt_inj: "block_opt a = block_opt b \<Longrightarrow> a = b"
  by (auto simp: block_opt_def split: if_splits intro: word_unat_eq_iff [THEN iffD2])

lemma get_block_fails_indirect:
  assumes "kernel_bitops K" "bmap_inv s" "imap_ok s d" "\<forall>b. sb_getblk_ok K b"
    and "xv6fs_get_block K d l True s = (Inl e, t)"
  shows "only_indirect d s t"
proof -
  have m: "file_map t d = file_map s d" "imap_ok t d" "bmap_inv t" "raw_sb t = raw_sb s"
    "set (inode_blocks t d) \<subseteq> set (inode_blocks s d) \<union> free_blocks s"
    "\<forall>n < unat (sb_size (raw_sb s)). block_used s n \<longrightarrow> block_used t n"
    "\<forall>n < unat (sb_size (raw_sb s)). block_used t n \<longrightarrow> block_used s n \<or> n \<in> set (inode_blocks t d)"
    "\<forall>b \<in> outside_bitmap s. b \<noteq> unat (addr_list t d ! 12) \<longrightarrow> disk t b = disk s b"
    using get_block_create_Inl [OF assms] by (simp_all add: map_kept_def)
  have len: "length (i_addrs (xv6fs_i s d)) = 13" "length (i_addrs (xv6fs_i t d)) = 13"
    using assms(3) m(2) by (simp_all add: imap_ok_def)
  define a where "a = i_addrs (xv6fs_i t d) ! 12"
  have a12: "addr_list t d ! 12 = a" using len(2) by (simp add: nth_addr_list a_def)
  have "i_addrs (xv6fs_i t d) ! l = i_addrs (xv6fs_i s d) ! l" if "l < 12" for l
    using fun_cong [OF m(1), of l] that by (intro block_opt_inj) (simp add: file_map_def)
  then have "i_addrs (xv6fs_i t d) = (i_addrs (xv6fs_i s d))[12 := a]"
    using len a_def by (intro nth_equalityI) (auto simp: nth_list_update less_Suc_eq)
  moreover have "same_attrs d s t" using get_block_frame [of d s K l True] assms(5) by simp
  then have "xv6fs_i t d = (xv6fs_i s d)\<lparr>i_addrs := i_addrs (xv6fs_i t d)\<rparr>" unfolding same_attrs_def by blast
  ultimately have i: "xv6fs_i t d = (xv6fs_i s d)\<lparr>i_addrs := (i_addrs (xv6fs_i s d))[12 := a]\<rparr>" by metis
  have old: "disk t = disk s \<and> a = i_addrs (xv6fs_i s d) ! 12" if "i_addrs (xv6fs_i s d) ! 12 \<noteq> 0"
    using get_block_indirect_fails [OF assms(1,2,5) that] by (simp add: a_def xv6fs_i_def)
  have ran: "ran (file_map s d) \<subseteq> set (inode_blocks s d)"
    using file_map_in_blocks [OF len(1)] by (auto simp: ran_def)
  have us: "block_used s b" if "b \<in> set (inode_blocks s d)" for b using assms(3) that by (simp add: imap_ok_def)
  have ut: "block_used t b" if "b \<in> set (inode_blocks t d)" for b using m(2) that by (simp add: imap_ok_def)
  have pos: "a \<noteq> 0" if "unat a \<in> data_blocks s"
    using that DSTART_pos [of "raw_sb s"] assms(2) by (auto simp: data_blocks_def bmap_inv_def)
  have it: "unat a \<in> set (inode_blocks t d)" if "a \<noteq> 0" using ind_in_blocks [OF len(2)] that by (simp add: a_def)
  have used: "block_used t b \<longleftrightarrow> block_used s b \<or> b = unat a" if b: "b \<in> data_blocks s" for b
  proof
    assume "block_used t b"
    then have "block_used s b \<or> b \<in> set (inode_blocks t d)" using m(7) b by (simp add: data_blocks_def)
    then show "block_used s b \<or> b = unat a"
      using inode_blocks_cover [OF len(2)] ran us unfolding a12 m(1) by blast
  next
    assume "block_used s b \<or> b = unat a"
    then show "block_used t b" using m(6) b ut it pos by (auto simp: data_blocks_def)
  qed
  have "disk t b = disk s b" if b: "b \<in> data_blocks s" "block_used s b" for b
  proof (cases "i_addrs (xv6fs_i s d) ! 12 = 0 \<and> b = unat a")
    case True
    have "a \<noteq> 0" using pos b(1) True by simp
    then have "b \<in> set (inode_blocks t d)" using it True by simp
    then have "b \<in> set (inode_blocks s d)" using m(5) b(2) by (auto simp: free_blocks_def)
    then have "b \<in> ran (file_map s d)"
      using inode_blocks_cover [OF len(1)] True pos b(1) len(1) by (auto simp: nth_addr_list)
    then obtain l where "file_map t d l = Some b" using m(1) by (auto simp: ran_def)
    then show ?thesis using file_map_not_ind [OF m(2)] a12 True by auto
  next
    case False
    then show ?thesis using old m(8) a12 data_outside [OF b(1)] by auto
  qed
  then show ?thesis unfolding only_indirect_def using i old m(1) used by blast
qed

text \<open>The insertion fails in \<open>xv6fs_get_block\<close> or not at all.\<close>

lemma store_entry_Ret:
  "fst (store_entry dir name ino (16 * int k) b s) = Ret ()"
  using mod_32_fits [of k] by (simp add: store_entry_def Let_def pos_block nat_mult_distrib)

lemma dir_write_entry_fails:
  assumes "kernel_bitops K" "bmap_inv s" "imap_ok s dir" "io_ok K"
    and "dir_write_entry K dir name ino (16 * int k) s = (r, t)" "r \<noteq> Ret ()"
  shows "only_indirect dir s t"
proof -
  obtain x u where call: "xv6fs_get_block K dir (k div 32) True s = (x, u)" by fastforce
  note wr = dir_write_entry_io [OF assms(4) call, of name ino, unfolded assms(5)]
  have "\<exists>e. x = Inl e \<and> t = u"
  proof (cases x)
    case (Inl e)
    then show ?thesis using wr by simp
  next
    case (Inr y)
    then have "\<exists>b v. (r, t) = store_entry dir name ino (16 * int k) b v"
      using wr by (auto split: bh_result.splits bool.splits)
    then have "r = Ret ()" by (metis fst_conv store_entry_Ret)
    with assms(6) show ?thesis by simp
  qed
  then obtain e where "xv6fs_get_block K dir (k div 32) True s = (Inl e, t)" using call by auto
  then show ?thesis
    using get_block_fails_indirect [OF assms(1-3)] assms(4) by (simp add: io_ok_def)
qed

section \<open>Searching, adding, removing\<close>

definition slot_of :: "fs \<Rightarrow> nat \<Rightarrow> byte list \<Rightarrow> nat option" where
  "slot_of s dir name =
     find (\<lambda>k. live s dir k \<and> slot_name (the (slot_at s dir k)) = name) [0..<nslots s dir]"

lemma slot_of_eq: "find (has_name s dir name) [0..<nslots s dir] = slot_of s dir name"
  unfolding slot_of_def has_name_def [abs_def] name_matches_iff ..

lemma find_entry_post:
  assumes "dir_ok K s dir"
  shows "\<exists>res. xv6fs_find_entry K dir name s = Some res \<and> found_at s dir (slot_of s dir name) res"
  using find_entry_loop_post [OF assms cursor_at_init(1,2), of name]
  by (simp add: xv6fs_find_entry_def slot_of_eq)

text \<open>The slot \<open>xv6fs_dir_add_entry\<close> fills: the first free one, or one past the end.\<close>

definition free_slot :: "fs \<Rightarrow> nat \<Rightarrow> nat" where
  "free_slot s dir =
     (case find (\<lambda>k. \<not> live s dir k) [0..<nslots s dir] of Some k \<Rightarrow> k | None \<Rightarrow> nslots s dir)"

lemma add_entry_eq:
  assumes "dir_ok K s dir" "length name \<le> 14"
  shows "xv6fs_dir_add_entry K dir name ino s =
    Some (dir_write_entry K dir name ino (16 * int (free_slot s dir)) s)"
proof -
  obtain c where c: "scan_dir_loop K dir INIT_DIR_CURSOR s = Some (De_null, c, s)" "c_bh c = None"
    "c_first_empty c = first_free (live s dir) (nslots s dir) 0 (-1)"
    using scan_dir_loop_post [OF assms(1) cursor_at_init(1,2)] cursor_at_init(3) by auto
  have "(if c_first_empty c < 0 then i_size (xv6fs_i s dir) else c_first_empty c) =
      16 * int (free_slot s dir)"
    using c(3) dir_ok_size(2) [OF assms(1)] by (simp add: first_free_def free_slot_def split: option.splits)
  then show ?thesis using assms(2) c(1,2)
    by (auto simp: xv6fs_dir_add_entry_def release_dir_cursor_def Let_def split: if_splits)
qed

lemma add_entry_fails:
  assumes "kernel_bitops K" "bmap_inv s" "imap_ok s dir" "dir_ok K s dir" "io_ok K" "length name \<le> 14"
    and "xv6fs_dir_add_entry K dir name ino s = Some (r, t)" "r \<noteq> Ret ()"
  shows "only_indirect dir s t"
  using add_entry_eq [OF assms(4,6), of ino] assms(7,8) by (intro dir_write_entry_fails [OF assms(1-3,5)]) auto

lemma free_slot_le: "free_slot s dir \<le> nslots s dir"
  by (auto simp: free_slot_def find_Some_iff split: option.splits)

lemma free_slot_dead: "free_slot s dir < nslots s dir \<Longrightarrow> \<not> live s dir (free_slot s dir)"
  by (cases "find (\<lambda>k. \<not> live s dir k) [0..<nslots s dir]")
     (auto simp: free_slot_def dest: find_Some_iff [THEN iffD1])

text \<open>The effect of a successful insertion on the search by name.\<close>

lemma slot_filled_live:
  assumes "slot_filled s dir k de s'" "inum de \<noteq> 0"
  shows "live s' dir j \<longleftrightarrow> j = k \<or> live s dir j"
  using assms by (cases "j = k") (auto simp: slot_filled_def live_def)

lemma find_unique:
  assumes "k < n" "P k" "\<And>j. j < n \<Longrightarrow> P j \<Longrightarrow> j = k"
  shows "find P [0..<n] = Some k"
proof (cases "find P [0..<n]")
  case None
  then show ?thesis using assms(1,2) by (auto simp: find_None_iff)
next
  case (Some j)
  then have "j < n" "P j" by (auto simp: find_Some_iff)
  with assms(3) Some show ?thesis by simp
qed

lemma slot_filled_slot_of:
  assumes "slot_filled s dir k de s'" "inum de \<noteq> 0" "slot_of s dir (slot_name de) = None"
    and "k < nslots s' dir" "\<forall>j < nslots s' dir. j \<noteq> k \<longrightarrow> live s dir j \<longrightarrow> j < nslots s dir"
  shows "slot_of s' dir (slot_name de) = Some k"
  unfolding slot_of_def
proof (rule find_unique)
  show "k < nslots s' dir" by fact
  show "live s' dir k \<and> slot_name (the (slot_at s' dir k)) = slot_name de"
    using assms(1,2) by (simp add: slot_filled_def live_def)
next
  fix j assume j: "j < nslots s' dir" "live s' dir j \<and> slot_name (the (slot_at s' dir j)) = slot_name de"
  show "j = k"
  proof (rule ccontr)
    assume ne: "j \<noteq> k"
    then have "live s dir j" "slot_at s' dir j = slot_at s dir j"
      using assms(1,2) j slot_filled_live [OF assms(1,2)] by (auto simp: slot_filled_def)
    then show False using assms(3,5) j ne by (auto simp: slot_of_def find_None_iff)
  qed
qed

text \<open>Lookup, given where the name is.\<close>

lemma lookup_eq:
  assumes "dir_ok K s dir" "length name \<le> 14"
  shows "xv6fs_lookup K dir name s =
    Some (case slot_of s dir name of
            None \<Rightarrow> (Ret None, s)
          | Some k \<Rightarrow>
              (case xv6fs_iget K (unat (inum (the (slot_at s dir k)))) (s\<lparr>holds := holds s + 1\<rparr>) of
                 (Inr ino, s') \<Rightarrow> (Ret (Some ino), brelse s')
               | (Inl e, s') \<Rightarrow> (Err e, brelse s')))"
proof -
  obtain r c s1 where call: "xv6fs_find_entry K dir name s = Some (r, c, s1)"
    and post: "found_at s dir (slot_of s dir name) (r, c, s1)"
    using find_entry_post [OF assms(1), of name] by (metis surj_pair)
  show ?thesis
  proof (cases "slot_of s dir name")
    case None
    then have "r = De_null" "c_bh c = None" "s1 = s"
      using post by (auto simp: found_at_def cursor_base_def)
    then show ?thesis using assms(2) call None by (simp add: xv6fs_lookup_def release_dir_cursor_def)
  next
    case (Some k)
    then obtain b where p: "r = De_entry" "c_bh c = Some b" "slot_at s dir k = Some (cursor_dirent s1 c)"
      and base: "cursor_base c s1 = s"
      using post by (auto simp: found_at_def cursor_at_def)
    have "s1 = s\<lparr>holds := holds s + 1\<rparr>" using cursor_base_ghost [OF base] p(2) by simp
    then show ?thesis using assms(2) call Some p
      by (auto simp: xv6fs_lookup_def release_dir_cursor_def split: prod.splits sum.splits)
  qed
qed

text \<open>Removal.\<close>

abbreviation blank_dirent :: xv6fs_dirent where
  "blank_dirent \<equiv> \<lparr>inum = 0, de_name = replicate 14 0\<rparr>"

lemma unlink_eq:
  assumes "dir_ok K s dir"
  shows "xv6fs_unlink K dir name ino s =
    Some (case slot_of s dir name of
            None \<Rightarrow> (Err ENOENT, s)
          | Some k \<Rightarrow>
              let b = the (file_map s dir (k div 32))
              in (Ret (), inode_dec_link_count ino (mark_buffer_dirty b
                    (b_store b (put_dirent (16 * (k mod 32)) blank_dirent (disk s b)) s))))"
proof -
  obtain r c s1 where call: "xv6fs_find_entry K dir name s = Some (r, c, s1)"
    and post: "found_at s dir (slot_of s dir name) (r, c, s1)"
    using find_entry_post [OF assms, of name] by (metis surj_pair)
  show ?thesis
  proof (cases "slot_of s dir name")
    case None
    then have "r = De_null" "c_bh c = None" "s1 = s"
      using post by (auto simp: found_at_def cursor_base_def)
    then show ?thesis using call None by (simp add: xv6fs_unlink_def release_dir_cursor_def)
  next
    case (Some k)
    then obtain b where p: "r = De_entry" "c_bh c = Some b" "file_map s dir (k div 32) = Some b"
      "c_de c = Some (16 * (k mod 32))" and base: "cursor_base c s1 = s"
      using post by (auto simp: found_at_def cursor_at_def)
    have s1: "s1 = s\<lparr>holds := holds s + 1\<rparr>" using cursor_base_ghost [OF base] p(2) by simp
    have rel: "brelse (mark_buffer_dirty b (b_store b d (s\<lparr>holds := holds s + 1\<rparr>))) =
        mark_buffer_dirty b (b_store b d s)" for d
      by (simp add: buffer_defs)
    show ?thesis using call Some p s1
      by (simp add: xv6fs_unlink_def release_dir_cursor_def Let_def rel)
  qed
qed

section \<open>The directory operations\<close>

lemma is_empty_eq:
  "dir_ok K s ino \<Longrightarrow> xv6fs_dir_is_empty K ino s = Some (Ret (length (live_slots s ino 0) \<le> 2), s)"
  using dir_is_empty_loop_eq [OF _ cursor_at_init(1,2), of K s ino 0]
  by (simp add: xv6fs_dir_is_empty_def)

text \<open>What creating an inode keeps of a directory that is already cached.\<close>

lemma new_inode_keeps_dir:
  assumes "xv6fs_new_inode K mode s = (Inr ino, t)" "dir \<noteq> ino"
  shows "xv6fs_i t dir = xv6fs_i s dir" "file_map t dir = file_map s dir" "slot_at t dir = slot_at s dir"
    "bmap_inv t = bmap_inv s" "imap_ok t dir = imap_ok s dir" "dir_ok K t dir = dir_ok K s dir"
    "nslots t dir = nslots s dir" "live t dir = live s dir" "free_slot t dir = free_slot s dir"
proof -
  note n = new_inode_Inr [OF assms(1)]
  show i: "xv6fs_i t dir = xv6fs_i s dir" using n(4) assms(2) by (simp add: xv6fs_i_def)
  have al: "addr_list t dir = addr_list s dir" using n(7) i by (intro addr_list_cong) simp_all
  show f: "file_map t dir = file_map s dir"
    using n(7) i by (simp add: file_map_def ind_entries_def Let_def fun_eq_iff)
  show sl: "slot_at t dir = slot_at s dir" by (rule slot_at_cong [OF f n(7)])
  show "bmap_inv t = bmap_inv s" by (rule bmap_inv_cong [OF n(7,8)])
  have bu: "block_used t = block_used s" by (rule block_used_cong [OF n(7,8)])
  show "imap_ok t dir = imap_ok s dir"
    using n(4,8) assms(2) i by (simp add: imap_ok_def inode_blocks_def al bu data_blocks_def domIff)
  show "dir_ok K t dir = dir_ok K s dir" by (simp add: dir_ok_def i f)
  show ns: "nslots t dir = nslots s dir" by (simp add: nslots_def i)
  show lv: "live t dir = live s dir" by (simp add: live_def fun_eq_iff sl)
  show "free_slot t dir = free_slot s dir" unfolding free_slot_def ns lv ..
qed

section \<open>A cursor that does not return\<close>

text \<open>
  Less than one entry is left and the block is a hole: skipping the hole does
  not move the cursor.
\<close>

definition cursor_stuck :: "kernel \<Rightarrow> nat \<Rightarrow> xv6fs_dir_cursor \<Rightarrow> fs \<Rightarrow> bool" where
  "cursor_stuck K ino c s \<longleftrightarrow>
     c_bh c = None \<and> 0 \<le> c_pos c \<and> c_pos c < dir_size s ino \<and> dir_size s ino - c_pos c < 16 \<and>
     xv6fs_get_block K ino (nat (c_pos c div 512)) False s = (Inr Unmapped, s)"

lemma skip_hole_stuck:
  assumes "cursor_stuck K ino c s"
  shows "cursor_stuck K ino (skip_hole (dir_size s ino) c) s"
proof -
  let ?m = "min (512 - c_pos c mod 512) (dir_size s ino - c_pos c)"
  have "0 \<le> ?m" "?m < 16"
    using assms pos_mod_bound [of 512 "c_pos c"] by (auto simp: cursor_stuck_def)
  then have "?m - ?m mod 16 = 0" by simp
  then have "c_pos (skip_hole (dir_size s ino) c) = c_pos c" "c_bh (skip_hole (dir_size s ino) c) = c_bh c"
    by (simp_all add: skip_hole_def Let_def)
  then show ?thesis using assms by (simp add: cursor_stuck_def)
qed

lemma resolve_stuck:
  assumes "resolve_block K ino c s = Some y" shows "\<not> cursor_stuck K ino c s"
proof (rule resolve_block.raw_induct [where P = "\<lambda>K ino c s y. \<not> cursor_stuck K ino c s", OF _ assms])
  fix f K ino c s y
  assume IH: "\<And>K ino c s y. f K ino c s = Some y \<Longrightarrow> \<not> cursor_stuck K ino c s"
    and body: "(if 0 \<le> c_pos c \<and> c_pos c < dir_size s ino \<and> c_bh c = None then
        (case xv6fs_get_block K ino (nat (c_pos c div 512)) False s of
           (Inl e, s1) \<Rightarrow> Some (Some (De_err e), c, s1)
         | (Inr Unmapped, s1) \<Rightarrow> f K ino (skip_hole (dir_size s ino) c) s1
         | (Inr (Mapped b new), s1) \<Rightarrow>
             (case sb_bread K s1 b of
                None \<Rightarrow> Some (Some (De_err EIO), c\<lparr>c_de := None\<rparr>, s1)
              | Some s2 \<Rightarrow>
                  if c_pos c mod 512 \<noteq> 0 then Some (None, c\<lparr>c_bh := Some b\<rparr>, s2)
                  else if inum (dirent_at (disk s2 b) 0) = 0
                       then Some (None, note_empty (c\<lparr>c_bh := Some b, c_de := Some 0\<rparr>), s2)
                       else Some (Some De_entry, c\<lparr>c_bh := Some b, c_de := Some 0\<rparr>, s2)))
      else Some (None, c, s)) = Some y"
  show "\<not> cursor_stuck K ino c s"
  proof
    assume st: "cursor_stuck K ino c s"
    then have "f K ino (skip_hole (dir_size s ino) c) s = Some y"
      using body by (simp add: cursor_stuck_def)
    then show False using IH skip_hole_stuck [OF st] by blast
  qed
qed

lemma advance_stuck: "cursor_stuck K ino c s \<Longrightarrow> advance_dir_cursor K ino c s = None"
  using resolve_stuck [of K ino c s] by (subst advance_dir_cursor.simps) (cases "resolve_block K ino c s"; auto)

section \<open>Link counts\<close>

lemma link_count_views:
  fixes n :: u32 and s :: fs and i :: nat
  defines "t \<equiv> mark_inode_dirty i (set_nlink i n s)"
  shows "xv6fs_i t i = (xv6fs_i s i)\<lparr>i_nlink := n\<rparr>" "j \<noteq> i \<Longrightarrow> xv6fs_i t j = xv6fs_i s j"
    "slot_at t d = slot_at s d" "live t d = live s d" "nslots t d = nslots s d"
    "file_map t d = file_map s d" "bmap_inv t = bmap_inv s" "holds t = holds s" "disk t = disk s"
    "dir_ok K t d = dir_ok K s d" "raw_sb t = raw_sb s" "i_size (xv6fs_i t d) = i_size (xv6fs_i s d)"
    "block_used t = block_used s"
proof -
  show x: "xv6fs_i t i = (xv6fs_i s i)\<lparr>i_nlink := n\<rparr>" "j \<noteq> i \<Longrightarrow> xv6fs_i t j = xv6fs_i s j" for j
    by (simp_all add: t_def set_nlink_def inode_defs)
  have a: "i_addrs (xv6fs_i t d) = i_addrs (xv6fs_i s d)" and z: "i_size (xv6fs_i t d) = i_size (xv6fs_i s d)"
    for d by (simp_all add: t_def set_nlink_def inode_defs)
  show dk: "disk t = disk s" and rs: "raw_sb t = raw_sb s" "holds t = holds s"
    by (simp_all add: t_def set_nlink_def set_inode_def)
  show f: "file_map t d = file_map s d" by (simp add: file_map_def ind_entries_def Let_def fun_eq_iff a dk)
  show sl: "slot_at t d = slot_at s d" by (rule slot_at_cong [OF f dk])
  show "live t d = live s d" by (simp add: live_def fun_eq_iff sl)
  show "nslots t d = nslots s d" "i_size (xv6fs_i t d) = i_size (xv6fs_i s d)"
    by (simp_all add: nslots_def z)
  show "bmap_inv t = bmap_inv s" by (rule bmap_inv_cong [OF dk rs(1)])
  show "block_used t = block_used s" by (rule block_used_cong [OF dk rs(1)])
  show "dir_ok K t d = dir_ok K s d" by (simp add: dir_ok_def f a z)
qed

lemmas dec_views = link_count_views [where n = "i_nlink (xv6fs_i s i) - 1" and s = s and i = i for s i,
  folded inode_dec_link_count_def]
lemmas inc_views = link_count_views [where n = "i_nlink (xv6fs_i s i) + 1" and s = s and i = i for s i,
  folded inode_inc_link_count_def]

section \<open>An example directory\<close>

definition demo_dir :: fs where
  "demo_dir = snd (the (xv6fs_dir_add_entry ref_kernel 1 [97] 2 demo_fs))"

lemma ref_io_ok: "io_ok ref_kernel"
  by (simp add: io_ok_def)

lemma demo_dir_ok: "dir_ok ref_kernel demo_fs 1" "nslots demo_fs 1 = 0" "free_slot demo_fs 1 = 0"
  by (simp_all add: dir_ok_def nslots_def free_slot_def)

lemma demo_add: "xv6fs_dir_add_entry ref_kernel 1 [97] 2 demo_fs = Some (Ret (), demo_dir)"
proof -
  let ?res = "dir_write_entry ref_kernel 1 [97] 2 0 demo_fs"
  have add: "xv6fs_dir_add_entry ref_kernel 1 [97] 2 demo_fs = Some ?res"
    using add_entry_eq [OF demo_dir_ok(1), of "[97]" 2] demo_dir_ok(3) by simp
  have "fst ?res = Ret ()"
    using demo_get_block
    by (simp add: dir_write_entry_def sb_getblk_def store_entry_def Let_def)
  then show ?thesis using add by (simp add: demo_dir_def prod_eq_iff)
qed

section \<open>Properties\<close>

lemma add_entry_post:
  assumes "kernel_bitops K" "bmap_inv s" "imap_ok s dir" "dir_ok K s dir" "io_ok K"
    and "length name \<le> 14" "xv6fs_dir_add_entry K dir name ino s = Some res"
  shows "entry_post K s dir (free_slot s dir) (new_dirent name ino) res"
    "fst res = Ret () \<Longrightarrow> free_slot s dir < 4480"
proof -
  let ?k = "free_slot s dir"
  have res: "res = dir_write_entry K dir name ino (16 * int ?k) s"
    using add_entry_eq [OF assms(4,6), of ino] assms(7) by simp
  have full: "res = (Err EFBIG, s)" if "\<not> ?k < 4480"
  proof -
    have "140 \<le> ?k div 32" using that by linarith
    then have "xv6fs_get_block K dir (?k div 32) True s = (Inl EFBIG, s)"
      by (simp add: xv6fs_get_block_def)
    then show ?thesis unfolding res dir_write_entry_def pos_block(1) by simp
  qed
  show "entry_post K s dir ?k (new_dirent name ino) res"
    using dir_write_entry_post [OF assms(1-6), of ?k ino] res full assms(2,3)
    by (cases "?k < 4480") (auto simp: entry_post_def dir_frame_def same_tables_def)
  show "fst res = Ret () \<Longrightarrow> ?k < 4480" using full by (cases "?k < 4480") simp_all
qed



end
