(* ===== verification/Xv6fs_Namespace.thy ===== *)
theory Xv6fs_Namespace
  imports Xv6fs_Dirops
begin

text \<open>
  A directory as a finite map from names to inode numbers, and the functions
  of \<^verbatim>\<open>src/dir.c\<close> as operations on that map: \<open>xv6fs_dir_add_entry\<close> adds a
  pair, \<open>xv6fs_unlink\<close> removes one, \<open>xv6fs_lookup\<close> reads one and
  \<open>xv6fs_readdir\<close> lists them all.  The contract of such a name space is the
  locale \<open>name_space\<close>; it is interpreted on the driver's functions, which
  gives that every sequence of insertions and removals returns and computes
  what the map computes.
\<close>

section \<open>The contract of a name space\<close>

datatype ('n, 'v, 't) name_op = Insert 'n 'v | Remove 'n 't

text \<open>
  A client runs a list of operations and records which succeeded.  As the
  VFS does, it does not insert a name that is there already.
\<close>

fun run_ops ::
    "('s \<Rightarrow> 'n \<Rightarrow> 'v option) \<Rightarrow> ('n \<Rightarrow> 'v \<Rightarrow> 's \<Rightarrow> (bool \<times> 's) option) \<Rightarrow>
     ('n \<Rightarrow> 't \<Rightarrow> 's \<Rightarrow> (bool \<times> 's) option) \<Rightarrow> ('n, 'v, 't) name_op list \<Rightarrow> 's \<Rightarrow>
     (bool list \<times> 's) option" where
  "run_ops view ins rem [] s = Some ([], s)"
| "run_ops view ins rem (Insert n v # ops) s =
     Option.bind (if view s n = None then ins n v s else Some (False, s)) (\<lambda>(ok, s1).
       map_option (apfst ((#) ok)) (run_ops view ins rem ops s1))"
| "run_ops view ins rem (Remove n t # ops) s =
     Option.bind (rem n t s) (\<lambda>(ok, s1).
       map_option (apfst ((#) ok)) (run_ops view ins rem ops s1))"

text \<open>The same operations on a map, given which of them succeeded.\<close>

fun map_run :: "('n, 'v, 't) name_op list \<Rightarrow> bool list \<Rightarrow> ('n \<Rightarrow> 'v option) \<Rightarrow> 'n \<Rightarrow> 'v option" where
  "map_run (Insert n v # ops) (ok # oks) m = map_run ops oks (if ok then m(n \<mapsto> v) else m)"
| "map_run (Remove n t # ops) (ok # oks) m = map_run ops oks (m(n := None))"
| "map_run ops oks m = m"

fun op_valid :: "('n \<Rightarrow> 'v \<Rightarrow> bool) \<Rightarrow> ('n, 'v, 't) name_op \<Rightarrow> bool" where
  "op_valid valid (Insert n v) = valid n v"
| "op_valid valid (Remove n t) = True"

locale name_space =
  fixes inv :: "'s \<Rightarrow> bool"
    and view :: "'s \<Rightarrow> 'n \<Rightarrow> 'v option"
    and valid :: "'n \<Rightarrow> 'v \<Rightarrow> bool"
    and ins :: "'n \<Rightarrow> 'v \<Rightarrow> 's \<Rightarrow> (bool \<times> 's) option"
    and rem :: "'n \<Rightarrow> 't \<Rightarrow> 's \<Rightarrow> (bool \<times> 's) option"
  assumes ins_refines: "inv s \<Longrightarrow> valid n v \<Longrightarrow> view s n = None \<Longrightarrow>
      \<exists>ok s'. ins n v s = Some (ok, s') \<and> inv s' \<and> view s' = (if ok then (view s)(n \<mapsto> v) else view s)"
    and rem_refines: "inv s \<Longrightarrow>
      \<exists>s'. rem n t s = Some (view s n \<noteq> None, s') \<and> inv s' \<and> view s' = (view s)(n := None)"
begin

lemma run_refines:
  assumes "inv s" "list_all (op_valid valid) ops"
  shows "\<exists>oks s'. run_ops view ins rem ops s = Some (oks, s') \<and> length oks = length ops \<and>
    inv s' \<and> view s' = map_run ops oks (view s)"
  using assms
proof (induction ops arbitrary: s)
  case Nil
  then show ?case by simp
next
  case (Cons x ops)
  show ?case
  proof (cases x)
    case (Insert n v)
    have "\<exists>ok s1. (if view s n = None then ins n v s else Some (False, s)) = Some (ok, s1) \<and> inv s1 \<and>
        view s1 = (if ok then (view s)(n \<mapsto> v) else view s)"
      using ins_refines [of s n v] Cons.prems Insert by (cases "view s n") auto
    then obtain ok s1 where step: "(if view s n = None then ins n v s else Some (False, s)) = Some (ok, s1)"
      "inv s1" "view s1 = (if ok then (view s)(n \<mapsto> v) else view s)" by blast
    have "list_all (op_valid valid) ops" using Cons.prems by simp
    with Cons.IH [OF step(2)] obtain oks s'
      where "run_ops view ins rem ops s1 = Some (oks, s')" "length oks = length ops" "inv s'"
        "view s' = map_run ops oks (view s1)" by blast
    then show ?thesis using step Insert by (intro exI [of _ "ok # oks"] exI [of _ s']) simp
  next
    case (Remove n t)
    obtain s1 where step: "rem n t s = Some (view s n \<noteq> None, s1)" "inv s1" "view s1 = (view s)(n := None)"
      using rem_refines Cons.prems by blast
    have "list_all (op_valid valid) ops" using Cons.prems by simp
    with Cons.IH [OF step(2)] obtain oks s'
      where "run_ops view ins rem ops s1 = Some (oks, s')" "length oks = length ops" "inv s'"
        "view s' = map_run ops oks (view s1)" by blast
    then show ?thesis using step Remove
      by (intro exI [of _ "(view s n \<noteq> None) # oks"] exI [of _ s']) simp
  qed
qed

lemma insert_remove:
  assumes "inv s" "valid n v" "view s n = None" "ins n v s = Some (True, s1)"
  shows "\<exists>s2. rem n t s1 = Some (True, s2) \<and> inv s2 \<and> view s2 = view s"
proof -
  have s1: "inv s1" "view s1 = (view s)(n \<mapsto> v)" using ins_refines [OF assms(1-3)] assms(4) by auto
  then show ?thesis using rem_refines [OF s1(1), of n t] assms(3) by (auto simp: fun_upd_idem)
qed

end

section \<open>A directory as a map\<close>

definition dir_map :: "fs \<Rightarrow> nat \<Rightarrow> byte list \<Rightarrow> u16 option" where
  "dir_map s dir name = map_option (\<lambda>k. inum (the (slot_at s dir k))) (slot_of s dir name)"

definition dir_entries :: "fs \<Rightarrow> nat \<Rightarrow> (byte list \<times> u16) list" where
  "dir_entries s dir = map (slot_entry s dir) (live_slots s dir 0)"

definition unique_names :: "fs \<Rightarrow> nat \<Rightarrow> bool" where
  "unique_names s dir \<longleftrightarrow> distinct (map fst (dir_entries s dir))"

definition dir_inv :: "kernel \<Rightarrow> nat \<Rightarrow> fs \<Rightarrow> bool" where
  "dir_inv K dir s \<longleftrightarrow> bmap_inv s \<and> imap_ok s dir \<and> dir_ok K s dir \<and> unique_names s dir"

lemma map_of_find:
  "map_of (map f (filter P xs)) n = map_option (snd \<circ> f) (find (\<lambda>x. P x \<and> fst (f x) = n) xs)"
  by (induction xs) (simp_all add: prod_eq_iff split: prod.splits)

lemma dir_map_entries: "dir_map s dir = map_of (dir_entries s dir)"
  by (simp add: fun_eq_iff dir_map_def dir_entries_def live_slots_def map_of_find slot_of_def
      slot_entry_def comp_def)

lemma unique_names_iff:
  "unique_names s dir \<longleftrightarrow>
     (\<forall>i j. i < nslots s dir \<and> j < nslots s dir \<and> live s dir i \<and> live s dir j \<and>
        slot_name (the (slot_at s dir i)) = slot_name (the (slot_at s dir j)) \<longrightarrow> i = j)"
  by (auto simp: unique_names_def dir_entries_def live_slots_def distinct_map inj_on_def slot_entry_def comp_def)

lemma slot_of_Some:
  "slot_of s dir name = Some k \<Longrightarrow>
   k < nslots s dir \<and> live s dir k \<and> slot_name (the (slot_at s dir k)) = name"
  unfolding slot_of_def by (auto dest!: find_Some_iff [THEN iffD1])

lemma slot_of_iff:
  assumes "unique_names s dir"
  shows "slot_of s dir name = Some k \<longleftrightarrow>
    k < nslots s dir \<and> live s dir k \<and> slot_name (the (slot_at s dir k)) = name"
proof
  assume k: "k < nslots s dir \<and> live s dir k \<and> slot_name (the (slot_at s dir k)) = name"
  show "slot_of s dir name = Some k"
    unfolding slot_of_def
    using k assms by (intro find_unique) (auto simp: unique_names_iff)
qed (rule slot_of_Some)

lemma dir_map_iff:
  assumes "unique_names s dir"
  shows "dir_map s dir name = Some v \<longleftrightarrow>
    (\<exists>k < nslots s dir. live s dir k \<and> slot_name (the (slot_at s dir k)) = name \<and>
       inum (the (slot_at s dir k)) = v)"
  using slot_of_iff [OF assms] by (auto simp: dir_map_def)

lemma dir_map_None: "dir_map s dir name = None \<longleftrightarrow> slot_of s dir name = None"
  by (simp add: dir_map_def)

lemma map_eqI: "(\<And>n v. f n = Some v \<longleftrightarrow> g n = Some v) \<Longrightarrow> f = g"
  by (rule ext) (metis not_None_eq)

lemma fill_insert:
  assumes "slot_filled s dir k de s'" "inum de \<noteq> 0" "unique_names s dir"
    and "slot_of s dir (slot_name de) = None" "nslots s' dir = max (nslots s dir) (Suc k)"
    and "k \<le> nslots s dir" "k < nslots s dir \<Longrightarrow> \<not> live s dir k"
  shows "unique_names s' dir" "dir_map s' dir = (dir_map s dir)(slot_name de \<mapsto> inum de)"
proof -
  have sl: "slot_at s' dir k = Some de" "live s' dir k" 
    using assms(1,2) by (simp_all add: slot_filled_def live_def)
  have old: "live s' dir j \<longleftrightarrow> live s dir j" "live s dir j \<Longrightarrow> slot_at s' dir j = slot_at s dir j"
    if "j \<noteq> k" for j using assms(1) that by (auto simp: slot_filled_def)
  have rng: "j < nslots s' dir \<longleftrightarrow> j < nslots s dir" if "j \<noteq> k" for j
    using assms(5,6) that by auto
  have k: "k < nslots s' dir" using assms(5) by simp
  have fresh: "slot_name (the (slot_at s dir j)) \<noteq> slot_name de" if "j < nslots s dir" "live s dir j" for j
    using assms(4) that by (auto simp: slot_of_def find_None_iff)
  show u: "unique_names s' dir"
    unfolding unique_names_iff
  proof (intro allI impI, elim conjE)
    fix i j assume *: "i < nslots s' dir" "j < nslots s' dir" "live s' dir i" "live s' dir j"
      "slot_name (the (slot_at s' dir i)) = slot_name (the (slot_at s' dir j))"
    show "i = j"
    proof (cases "i = k \<or> j = k")
      case True
      then show ?thesis using * old rng fresh sl(1) by (metis option.sel)
    next
      case False
      then show ?thesis using * old rng assms(3) by (simp add: unique_names_iff)
    qed
  qed
  show "dir_map s' dir = (dir_map s dir)(slot_name de \<mapsto> inum de)"
  proof (rule map_eqI)
    fix n v
    have "dir_map s' dir n = Some v \<longleftrightarrow> n = slot_name de \<and> v = inum de \<or>
        (\<exists>j < nslots s dir. live s dir j \<and> slot_name (the (slot_at s dir j)) = n \<and>
           inum (the (slot_at s dir j)) = v)"
      unfolding dir_map_iff [OF u] using sl k old rng assms(7) by (metis option.sel)
    also have "\<dots> \<longleftrightarrow> ((dir_map s dir)(slot_name de \<mapsto> inum de)) n = Some v"
      unfolding dir_map_iff [OF assms(3), symmetric]
      using assms(4) dir_map_None [of s dir "slot_name de"] by auto
    finally show "dir_map s' dir n = Some v \<longleftrightarrow> ((dir_map s dir)(slot_name de \<mapsto> inum de)) n = Some v" .
  qed
qed

lemma fill_remove:
  assumes "slot_filled s dir k blank_dirent s'" "unique_names s dir" "slot_of s dir name = Some k"
    and "nslots s' dir = nslots s dir"
  shows "unique_names s' dir" "dir_map s' dir = (dir_map s dir)(name := None)"
proof -
  have dead: "\<not> live s' dir k" using assms(1) by (simp add: slot_filled_def live_def)
  have old: "live s' dir j \<longleftrightarrow> live s dir j" "live s dir j \<Longrightarrow> slot_at s' dir j = slot_at s dir j"
    if "j \<noteq> k" for j using assms(1) that by (auto simp: slot_filled_def)
  note k = slot_of_Some [OF assms(3)]
  show u: "unique_names s' dir"
    using assms(2,4) dead old unfolding unique_names_iff by metis
  show "dir_map s' dir = (dir_map s dir)(name := None)"
  proof (rule map_eqI)
    fix n v
    have "dir_map s' dir n = Some v \<longleftrightarrow> n \<noteq> name \<and>
        (\<exists>j < nslots s dir. live s dir j \<and> slot_name (the (slot_at s dir j)) = n \<and>
           inum (the (slot_at s dir j)) = v)"
      unfolding dir_map_iff [OF u] using k dead old assms(2,4) unfolding unique_names_iff by metis
    then show "dir_map s' dir n = Some v \<longleftrightarrow> ((dir_map s dir)(name := None)) n = Some v"
      unfolding dir_map_iff [OF assms(2), symmetric] by simp
  qed
qed

section \<open>The driver's functions on the map\<close>

lemma u16_ino:
  assumes "0 < ino" "ino < 65536"
  shows "unat (of_nat ino :: u16) = ino" "(of_nat ino :: u16) \<noteq> 0"
proof -
  show u: "unat (of_nat ino :: u16) = ino" using assms by (simp add: unat_of_nat take_bit_nat_eq_self)
  show "(of_nat ino :: u16) \<noteq> 0" using u assms(1) by (metis unat_0 less_irrefl)
qed

lemma add_entry_refines:
  assumes "kernel_bitops K" "io_ok K" "dir_inv K dir s" "length name \<le> 14" "0 \<notin> set name"
    and "(of_nat ino :: u16) \<noteq> 0" "dir_map s dir name = None"
  shows "\<exists>r s'. xv6fs_dir_add_entry K dir name ino s = Some (r, s') \<and> dir_frame dir s s' \<and>
    dir_inv K dir s' \<and> r \<in> {Ret (), Err ENOSPC, Err EIO, Err EFBIG} \<and>
    dir_map s' dir = (if r = Ret () then (dir_map s dir)(name \<mapsto> of_nat ino) else dir_map s dir)"
proof -
  have inv: "bmap_inv s" "imap_ok s dir" "dir_ok K s dir" "unique_names s dir"
    using assms(3) by (simp_all add: dir_inv_def)
  let ?k = "free_slot s dir" and ?de = "new_dirent name ino"
  obtain r s' where res: "xv6fs_dir_add_entry K dir name ino s = Some (r, s')"
    using add_entry_eq [OF inv(3) assms(4)] by (metis surj_pair)
  note p = add_entry_post(1) [OF assms(1) inv(1-3) assms(2,4) res]
  have f: "dir_frame dir s s'" using p by (simp add: entry_post_def)
  have f': "bmap_inv s'" "imap_ok s' dir" using f by (simp_all add: dir_frame_def)
  have ret: "r \<in> {Ret (), Err ENOSPC, Err EIO, Err EFBIG}" using p by (auto simp: entry_post_def)
  have "dir_inv K dir s' \<and>
      dir_map s' dir = (if r = Ret () then (dir_map s dir)(name \<mapsto> of_nat ino) else dir_map s dir)"
  proof (cases "r = Ret ()")
    case True
    then have fill: "slot_filled s dir ?k ?de s'"
      and z: "i_size (xv6fs_i s' dir) = 16 * int (max (nslots s dir) (Suc ?k))"
      using p by (simp_all add: entry_post_def)
    have "max (nslots s dir) (Suc ?k) \<le> 4480"
      using dir_ok_size(3) [OF inv(3)] add_entry_post(2) [OF assms(1) inv(1-3) assms(2,4) res] True by simp
    note ok = dir_ok_io [OF assms(2) z this]
    note de = new_dirent_facts(2) [OF assms(4), of ino] new_dirent_facts(3) [OF assms(4,5), of ino]
    have "slot_of s dir (slot_name ?de) = None" using assms(7) de(2) by (simp add: dir_map_None)
    note ins = fill_insert [OF fill _ inv(4) this conjunct2 [OF ok] free_slot_le free_slot_dead]
    show ?thesis using ins de assms(6) True ok f' by (simp add: dir_inv_def)
  next
    case False
    then have sl: "slot_at s' dir = slot_at s dir" and z: "i_size (xv6fs_i s' dir) = i_size (xv6fs_i s dir)"
      using p by (auto simp: entry_post_def)
    have n: "nslots s' dir = nslots s dir" by (simp add: nslots_def z)
    have lv: "live s' dir = live s dir" by (simp add: live_def fun_eq_iff sl)
    have e: "dir_entries s' dir = dir_entries s dir"
      by (simp add: dir_entries_def live_slots_def lv n slot_entry_def [abs_def] sl)
    have "dir_ok K s' dir"
      using dir_ok_io [OF assms(2), of s' dir "nslots s dir"] z dir_ok_size(2,3) [OF inv(3)] by simp
    then show ?thesis using False f' inv(4) e by (simp add: dir_inv_def unique_names_def dir_map_entries)
  qed
  with res f ret show ?thesis by blast
qed

lemma imap_ok_link_count:
  "imap_ok s d \<Longrightarrow> imap_ok (mark_inode_dirty i (set_nlink i n s)) d"
proof -
  let ?t = "mark_inode_dirty i (set_nlink i n s)"
  assume ok: "imap_ok s d"
  have a: "i_addrs (xv6fs_i ?t d) = i_addrs (xv6fs_i s d)" by (simp add: set_nlink_def inode_defs)
  have "addr_list ?t d = addr_list s d"
    unfolding addr_list_def ind_entries_def a link_count_views(9) ..
  moreover have "d \<in> dom (icache ?t)" using ok by (auto simp: imap_ok_def set_nlink_def inode_defs)
  ultimately show ?thesis
    using ok a link_count_views(11,13) [where i = i and n = n and s = s]
    by (simp add: imap_ok_def inode_blocks_def data_blocks_def)
qed

lemma dir_inv_link_count:
  "dir_inv K d s \<Longrightarrow> dir_inv K d (mark_inode_dirty i (set_nlink i n s))"
  using imap_ok_link_count [of s d i n] link_count_views [where i = i and n = n and s = s]
  by (simp add: dir_inv_def unique_names_def dir_entries_def live_slots_def slot_entry_def [abs_def])

lemma dir_map_link_count: "dir_map (mark_inode_dirty i (set_nlink i n s)) d = dir_map s d"
  using link_count_views [where i = i and n = n and s = s]
  by (simp add: dir_map_entries dir_entries_def live_slots_def slot_entry_def [abs_def])

lemma unlink_refines:
  assumes "dir_inv K dir s"
  shows "\<exists>s1. xv6fs_unlink K dir name ino s =
      Some (if dir_map s dir name = None then (Err ENOENT, s) else (Ret (), inode_dec_link_count ino s1)) \<and>
    dir_inv K dir s1 \<and> dir_map s1 dir = (dir_map s dir)(name := None) \<and> same_tables dir s s1 \<and>
    icache s1 = icache s \<and>
    (s1 = s \<or> (\<exists>l b d. file_map s dir l = Some b \<and> length d = 512 \<and> s1 = mark_buffer_dirty b (b_store b d s)))"
proof (cases "slot_of s dir name")
  case None
  then show ?thesis using unlink_eq [of K s dir name ino] assms
    by (intro exI [of _ s]) (simp add: dir_map_def dir_inv_def fun_upd_idem)
next
  case (Some k)
  have inv: "bmap_inv s" "imap_ok s dir" "dir_ok K s dir" "unique_names s dir"
    using assms by (simp_all add: dir_inv_def)
  have "live s dir k" using slot_of_Some [OF Some] by simp
  then obtain b where b: "file_map s dir (k div 32) = Some b"
    by (auto simp: live_def slot_at_def split: option.splits)
  let ?d = "put_dirent (16 * (k mod 32)) blank_dirent (disk s b)"
  let ?s1 = "mark_buffer_dirty b (b_store b ?d s)"
  have wf: "wf_dirent blank_dirent" by (simp add: wf_dirent_def)
  have "length (disk s b) = 512" using inv(1) by (simp add: bmap_inv_def blocks_512_def)
  then have l: "length ?d = 512" using wf mod_32_fits [of k] by simp
  note fs = file_store [OF inv(1,2) b l]
  have "slot_filled s dir k blank_dirent (b_store b ?d s)" by (rule fill_old_block [OF inv(1,2) b wf])
  then have fill: "slot_filled s dir k blank_dirent ?s1" by (simp add: slot_filled_def live_def slot_at_def)
  have n: "nslots ?s1 dir = nslots s dir" by (simp add: nslots_def)
  have ok: "dir_ok K ?s1 dir" using inv(3) fs(3) by (simp add: dir_ok_def)
  have "\<exists>l b d. file_map s dir l = Some b \<and> length d = 512 \<and> ?s1 = mark_buffer_dirty b (b_store b d s)"
    using b l by (intro exI [of _ "k div 32"] exI [of _ b] exI [of _ ?d]) simp
  then show ?thesis
    using fill_remove [OF fill inv(4) Some n] unlink_eq [OF inv(3), of name ino] Some b fs(1,2) ok
    by (intro exI [of _ ?s1]) (auto simp: dir_map_def dir_inv_def same_tables_def Let_def)
qed

text \<open>The operations of a name space, from the driver's functions for one directory.\<close>

definition dir_insert :: "kernel \<Rightarrow> nat \<Rightarrow> byte list \<Rightarrow> u16 \<Rightarrow> fs \<Rightarrow> (bool \<times> fs) option" where
  "dir_insert K dir name v s = map_option (apfst (\<lambda>r. r = Ret ())) (xv6fs_dir_add_entry K dir name (unat v) s)"

definition dir_remove :: "kernel \<Rightarrow> nat \<Rightarrow> byte list \<Rightarrow> nat \<Rightarrow> fs \<Rightarrow> (bool \<times> fs) option" where
  "dir_remove K dir name ino s = map_option (apfst (\<lambda>r. r = Ret ())) (xv6fs_unlink K dir name ino s)"

definition valid_entry :: "byte list \<Rightarrow> u16 \<Rightarrow> bool" where
  "valid_entry name v \<longleftrightarrow> length name \<le> XV6FS_DIRSIZ \<and> 0 \<notin> set name \<and> v \<noteq> 0"

interpretation dirs: name_space "\<lambda>s. kernel_bitops K \<and> io_ok K \<and> dir_inv K dir s"
  "\<lambda>s. dir_map s dir" valid_entry "dir_insert K dir" "dir_remove K dir" for K dir
proof
  fix s name v
  assume inv: "kernel_bitops K \<and> io_ok K \<and> dir_inv K dir s" and v: "valid_entry name v"
    and fresh: "dir_map s dir name = None"
  have "\<exists>r s'. xv6fs_dir_add_entry K dir name (unat v) s = Some (r, s') \<and> dir_frame dir s s' \<and>
    dir_inv K dir s' \<and> r \<in> {Ret (), Err ENOSPC, Err EIO, Err EFBIG} \<and>
    dir_map s' dir = (if r = Ret () then (dir_map s dir)(name \<mapsto> of_nat (unat v)) else dir_map s dir)"
    using inv v by (intro add_entry_refines) (auto simp: valid_entry_def fresh)
  then show "\<exists>ok s'. dir_insert K dir name v s = Some (ok, s') \<and>
      (kernel_bitops K \<and> io_ok K \<and> dir_inv K dir s') \<and>
      dir_map s' dir = (if ok then (dir_map s dir)(name \<mapsto> v) else dir_map s dir)"
    using inv by (auto simp: dir_insert_def)
next
  fix s name and ino :: nat
  assume inv: "kernel_bitops K \<and> io_ok K \<and> dir_inv K dir s"
  then obtain s1 where "xv6fs_unlink K dir name ino s =
      Some (if dir_map s dir name = None then (Err ENOENT, s) else (Ret (), inode_dec_link_count ino s1))"
    "dir_inv K dir s1" "dir_map s1 dir = (dir_map s dir)(name := None)"
    using unlink_refines [of K dir s name ino] by blast
  then show "\<exists>s'. dir_remove K dir name ino s = Some (dir_map s dir name \<noteq> None, s') \<and>
      (kernel_bitops K \<and> io_ok K \<and> dir_inv K dir s') \<and> dir_map s' dir = (dir_map s dir)(name := None)"
    using inv by (cases "dir_map s dir name")
      (auto simp: dir_remove_def inode_dec_link_count_def dir_inv_link_count dir_map_link_count fun_upd_idem)
qed

section \<open>Properties\<close>

lemma demo_dir_inv: "dir_inv ref_kernel 1 demo_fs"
  using demo_bmap_inv demo_imap_ok demo_dir_ok
  unfolding dir_inv_def unique_names_def dir_entries_def live_slots_def by simp

lemma demo_dir_map: "dir_map demo_fs 1 = Map.empty"
  unfolding dir_map_entries dir_entries_def live_slots_def demo_dir_ok(2) by simp

lemma demo_dir_after:
  "dir_inv ref_kernel 1 demo_dir" "dir_map demo_dir 1 = [[97] \<mapsto> 2]" "icache demo_dir 1 \<noteq> None"
proof -
  have "\<exists>r s'. xv6fs_dir_add_entry ref_kernel 1 [97] 2 demo_fs = Some (r, s') \<and> dir_frame 1 demo_fs s' \<and>
    dir_inv ref_kernel 1 s' \<and> r \<in> {Ret (), Err ENOSPC, Err EIO, Err EFBIG} \<and>
    dir_map s' 1 = (if r = Ret () then (dir_map demo_fs 1)([97] \<mapsto> of_nat 2) else dir_map demo_fs 1)"
    by (rule add_entry_refines [OF ref_kernel_bitops ref_io_ok demo_dir_inv]) (simp_all add: demo_dir_map [unfolded One_nat_def])
  then show "dir_inv ref_kernel 1 demo_dir" "dir_map demo_dir 1 = [[97] \<mapsto> 2]" "icache demo_dir 1 \<noteq> None"
    unfolding demo_add demo_dir_map by (auto simp: dir_frame_def imap_ok_def)
qed

text \<open>
  C13: A directory is a map from names to inode numbers.  Whatever list of
  insertions (of names a directory can hold and that are not yet there) and
  removals a client runs on a well-formed directory, every call returns, the
  directory stays well-formed with unique names, and its content is what the
  successful operations compute on the map.
\<close>

theorem dir_ops_refine_map:
  assumes "kernel_bitops K" "io_ok K" "dir_inv K dir s" "list_all (op_valid valid_entry) ops"
  shows "\<exists>oks s'. run_ops (\<lambda>s. dir_map s dir) (dir_insert K dir) (dir_remove K dir) ops s = Some (oks, s') \<and>
    length oks = length ops \<and> dir_inv K dir s' \<and> dir_map s' dir = map_run ops oks (dir_map s dir)"
  using dirs.run_refines [of K dir s ops] assms by auto

theorem dir_ops_refine_map_witness:
  "\<exists>oks s'. run_ops (\<lambda>s. dir_map s 1) (dir_insert ref_kernel 1) (dir_remove ref_kernel 1)
      [Insert [97] 2, Insert [98] 3, Remove [97] 2] demo_fs = Some (oks, s') \<and>
    length oks = 3 \<and> dir_inv ref_kernel 1 s' \<and>
    dir_map s' 1 = map_run [Insert [97] 2, Insert [98] 3, Remove [97] (2::nat)] oks Map.empty"
proof -
  have "list_all (op_valid valid_entry) [Insert [97] 2, Insert [98] 3, Remove [97] (2::nat)]"
    by (simp add: valid_entry_def)
  from dir_ops_refine_map [OF ref_kernel_bitops ref_io_ok demo_dir_inv this] show ?thesis
    unfolding demo_dir_map by (simp del: run_ops.simps map_run.simps add: numeral_3_eq_3)
qed

text \<open>
  Adding a name and unlinking it again restores the directory: after a
  successful \<open>xv6fs_dir_add_entry\<close> of a new name, \<open>xv6fs_unlink\<close> of that name
  succeeds and leaves the directory with the entries it had before.
\<close>

lemma add_unlink_roundtrip:
  assumes "kernel_bitops K" "io_ok K" "dir_inv K dir s" "length name \<le> XV6FS_DIRSIZ" "0 \<notin> set name"
    and "0 < ino" "ino < 65536" "dir_map s dir name = None"
    and "xv6fs_dir_add_entry K dir name ino s = Some (Ret (), s1)"
  shows "\<exists>s2. xv6fs_unlink K dir name ino s1 = Some (Ret (), s2) \<and> dir_inv K dir s2 \<and>
    dir_map s1 dir name = Some (of_nat ino) \<and> dir_map s2 dir = dir_map s dir"
proof -
  note u = u16_ino(1) [OF assms(6,7)] and v = u16_ino(2) [OF assms(6,7)]
  have "dir_insert K dir name (of_nat ino) s = Some (True, s1)"
    using assms(9) u by (simp add: dir_insert_def)
  then obtain s2 where "dir_remove K dir name ino s1 = Some (True, s2)" "dir_inv K dir s2"
    "dir_map s2 dir = dir_map s dir"
    using dirs.insert_remove [of K dir s name "of_nat ino" s1 ino] assms v by (auto simp: valid_entry_def)
  moreover have "dir_map s1 dir name = Some (of_nat ino)"
    using add_entry_refines [OF assms(1-3), of name ino] assms v by auto
  ultimately show ?thesis by (auto simp: dir_remove_def)
qed

text \<open>
  C21: \<open>xv6fs_lookup\<close> in a well-formed directory returns, with
  \<open>-ENAMETOOLONG\<close> for a name of more than 14 bytes, a negative answer and an
  unchanged state for a name that is not there, and otherwise what
  \<open>xv6fs_iget\<close> gives for the inode number the directory maps the name to;
  the buffer held during that call is released.
\<close>

theorem lookup_correct:
  assumes "dir_inv K dir s"
  shows "xv6fs_lookup K dir name s =
    Some (if XV6FS_DIRSIZ < length name then (Err ENAMETOOLONG, s)
          else case dir_map s dir name of
                 None \<Rightarrow> (Ret None, s)
               | Some v \<Rightarrow>
                   (case xv6fs_iget K (unat v) (s\<lparr>holds := holds s + 1\<rparr>) of
                      (Inr ino, s') \<Rightarrow> (Ret (Some ino), brelse s')
                    | (Inl e, s') \<Rightarrow> (Err e, brelse s')))"
  using assms lookup_eq [of K s dir name]
  by (cases "XV6FS_DIRSIZ < length name") (auto simp: dir_inv_def xv6fs_lookup_def dir_map_def split: option.splits)

theorem lookup_correct_witness:
  "xv6fs_lookup ref_kernel 1 [98] demo_dir = Some (Ret None, demo_dir) \<and>
   xv6fs_lookup ref_kernel 1 (replicate 15 97) demo_dir = Some (Err ENAMETOOLONG, demo_dir)"
  using lookup_correct [OF demo_dir_after(1), of "[98]"]
    lookup_correct [OF demo_dir_after(1), of "replicate 15 97"]
  unfolding demo_dir_after(2) by simp

lemma emit_bounded:
  "emit_slots s ino (\<lambda>out nm i. length out < n) ks out pos =
    (out @ map (slot_entry s ino) (take (n - length out) ks),
     if length ks \<le> n - length out then i_size (xv6fs_i s ino)
     else if n \<le> length out then pos else 16 * int (ks ! (n - length out - 1)) + 16)"
proof (induction ks arbitrary: out pos)
  case (Cons k ks)
  show ?case
  proof (cases "length out < n")
    case True
    then obtain m where m: "n - length out = Suc m" by (metis Suc_diff_Suc)
    then have m': "n - Suc (length out) = m" by simp
    show ?thesis using True m m' by (cases m) (auto simp: Cons.IH)
  qed simp
qed simp

text \<open>
  C17: A listing from the start, into a buffer that takes \<open>n\<close> entries, hands
  out the first \<open>n\<close> live entries in the order of the slots, each once and
  none twice, and changes nothing.  The position left is the one after the
  last entry handed out, or the size when the directory was exhausted; the
  complete listing is exactly the directory as a map.
\<close>

theorem readdir_correct:
  assumes "dir_inv K dir s"
  shows "xv6fs_readdir K dir (\<lambda>out nm i. length out < n) 0 s =
      Some (Ret (), take n (dir_entries s dir),
            (if length (dir_entries s dir) \<le> n then i_size (xv6fs_i s dir)
             else if n = 0 then 0 else 16 * int (live_slots s dir 0 ! (n - 1)) + 16), s) \<and>
    distinct (map fst (dir_entries s dir)) \<and> map_of (dir_entries s dir) = dir_map s dir"
proof -
  have ok: "dir_ok K s dir" "unique_names s dir" using assms by (simp_all add: dir_inv_def)
  have "xv6fs_readdir K dir (\<lambda>out nm i. length out < n) 0 s =
      Some (case emit_slots s dir (\<lambda>out nm i. length out < n) (live_slots s dir 0) [] 0 of
              (o', p') \<Rightarrow> (Ret (), o', p', s))"
    unfolding xv6fs_readdir_def INIT_DIR_CURSOR_def [symmetric]
    by (rule readdir_loop_eq [OF ok(1) cursor_at_init(1,2)])
  then show ?thesis using ok(2)
    by (simp add: emit_bounded dir_entries_def unique_names_def dir_map_entries take_map)
qed

theorem readdir_correct_witness:
  "xv6fs_readdir ref_kernel 1 (\<lambda>out nm i. length out < 5) 0 demo_fs = Some (Ret (), [], 0, demo_fs) \<and>
   (\<exists>p. xv6fs_readdir ref_kernel 1 (\<lambda>out nm i. length out < 5) 0 demo_dir =
      Some (Ret (), take 5 (dir_entries demo_dir 1), p, demo_dir)) \<and>
   map_of (dir_entries demo_dir 1) = [[97] \<mapsto> 2]"
proof -
  have e: "dir_entries demo_fs 1 = []"
    unfolding dir_entries_def live_slots_def demo_dir_ok(2) by simp
  show ?thesis
    using readdir_correct [OF demo_dir_inv, of 5] readdir_correct [OF demo_dir_after(1), of 5]
    unfolding demo_dir_after(2) e by auto
qed

text \<open>
  C37: A listing that was interrupted after the entry in the first slot
  resumes at position 16, and hands that entry out again: the cursor is
  placed on the boundary of the first block, where the resolver returns the
  entry at offset 0 although the position asked for is the one after it.
\<close>

theorem readdir_resume_repeats:
  assumes "dir_inv K dir s" "0 < nslots s dir" "live s dir 0"
  shows "xv6fs_readdir K dir (\<lambda>out nm i. length out < 1) 0 s =
      Some (Ret (), [slot_entry s dir 0], (if length (dir_entries s dir) \<le> 1 then i_size (xv6fs_i s dir) else 16), s) \<and>
    xv6fs_readdir K dir (\<lambda>out nm i. True) 16 s =
      Some (Ret (), dir_entries s dir, i_size (xv6fs_i s dir), s) \<and>
    slot_entry s dir 0 \<in> set (dir_entries s dir)"
proof -
  have ok: "dir_ok K s dir" using assms(1) by (simp add: dir_inv_def)
  have ls: "live_slots s dir 0 = 0 # live_slots s dir (Suc 0)"
    using assms(2,3) by (intro live_slots_next) simp_all
  have all: "emit_slots s ino (\<lambda>out nm i. True) ks out pos =
      (out @ map (slot_entry s ino) ks, i_size (xv6fs_i s ino))" for s ino ks out pos
    by (induction ks arbitrary: out pos) simp_all
  have "xv6fs_readdir K dir (\<lambda>out nm i. True) 16 s =
      Some (case emit_slots s dir (\<lambda>out nm i. True) (live_slots s dir 0) [] 16 of
              (o', p') \<Rightarrow> (Ret (), o', p', s))"
    unfolding xv6fs_readdir_def readdir_16_is_readdir_0 [OF ok assms(2)]
    by (rule readdir_loop_eq [OF ok cursor_at_init(1,2)])
  then show ?thesis
    using readdir_correct [OF assms(1), of 1] ls by (simp add: all dir_entries_def)
qed

lemma demo_dir_slot:
  "nslots demo_dir 1 = 1" "live demo_dir 1 0" "slot_entry demo_dir 1 0 = ([97], 2)"
proof -
  have p: "entry_post ref_kernel demo_fs 1 0 (new_dirent [97] 2) (Ret (), demo_dir)"
    using add_entry_post(1) [OF ref_kernel_bitops demo_bmap_inv demo_imap_ok demo_dir_ok(1) ref_io_ok _ demo_add]
    unfolding demo_dir_ok(3) by simp
  then have s: "slot_at demo_dir 1 0 = Some (new_dirent [97] 2)"
    by (simp add: entry_post_def slot_filled_def)
  have z: "i_size (xv6fs_i demo_dir 1) = 16" using p unfolding entry_post_def demo_dir_ok(2) by simp
  show "nslots demo_dir 1 = 1" unfolding nslots_def z by simp
  have d: "inum (new_dirent [97] 2) = 2" "slot_name (new_dirent [97] 2) = [97]"
    using new_dirent_facts(2,3) [of "[97]" 2] by simp_all
  show "live demo_dir 1 0" unfolding live_def s by (simp add: d)
  show "slot_entry demo_dir 1 0 = ([97], 2)" unfolding slot_entry_def s by (simp add: d)
qed

theorem readdir_resume_repeats_witness:
  "xv6fs_readdir ref_kernel 1 (\<lambda>out nm i. length out < 1) 0 demo_dir =
     Some (Ret (), [([97], 2)], (if length (dir_entries demo_dir 1) \<le> 1 then i_size (xv6fs_i demo_dir 1) else 16), demo_dir) \<and>
   xv6fs_readdir ref_kernel 1 (\<lambda>out nm i. True) 16 demo_dir =
     Some (Ret (), dir_entries demo_dir 1, i_size (xv6fs_i demo_dir 1), demo_dir) \<and>
   ([97], 2) \<in> set (dir_entries demo_dir 1)"
  using readdir_resume_repeats [OF demo_dir_after(1) _ demo_dir_slot(2)]
  unfolding demo_dir_slot(1,3) by simp

text \<open>
  C36: A listing asked to start at a position between 1 and 15, which a seek
  can set, dereferences a null buffer when the directory is longer than
  that: the cursor starts before the first block and is advanced into the
  middle of it without the block having been read.
\<close>

theorem readdir_seek_null:
  assumes "0 < pos" "pos < 16" "pos < dir_size s dir"
  shows "xv6fs_readdir K dir emit pos s = Some (Oops, [], pos, s)"
proof -
  let ?c = "INIT_DIR_CURSOR_OFFSET pos"
  have "resolve_block K dir ?c s = Some (None, ?c, s)"
    using assms(2) by (intro resolve_idle) (simp add: INIT_DIR_CURSOR_OFFSET_def)
  then have "advance_dir_cursor K dir ?c s = Some (De_oops, ?c\<lparr>c_pos := c_pos ?c + 16\<rparr>, s)"
    using assms by (subst advance_dir_cursor.simps) (simp add: INIT_DIR_CURSOR_OFFSET_def Let_def)
  then show ?thesis unfolding xv6fs_readdir_def by (subst readdir_loop.simps) simp
qed

theorem readdir_seek_null_witness:
  "xv6fs_readdir ref_kernel 1 (\<lambda>out nm i. True) 5 demo_dir = Some (Oops, [], 5, demo_dir)"
proof -
  have "dir_size demo_dir 1 = 16"
    using dir_ok_size(1) [of ref_kernel demo_dir 1] demo_dir_after(1) demo_dir_slot(1)
    by (simp add: dir_inv_def)
  then show ?thesis using readdir_seek_null [of 5 demo_dir 1] by simp
qed

text \<open>
  C35: The cursor need not return.  In a directory whose size is positive but
  less than one entry and whose first block is not mapped, \<open>xv6fs_lookup\<close>
  of any name loops for ever: skipping the hole rounds down to zero bytes.
\<close>

theorem lookup_hangs:
  assumes "0 < dir_size s dir" "dir_size s dir < 16"
    and "i_addrs (xv6fs_i s dir) ! 0 = 0" "length name \<le> XV6FS_DIRSIZ"
  shows "xv6fs_lookup K dir name s = None"
proof -
  let ?c = "INIT_DIR_CURSOR\<lparr>c_pos := 0\<rparr>"
  have "resolve_block K dir INIT_DIR_CURSOR s = Some (None, INIT_DIR_CURSOR, s)"
    by (rule resolve_idle) (simp add: INIT_DIR_CURSOR_def INIT_DIR_CURSOR_OFFSET_def)
  then have "advance_dir_cursor K dir INIT_DIR_CURSOR s = advance_dir_cursor K dir ?c s"
    using assms(1)
    by (subst advance_dir_cursor.simps)
       (simp add: Let_def INIT_DIR_CURSOR_def INIT_DIR_CURSOR_OFFSET_def release_dir_cursor_def)
  also have "\<dots> = None"
    using assms by (intro advance_stuck)
      (simp add: cursor_stuck_def INIT_DIR_CURSOR_def INIT_DIR_CURSOR_OFFSET_def xv6fs_get_block_def)
  finally have "xv6fs_find_entry K dir name s = None"
    unfolding xv6fs_find_entry_def by (subst find_entry_loop.simps) simp
  then show ?thesis using assms(4) by (simp add: xv6fs_lookup_def)
qed

theorem lookup_hangs_witness:
  "xv6fs_lookup ref_kernel 1 [97] (set_inode 1 (demo_root\<lparr>i_size := 8\<rparr>) demo_fs) = None"
  by (rule lookup_hangs) (simp_all add: dir_size_def demo_root_def blank_inode_def)

section \<open>Removing and linking\<close>

lemma icache_link_count:
  "j \<noteq> i \<Longrightarrow> icache (set_nlink i n s) j = icache s j"
  "dinodes (set_nlink i n s) = dinodes s" "free_inodes_list (set_nlink i n s) = free_inodes_list s"
  "raw_sb (set_nlink i n s) = raw_sb s"
  "i_nlink (xv6fs_i (set_nlink i n s) j) = (if j = i then n else i_nlink (xv6fs_i s j))"
  by (simp_all add: set_nlink_def inode_defs)

lemmas link_count_simps =
  inode_dec_link_count_def inode_inc_link_count_def icache_link_count dir_inv_link_count dir_map_link_count

lemma xv6fs_i_cong: "icache t = icache s \<Longrightarrow> xv6fs_i t = xv6fs_i s"
  by (simp add: xv6fs_i_def fun_eq_iff)

text \<open>
  C22: \<open>xv6fs_unlink\<close> on a well-formed directory returns \<open>-ENOENT\<close> and changes
  nothing when the name is not there; otherwise it removes exactly that name
  from the directory, takes one from the inode's link count, and touches no
  other inode, no table and no buffer count.
\<close>

theorem unlink_correct:
  assumes "dir_inv K dir s"
  shows "\<exists>r s'. xv6fs_unlink K dir name ino s = Some (r, s') \<and> dir_inv K dir s' \<and>
    (if dir_map s dir name = None then r = Err ENOENT \<and> s' = s
     else r = Ret () \<and> dir_map s' dir = (dir_map s dir)(name := None) \<and>
          i_nlink (xv6fs_i s' ino) = i_nlink (xv6fs_i s ino) - 1 \<and>
          (\<forall>j. j \<noteq> ino \<longrightarrow> icache s' j = icache s j) \<and>
          dinodes s' = dinodes s \<and> free_inodes_list s' = free_inodes_list s \<and> holds s' = holds s)"
proof -
  obtain s1 where u: "xv6fs_unlink K dir name ino s =
      Some (if dir_map s dir name = None then (Err ENOENT, s) else (Ret (), inode_dec_link_count ino s1))"
    and s1: "dir_inv K dir s1" "dir_map s1 dir = (dir_map s dir)(name := None)" "same_tables dir s s1"
      "icache s1 = icache s"
    using unlink_refines [OF assms, of name ino] by blast
  show ?thesis
  proof (cases "dir_map s dir name")
    case None
    then show ?thesis using u assms by simp
  next
    case (Some v)
    then show ?thesis
      using u s1 xv6fs_i_cong [OF s1(4)] link_count_views(8) [where i = ino and s = s1]
      by (intro exI [of _ "Ret ()"] exI [of _ "inode_dec_link_count ino s1"])
         (simp add: link_count_simps same_tables_def)
  qed
qed

theorem unlink_correct_witness:
  "\<exists>s'. xv6fs_unlink ref_kernel 1 [97] 2 demo_dir = Some (Ret (), s') \<and> dir_inv ref_kernel 1 s' \<and>
    dir_map s' 1 = Map.empty \<and> icache s' 1 = icache demo_dir 1"
  using unlink_correct [OF demo_dir_after(1), of "[97]" 2] unfolding demo_dir_after(2) by auto

text \<open>Another cached inode does not show in a directory.\<close>

lemma dir_views_set_other:
  assumes "j \<noteq> d"
  shows "dir_inv K d (set_inode j ei s) = dir_inv K d s" "dir_map (set_inode j ei s) d = dir_map s d"
proof -
  let ?t = "set_inode j ei s"
  have i: "xv6fs_i ?t d = xv6fs_i s d" "icache ?t d = icache s d" using assms by (simp_all add: inode_defs)
  have dk: "disk ?t = disk s" "raw_sb ?t = raw_sb s" by (simp_all add: set_inode_def)
  have al: "addr_list ?t d = addr_list s d" unfolding addr_list_def ind_entries_def i dk ..
  have f: "file_map ?t d = file_map s d" by (simp add: fun_eq_iff file_map_def ind_entries_def Let_def i dk)
  have sl: "slot_at ?t d = slot_at s d" by (rule slot_at_cong [OF f dk(1)])
  have e: "dir_entries ?t d = dir_entries s d"
    by (simp add: dir_entries_def live_slots_def live_def [abs_def] nslots_def slot_entry_def [abs_def] sl i)
  show "dir_map ?t d = dir_map s d" by (simp add: dir_map_entries e)
  show "dir_inv K d ?t = dir_inv K d s"
    using bmap_inv_cong [OF dk] block_used_cong [OF dk]
    by (simp add: dir_inv_def imap_ok_def inode_blocks_def al dir_ok_def f i unique_names_def e
        data_blocks_def domIff dk)
qed

text \<open>The example directory with an empty directory as its entry.\<close>

definition demo_sub :: fs where
  "demo_sub = set_inode 2 demo_root demo_dir"

lemma demo_sub_dir: "dir_inv ref_kernel 1 demo_sub" "dir_map demo_sub 1 = [[97] \<mapsto> 2]"
  unfolding demo_sub_def using dir_views_set_other [of 2 1] demo_dir_after(1,2) by simp_all

text \<open>
  C24: \<open>xv6fs_rmdir\<close> refuses, changing nothing, a directory with more than two
  entries (\<open>-ENOTEMPTY\<close>) and a name that is not there (\<open>-ENOENT\<close>); otherwise
  it removes the name, takes two from the link count of the removed
  directory and one from that of its parent.  The counts are 32-bit words:
  a removed directory with link count 1 is left with the largest count.
\<close>

theorem rmdir_correct:
  assumes "dir_inv K dir s" "dir_ok K s ino" "ino \<noteq> dir"
  shows "\<exists>r s'. xv6fs_rmdir K dir name ino s = Some (r, s') \<and> dir_inv K dir s' \<and>
    (if 2 < length (dir_entries s ino) then r = Err ENOTEMPTY \<and> s' = s
     else if dir_map s dir name = None then r = Err ENOENT \<and> s' = s
     else r = Ret () \<and> dir_map s' dir = (dir_map s dir)(name := None) \<and>
          i_nlink (xv6fs_i s' ino) = i_nlink (xv6fs_i s ino) - 2 \<and>
          i_nlink (xv6fs_i s' dir) = i_nlink (xv6fs_i s dir) - 1)"
proof -
  have e: "xv6fs_dir_is_empty K ino s = Some (Ret (length (dir_entries s ino) \<le> 2), s)"
    using is_empty_eq [OF assms(2)] by (simp add: dir_entries_def)
  obtain s1 where u: "xv6fs_unlink K dir name ino s =
      Some (if dir_map s dir name = None then (Err ENOENT, s) else (Ret (), inode_dec_link_count ino s1))"
    and s1: "dir_inv K dir s1" "dir_map s1 dir = (dir_map s dir)(name := None)" "icache s1 = icache s"
    using unlink_refines [OF assms(1), of name ino] by blast
  let ?s' = "inode_dec_link_count dir (inode_dec_link_count ino (inode_dec_link_count ino s1))"
  show ?thesis
  proof (cases "length (dir_entries s ino) \<le> 2 \<and> dir_map s dir name \<noteq> None")
    case True
    then have "xv6fs_rmdir K dir name ino s = Some (Ret (), ?s')"
      using e u by (simp add: xv6fs_rmdir_def)
    then show ?thesis using True s1 xv6fs_i_cong [OF s1(3)] assms(3)
      by (intro exI [of _ "Ret ()"] exI [of _ ?s']) (simp add: link_count_simps)
  next
    case False
    then show ?thesis using e u assms(1) by (auto simp: xv6fs_rmdir_def)
  qed
qed

theorem rmdir_correct_witness:
  "\<exists>s'. xv6fs_rmdir ref_kernel 1 [97] 2 demo_sub = Some (Ret (), s') \<and> dir_map s' 1 = Map.empty \<and>
    i_nlink (xv6fs_i s' 2) = -1"
proof -
  have e: "dir_entries demo_sub 2 = []" "dir_ok ref_kernel demo_sub 2" "i_nlink (xv6fs_i demo_sub 2) = 1"
    by (simp_all add: demo_sub_def dir_entries_def live_slots_def nslots_def dir_ok_def)
  show ?thesis
    using rmdir_correct [OF demo_sub_dir(1) e(2), of "[97]"] unfolding e demo_sub_dir(2) by auto
qed

text \<open>
  C25: \<open>xv6fs_link\<close> refuses directories (\<open>-EPERM\<close>) and inodes with 65535 links
  (\<open>-EMLINK\<close>), changing nothing.  Otherwise, for a new name, it returns.  On
  success the name maps to the inode, the inode's link count is one larger, and
  the inodes other than the two are as before.  When the entry cannot be added,
  the directory has the same entries, size and link count, every other inode
  (the linked one included), the inode table and the free list are as before,
  and no block is taken, freed or written, with one exception: an indirect
  block the directory got before the volume ran full stays with it
  (\<open>only_indirect\<close>).
\<close>

theorem link_correct:
  assumes "kernel_bitops K" "io_ok K" "dir_inv K dir s" "length name \<le> XV6FS_DIRSIZ" "0 \<notin> set name"
    and "0 < ino" "ino < 65536" "ino \<noteq> dir" "dir_map s dir name = None"
  shows "\<exists>r s'. xv6fs_link K ino dir name s = Some (r, s') \<and> dir_inv K dir s' \<and>
    (if S_ISDIR (i_mode (xv6fs_i s ino)) then r = Err EPERM \<and> s' = s
     else if 65535 \<le> i_nlink (xv6fs_i s ino) then r = Err EMLINK \<and> s' = s
     else if r = Ret ()
     then dir_map s' dir = (dir_map s dir)(name \<mapsto> of_nat ino) \<and>
          i_nlink (xv6fs_i s' ino) = i_nlink (xv6fs_i s ino) + 1 \<and>
          (\<forall>j. j \<noteq> dir \<longrightarrow> j \<noteq> ino \<longrightarrow> icache s' j = icache s j)
     else r \<in> {Err ENOSPC, Err EIO, Err EFBIG} \<and> dir_map s' dir = dir_map s dir \<and>
          only_indirect dir s s' \<and> (\<forall>j. j \<noteq> dir \<longrightarrow> icache s' j = icache s j) \<and>
          dinodes s' = dinodes s \<and> free_inodes_list s' = free_inodes_list s \<and> holds s' = holds s)"
proof -
  have v: "(of_nat ino :: u16) \<noteq> 0"
    by (rule u16_ino(2) [OF assms(6,7)])
  obtain r s1 where add: "xv6fs_dir_add_entry K dir name ino s = Some (r, s1)" "dir_frame dir s s1"
    "dir_inv K dir s1" "r \<in> {Ret (), Err ENOSPC, Err EIO, Err EFBIG}"
    "dir_map s1 dir = (if r = Ret () then (dir_map s dir)(name \<mapsto> of_nat ino) else dir_map s dir)"
    using add_entry_refines [OF assms(1-5) v assms(9)] by blast
  have ic: "icache s1 j = icache s j" if "j \<noteq> dir" for j
    using add(2) that by (simp add: dir_frame_def same_tables_def)
  then have i: "xv6fs_i s1 ino = xv6fs_i s ino" using assms(8) by (simp add: xv6fs_i_def)
  consider (dir) "S_ISDIR (i_mode (xv6fs_i s ino))"
    | (many) "\<not> S_ISDIR (i_mode (xv6fs_i s ino))" "65535 \<le> i_nlink (xv6fs_i s ino)"
    | (ok) "\<not> S_ISDIR (i_mode (xv6fs_i s ino))" "\<not> 65535 \<le> i_nlink (xv6fs_i s ino)" "r = Ret ()"
    | (fail) "\<not> S_ISDIR (i_mode (xv6fs_i s ino))" "\<not> 65535 \<le> i_nlink (xv6fs_i s ino)" "r \<noteq> Ret ()"
    by blast
  then show ?thesis
  proof cases
    case ok
    then show ?thesis using add i ic
      by (intro exI [of _ "Ret ()"] exI [of _ "inode_inc_link_count ino s1"])
         (simp add: xv6fs_link_def link_count_simps)
  next
    case fail
    then have "only_indirect dir s s1"
      using assms(3) add_entry_fails [OF assms(1) _ _ _ assms(2,4) add(1)] by (simp add: dir_inv_def)
    then show ?thesis using add ic fail
      by (intro exI [of _ r] exI [of _ s1]) (auto simp: xv6fs_link_def dir_frame_def same_tables_def)
  qed (use assms(3) in \<open>simp_all add: xv6fs_link_def\<close>)
qed

theorem link_correct_witness:
  "\<exists>r s'. xv6fs_link ref_kernel 2 1 [98] demo_sub = Some (r, s') \<and> dir_inv ref_kernel 1 s' \<and>
    (if r = Ret () then dir_map s' 1 = [[97] \<mapsto> 2, [98] \<mapsto> 2] \<and> i_nlink (xv6fs_i s' 2) = 2
     else r \<in> {Err ENOSPC, Err EIO, Err EFBIG} \<and> dir_map s' 1 = [[97] \<mapsto> 2] \<and>
       only_indirect 1 demo_sub s' \<and> icache s' 2 = icache demo_sub 2)"
proof -
  have e: "\<not> S_ISDIR (i_mode (xv6fs_i demo_sub 2))" "i_nlink (xv6fs_i demo_sub 2) = 1"
    by (simp_all add: demo_sub_def S_ISDIR_def demo_root_def blank_inode_def)
  have w: "\<not> 65535 \<le> (1 :: u32)" by (simp add: word_le_nat_alt)
  obtain r s' where "xv6fs_link ref_kernel 2 1 [98] demo_sub = Some (r, s')" "dir_inv ref_kernel 1 s'"
    "if r = Ret () then dir_map s' 1 = (dir_map demo_sub 1)([98] \<mapsto> of_nat 2) \<and>
        i_nlink (xv6fs_i s' 2) = i_nlink (xv6fs_i demo_sub 2) + 1
     else r \<in> {Err ENOSPC, Err EIO, Err EFBIG} \<and> dir_map s' 1 = dir_map demo_sub 1 \<and>
        only_indirect 1 demo_sub s' \<and> icache s' 2 = icache demo_sub 2"
    using link_correct [OF ref_kernel_bitops ref_io_ok demo_sub_dir(1), of "[98]" 2] e w
    unfolding demo_sub_dir(2) by (auto split: if_splits dest: spec [of _ 2])
  then show ?thesis unfolding demo_sub_dir(2) e(2) by (intro exI [of _ r] exI [of _ s']) (auto split: if_splits)
qed

end
