(* ===== verification/Xv6fs_Ownership.thy ===== *)
theory Xv6fs_Ownership
  imports Xv6fs_Namespace
begin

text \<open>
  Who owns which block.  Every inode in memory owns the blocks its addresses
  and its indirect block name; the invariant \<open>own_inv\<close> says that owned blocks
  are data blocks in use and that no block has two owners.  An operation on
  behalf of one inode satisfies \<open>own_frame\<close>: it neither frees, takes nor writes
  a block in use that the inode does not own.  From that every other file and
  directory is unchanged by it, and the invariant is kept.
\<close>

section \<open>Frames\<close>

definition owned :: "fs \<Rightarrow> nat \<Rightarrow> nat set" where
  "owned s ino = (case icache s ino of None \<Rightarrow> {} | Some _ \<Rightarrow> set (inode_blocks s ino))"

definition own_frame :: "nat \<Rightarrow> fs \<Rightarrow> fs \<Rightarrow> bool" where
  "own_frame ino s t \<longleftrightarrow>
     raw_sb t = raw_sb s \<and> (\<forall>j. j \<noteq> ino \<longrightarrow> icache t j = icache s j) \<and>
     (\<forall>b \<in> data_blocks s. block_used s b \<longrightarrow> b \<notin> owned s ino \<longrightarrow>
        block_used t b \<and> b \<notin> owned t ino \<and> disk t b = disk s b) \<and>
     (\<forall>b \<in> data_blocks s. block_used t b \<longrightarrow> b \<notin> owned t ino \<longrightarrow> block_used s b \<and> b \<notin> owned s ino)"

definition own_inv :: "fs \<Rightarrow> bool" where
  "own_inv s \<longleftrightarrow>
     bmap_inv s \<and> (\<forall>i \<in> dom (icache s). imap_ok s i) \<and>
     (\<forall>i j. i \<noteq> j \<longrightarrow> owned s i \<inter> owned s j = {})"

lemma owned_cached: "ino \<in> dom (icache s) \<Longrightarrow> owned s ino = set (inode_blocks s ino)"
  by (auto simp: owned_def)

lemma owned_imap: "imap_ok s ino \<Longrightarrow> owned s ino = set (inode_blocks s ino)"
  by (rule owned_cached) (simp add: imap_ok_def)

lemma own_frame_refl [simp]: "own_frame ino s s"
  by (simp add: own_frame_def)

lemma own_frame_trans [trans]:
  assumes "own_frame ino s t" "own_frame ino t u" shows "own_frame ino s u"
proof -
  have d: "data_blocks t = data_blocks s"
    using assms(1) by (intro data_blocks_cong) (simp add: own_frame_def)
  note a = assms [unfolded own_frame_def d]
  have "raw_sb u = raw_sb s" "\<forall>j. j \<noteq> ino \<longrightarrow> icache u j = icache s j" using a by simp_all
  moreover have "block_used u b \<and> b \<notin> owned u ino \<and> disk u b = disk s b"
    if "b \<in> data_blocks s" "block_used s b" "b \<notin> owned s ino" for b using a that by metis
  moreover have "block_used s b \<and> b \<notin> owned s ino"
    if "b \<in> data_blocks s" "block_used u b" "b \<notin> owned u ino" for b using a that by metis
  ultimately show ?thesis unfolding own_frame_def by blast
qed

lemma own_frame_same:
  assumes "raw_sb t = raw_sb s" "disk t = disk s" "\<And>j. j \<noteq> ino \<Longrightarrow> icache t j = icache s j"
    and "owned t ino = owned s ino"
  shows "own_frame ino s t"
  using assms block_used_cong [OF assms(2,1)] by (auto simp: own_frame_def)

text \<open>Another inode, whose blocks are not those of \<open>ino\<close>, is as before.\<close>

lemma other_kept:
  assumes "own_frame ino s t" "d \<noteq> ino" "imap_ok s d" "owned s d \<inter> owned s ino = {}"
  shows "xv6fs_i t d = xv6fs_i s d" "addr_list t d = addr_list s d" "owned t d = owned s d"
    "imap_ok t d" "owned t d \<inter> owned t ino = {}" "file_map t d = file_map s d"
    "slot_at t d = slot_at s d"
proof -
  have ic: "icache t d = icache s d" and raw: "raw_sb t = raw_sb s"
    using assms(1,2) by (simp_all add: own_frame_def)
  show i: "xv6fs_i t d = xv6fs_i s d" using ic by (simp add: xv6fs_i_def)
  have own: "owned s d = set (inode_blocks s d)" by (rule owned_imap [OF assms(3)])
  have b: "block_used t b \<and> b \<notin> owned t ino \<and> disk t b = disk s b" if "b \<in> owned s d" for b
  proof -
    have "b \<in> data_blocks s" "block_used s b" using that assms(3) own by (auto simp: imap_ok_def)
    moreover have "b \<notin> owned s ino" using that assms(4) by blast
    ultimately show ?thesis using assms(1) by (simp add: own_frame_def)
  qed
  have dk: "i_addrs (xv6fs_i s d) ! 12 \<noteq> 0 \<Longrightarrow>
      disk t (unat (i_addrs (xv6fs_i s d) ! 12)) = disk s (unat (i_addrs (xv6fs_i s d) ! 12))"
    using b own ind_in_blocks [of s d] assms(3) by (auto simp: imap_ok_def)
  show al: "addr_list t d = addr_list s d" by (rule addr_list_cong [OF i dk])
  have bl: "inode_blocks t d = inode_blocks s d" by (simp add: inode_blocks_def al)
  show o: "owned t d = owned s d" by (simp add: owned_def ic bl split: option.split)
  show "imap_ok t d"
    using assms(3) ic i b bl own data_blocks_cong [OF raw] by (auto simp: imap_ok_def)
  show "owned t d \<inter> owned t ino = {}" using b o by blast
  have len: "length (i_addrs (xv6fs_i s d)) = 13" "length (i_addrs (xv6fs_i t d)) = 13"
    using assms(3) i by (simp_all add: imap_ok_def)
  show f: "file_map t d = file_map s d"
    by (simp add: fun_eq_iff file_map_addr_list [OF len(1)] file_map_addr_list [OF len(2)] al)
  show "slot_at t d = slot_at s d"
  proof
    fix j
    show "slot_at t d j = slot_at s d j"
    proof (cases "file_map s d (j div 32)")
      case None
      then show ?thesis by (simp add: slot_at_def f)
    next
      case (Some c)
      then have "c \<in> owned s d" using file_map_in_blocks [of s d "j div 32" c] assms(3) own
        by (auto simp: imap_ok_def)
      then show ?thesis using b Some by (simp add: slot_at_def f)
    qed
  qed
qed

lemma other_dir_kept:
  assumes "own_frame ino s t" "d \<noteq> ino" "dir_inv K d s" "owned s d \<inter> owned s ino = {}" "bmap_inv t"
  shows "dir_inv K d t" "dir_map t d = dir_map s d" "dir_entries t d = dir_entries s d"
proof -
  have im: "imap_ok s d" using assms(3) by (simp add: dir_inv_def)
  note k = other_kept [OF assms(1,2) im assms(4)]
  show e: "dir_entries t d = dir_entries s d"
    by (simp add: dir_entries_def live_slots_def live_def [abs_def] nslots_def slot_entry_def [abs_def] k(1,7))
  then show "dir_map t d = dir_map s d" by (simp add: dir_map_entries)
  show "dir_inv K d t"
    using assms(3,5) k e by (simp add: dir_inv_def dir_ok_def unique_names_def)
qed

lemma own_inv_step:
  assumes "own_inv s" "own_frame ino s t" "bmap_inv t" "ino \<in> dom (icache t) \<Longrightarrow> imap_ok t ino"
  shows "own_inv t"
proof -
  have ic: "icache t j = icache s j" if "j \<noteq> ino" for j using assms(2) that by (simp add: own_frame_def)
  have disj: "owned s i \<inter> owned s j = {}" if "i \<noteq> j" for i j using assms(1) that by (simp add: own_inv_def)
  have none: "owned u i = {}" if "icache u i = None" for u i using that by (simp add: owned_def)
  have k: "imap_ok t j" "owned t j = owned s j" "owned t j \<inter> owned t ino = {}"
    if "j \<noteq> ino" "j \<in> dom (icache s)" for j
  proof -
    have "imap_ok s j" using assms(1) that(2) by (simp add: own_inv_def)
    from other_kept [OF assms(2) that(1) this disj [OF that(1)]]
    show "imap_ok t j" "owned t j = owned s j" "owned t j \<inter> owned t ino = {}" by simp_all
  qed
  have ko: "owned t j = owned s j" if "j \<noteq> ino" for j
    using k(2) [OF that] none [of s j] none [of t j] ic [OF that] by (cases "icache s j") auto
  have ki: "owned t j \<inter> owned t ino = {}" if "j \<noteq> ino" for j
    using k(3) [OF that] none [of t j] ic [OF that] by (cases "icache s j") auto
  have "owned t i \<inter> owned t j = {}" if "i \<noteq> j" for i j
    using ki [of i] ki [of j] ko [of i] ko [of j] disj [OF that] that
    by (cases "i = ino"; cases "j = ino") auto
  moreover have "imap_ok t i" if "i \<in> dom (icache t)" for i
    using that assms(4) k(1) [of i] ic [of i] by (cases "i = ino") (auto simp: domIff)
  ultimately show ?thesis using assms(3) by (simp add: own_inv_def)
qed

section \<open>The operations on one inode\<close>

lemma own_frame_ghost [simp]:
  "own_frame ino s (brelse t) = own_frame ino s t" "own_frame ino (brelse s) t = own_frame ino s t"
  "own_frame ino s (mark_buffer_dirty b t) = own_frame ino s t"
  "own_frame ino s (mark_inode_dirty j t) = own_frame ino s t"
  "own_frame ino s (t\<lparr>holds := h\<rparr>) = own_frame ino s t"
  "own_frame ino (s\<lparr>holds := h\<rparr>) t = own_frame ino s t"
  by (simp_all add: own_frame_def owned_def split: option.split)

text \<open>The blocks named after an allocation were free or owned before.\<close>

lemma own_frame_alloc:
  assumes "imap_ok s ino" "imap_ok t ino" "raw_sb t = raw_sb s" "\<forall>j. j \<noteq> ino \<longrightarrow> icache t j = icache s j"
    and "set (inode_blocks t ino) \<subseteq> set (inode_blocks s ino) \<union> free_blocks s"
    and "\<forall>n < unat (sb_size (raw_sb s)). block_used s n \<longrightarrow> block_used t n"
    and "set (inode_blocks s ino) \<subseteq> set (inode_blocks t ino)"
    and "\<forall>n < unat (sb_size (raw_sb s)). block_used t n \<longrightarrow> block_used s n \<or> n \<in> set (inode_blocks t ino)"
    and "\<forall>b \<in> data_blocks s. b \<noteq> unat (addr_list t ino ! 12) \<longrightarrow> disk t b = disk s b"
    and "layout_ok (raw_sb s)"
  shows "own_frame ino s t"
  unfolding own_frame_def owned_imap [OF assms(1)] owned_imap [OF assms(2)]
proof (intro conjI ballI impI)
  fix b assume b: "b \<in> data_blocks s" "block_used s b" "b \<notin> set (inode_blocks s ino)"
  show "block_used t b" using assms(6) b by (simp add: data_blocks_def)
  show nb: "b \<notin> set (inode_blocks t ino)" using assms(5) b by (auto simp: free_blocks_def)
  have "b \<noteq> unat (addr_list t ino ! 12)"
  proof
    assume eq: "b = unat (addr_list t ino ! 12)"
    have len: "length (i_addrs (xv6fs_i t ino)) = 13" using assms(2) by (simp add: imap_ok_def)
    have "0 < b" using DSTART_pos [OF assms(10)] b(1) by (simp add: data_blocks_def)
    then have "i_addrs (xv6fs_i t ino) ! 12 \<noteq> 0" using eq len by (auto simp: nth_addr_list)
    then show False using nb eq len ind_in_blocks [of t ino] by (simp add: nth_addr_list)
  qed
  then show "disk t b = disk s b" using assms(9) b(1) by blast
next
  fix b assume "b \<in> data_blocks s" "block_used t b" "b \<notin> set (inode_blocks t ino)"
  then show "block_used s b" "b \<notin> set (inode_blocks s ino)" using assms(7,8) by (auto simp: data_blocks_def)
qed (use assms in auto)

lemma bmap_inv_layout: "bmap_inv s \<Longrightarrow> layout_ok (raw_sb s)"
  by (simp add: bmap_inv_def)

lemma own_frame_get_block:
  assumes "kernel_bitops K" "bmap_inv s" "imap_ok s ino" "\<forall>b. sb_getblk_ok K b"
    and "xv6fs_get_block K ino l create s = (r, t)"
  shows "own_frame ino s t \<and> bmap_inv t \<and> imap_ok t ino"
proof (cases create)
  case False
  then have "t = s" using get_block_lookup_state [of K ino l s] assms(5) by simp
  then show ?thesis using assms(2,3) by simp
next
  case True
  have o: "\<forall>j. j \<noteq> ino \<longrightarrow> icache t j = icache s j"
    using get_block_frame [of ino s K l create] assms(5) by (simp add: same_tables_def)
  show ?thesis
  proof (cases r)
    case (Inl e)
    have "map_kept s ino t"
      using get_block_create_Inl [OF assms(1-4), of l e t] assms(5) True Inl by simp
    then show ?thesis
      using own_frame_alloc [OF assms(3) _ _ o _ _ _ _ _ bmap_inv_layout [OF assms(2)]]
      by (auto simp: map_kept_def)
  next
    case (Inr x)
    have "create_post s ino l x t"
      using get_block_create [OF assms(1-3), of l x t] assms(5) True Inr by simp
    then obtain b where "maps_block s ino l b t" by (auto simp: create_post_def)
    then show ?thesis
      using own_frame_alloc [OF assms(3) _ _ o _ _ _ _ _ bmap_inv_layout [OF assms(2)]]
      by (auto simp: maps_block_def)
  qed
qed

lemma own_frame_trunc:
  assumes "imap_ok s ino" "bmap_inv s" "trunc_rel s ino t"
  shows "own_frame ino s t"
proof -
  have t: "imap_ok t ino" using assms(3) by (simp add: trunc_rel_def)
  have "b \<noteq> unat (i_addrs (xv6fs_i s ino) ! 12)"
    if "b \<in> data_blocks s" "b \<notin> set (inode_blocks s ino)" for b
  proof
    assume eq: "b = unat (i_addrs (xv6fs_i s ino) ! 12)"
    have "0 < b" using DSTART_pos [OF bmap_inv_layout [OF assms(2)]] that(1) by (simp add: data_blocks_def)
    then have "i_addrs (xv6fs_i s ino) ! 12 \<noteq> 0" using eq by (metis less_irrefl unat_0)
    then show False using eq that(2) ind_in_blocks [of s ino] assms(1) by (simp add: imap_ok_def)
  qed
  then show ?thesis
    using assms(3) unfolding own_frame_def owned_imap [OF assms(1)] owned_imap [OF t]
    by (auto simp: trunc_rel_def outside_bitmap_def data_blocks_def)
qed

lemma own_frame_store:
  assumes "bmap_inv s" "imap_ok s ino" "file_map s ino l = Some b" "length d = 512"
  shows "own_frame ino s (b_store b d s)"
proof -
  note f = file_store [OF assms]
  have "b \<in> set (inode_blocks s ino)"
    using file_map_in_blocks [of s ino l b] assms(2,3) by (auto simp: imap_ok_def)
  then show ?thesis
    using f(5-7) unfolding own_frame_def owned_imap [OF assms(2)] owned_imap [OF f(2)]
    by (auto simp: inode_blocks_def f(4) data_blocks_def)
qed

lemma own_frame_attr:
  assumes "i_addrs ei = i_addrs (xv6fs_i s ino)" "ino \<in> dom (icache s)"
  shows "own_frame ino s (set_inode ino ei s)"
  using inode_views_set_inode(5) [OF assms(1)] assms(2)
  by (intro own_frame_same) (auto simp: set_inode_def owned_def)

section \<open>Directory entries\<close>

lemma own_frame_store_entry:
  assumes "bmap_inv u" "imap_ok u dir" "file_map u dir (k div 32) = Some b" "length name \<le> 14"
  shows "own_frame dir u (snd (store_entry dir name ino (16 * int k) b u))"
proof -
  have off: "nat (16 * int k mod 512) = 16 * (k mod 32)" by (simp add: pos_block nat_mult_distrib)
  let ?d = "put_dirent (16 * (k mod 32)) (new_dirent name ino) (disk u b)"
  have "length (disk u b) = 512" using assms(1) by (simp add: bmap_inv_def blocks_512_def)
  then have l: "length ?d = 512" using new_dirent_facts(1) [OF assms(4)] mod_32_fits [of k] by simp
  let ?s1 = "brelse (mark_buffer_dirty b (b_store b ?d u))"
  have f: "own_frame dir u ?s1" using own_frame_store [OF assms(1-3) l] by simp
  have "dir \<in> dom (icache ?s1)" using assms(2) by (auto simp: imap_ok_def)
  then have "own_frame dir ?s1 (set_inode dir ((xv6fs_i ?s1 dir)\<lparr>i_size := z\<rparr>) ?s1)" for z
    by (intro own_frame_attr) simp_all
  then have "own_frame dir u (set_inode dir ((xv6fs_i ?s1 dir)\<lparr>i_size := z\<rparr>) ?s1)" for z
    by (rule own_frame_trans [OF f])
  then show ?thesis using f mod_32_fits [of k] by (simp add: store_entry_def Let_def off)
qed

lemma own_frame_dir_write:
  assumes "kernel_bitops K" "bmap_inv s" "imap_ok s dir" "io_ok K" "length name \<le> 14"
  shows "own_frame dir s (snd (dir_write_entry K dir name ino (16 * int k) s))"
proof -
  obtain x t where call: "xv6fs_get_block K dir (k div 32) True s = (x, t)" by fastforce
  have f: "own_frame dir s t" "bmap_inv t" "imap_ok t dir"
    using own_frame_get_block [OF assms(1-3) _ call] assms(4) by (auto simp: io_ok_def)
  note wr = dir_write_entry_io [OF assms(4) call, of name ino]
  show ?thesis
  proof (cases x)
    case (Inl e)
    then show ?thesis using wr f by simp
  next
    case (Inr r)
    have "create_post s dir (k div 32) r t" by (rule get_block_create [OF assms(1-3) call [unfolded Inr]])
    then obtain b new where r: "r = Mapped b new" and "maps_block s dir (k div 32) b t"
      unfolding create_post_def by blast
    then have m: "file_map t dir (k div 32) = Some b" by (simp add: maps_block_def)
    let ?t = "t\<lparr>holds := holds t + 1\<rparr>"
    let ?u = "b_store b (replicate 512 0) ?t"
    have pre: "bmap_inv ?t" "imap_ok ?t dir" "file_map ?t dir (k div 32) = Some b" using f m by simp_all
    have u: "bmap_inv ?u" "imap_ok ?u dir" "file_map ?u dir (k div 32) = Some b" "own_frame dir t ?u"
      using file_store [OF pre, of "replicate 512 0"] own_frame_store [OF pre, of "replicate 512 0"] pre(3)
      by simp_all
    have st: "own_frame dir t (snd (store_entry dir name ino (16 * int k) b ?t))"
      "own_frame dir ?u (snd (store_entry dir name ino (16 * int k) b ?u))"
      using own_frame_store_entry [OF pre assms(5), of ino] own_frame_store_entry [OF u(1-3) assms(5), of ino]
      by simp_all
    have "own_frame dir s (snd (store_entry dir name ino (16 * int k) b ?t))"
      by (rule own_frame_trans [OF f(1) st(1)])
    moreover have "own_frame dir s (snd (store_entry dir name ino (16 * int k) b ?u))"
      by (rule own_frame_trans [OF f(1) own_frame_trans [OF u(4) st(2)]])
    ultimately show ?thesis using wr Inr r by (cases new) simp_all
  qed
qed

lemma own_frame_add_entry:
  assumes "kernel_bitops K" "io_ok K" "dir_inv K dir s" "length name \<le> 14"
    and "xv6fs_dir_add_entry K dir name ino s = Some (r, t)"
  shows "own_frame dir s t"
proof -
  have inv: "bmap_inv s" "imap_ok s dir" "dir_ok K s dir" using assms(3) by (simp_all add: dir_inv_def)
  have "dir_write_entry K dir name ino (16 * int (free_slot s dir)) s = (r, t)"
    using add_entry_eq [OF inv(3) assms(4), of ino] assms(5) by simp
  then show ?thesis
    using own_frame_dir_write [OF assms(1) inv(1,2) assms(2,4), of ino "free_slot s dir"] by simp
qed

section \<open>The blocks before the bitmap\<close>

text \<open>
  The superblock and the inode blocks are written by \<open>xv6fs_write_inode\<close> and
  \<open>xv6fs_evict_inode\<close> only: whatever else happens on behalf of an inode leaves
  them alone.
\<close>

definition meta_same :: "fs \<Rightarrow> fs \<Rightarrow> bool" where
  "meta_same s t \<longleftrightarrow> (\<forall>b. 0 < b \<and> b < unat (sb_bmapstart (raw_sb s)) \<longrightarrow> disk t b = disk s b)"

lemma meta_same_refl [simp]: "disk t = disk s \<Longrightarrow> meta_same s t"
  by (simp add: meta_same_def)

lemma meta_same_trans: "meta_same s t \<Longrightarrow> meta_same t u \<Longrightarrow> raw_sb t = raw_sb s \<Longrightarrow> meta_same s u"
  by (simp add: meta_same_def)

lemma meta_same_ghost [simp]:
  "meta_same s (brelse t) = meta_same s t" "meta_same (brelse s) t = meta_same s t"
  "meta_same s (mark_buffer_dirty b t) = meta_same s t"
  "meta_same s (mark_inode_dirty j t) = meta_same s t"
  "meta_same s (set_inode j ei t) = meta_same s t"
  "meta_same s (t\<lparr>holds := h\<rparr>) = meta_same s t" "meta_same (s\<lparr>holds := h\<rparr>) t = meta_same s t"
  by (simp_all add: meta_same_def inode_defs)

lemma meta_not_data:
  "layout_ok (raw_sb s) \<Longrightarrow> b < unat (sb_bmapstart (raw_sb s)) \<Longrightarrow> b \<notin> data_blocks s"
  using DSTART_layout [of "raw_sb s"] by (simp add: data_blocks_def)

lemma meta_same_data:
  assumes "bmap_inv s" "\<forall>b \<in> outside_bitmap s. b \<notin> data_blocks s \<longrightarrow> disk t b = disk s b"
  shows "meta_same s t"
  using assms meta_not_data [of s] by (auto simp: meta_same_def outside_bitmap_def bmap_inv_def)

lemma meta_same_but:
  assumes "bmap_inv s" "a = 0 \<or> unat a \<in> data_blocks s"
    and "\<forall>b \<in> outside_bitmap s. b \<noteq> unat a \<longrightarrow> disk t b = disk s b"
  shows "meta_same s t"
proof (rule meta_same_data [OF assms(1)], intro ballI impI)
  fix b assume b: "b \<in> outside_bitmap s" "b \<notin> data_blocks s"
  have "0 < b" by (rule outside_pos [OF bmap_inv_layout [OF assms(1)] b(1)])
  then have "b \<noteq> unat a" using assms(2) b(2) by auto
  then show "disk t b = disk s b" using assms(3) b(1) by blast
qed

lemma ind_data: "imap_ok s ino \<Longrightarrow> i_addrs (xv6fs_i s ino) ! 12 = 0 \<or> unat (i_addrs (xv6fs_i s ino) ! 12) \<in> data_blocks s"
  using ind_in_blocks [of s ino] by (auto simp: imap_ok_def)

lemma meta_same_get_block:
  assumes "kernel_bitops K" "bmap_inv s" "imap_ok s ino" "\<forall>b. sb_getblk_ok K b"
    and "xv6fs_get_block K ino l create s = (r, t)"
  shows "meta_same s t"
proof (cases create)
  case False
  then have "t = s" using get_block_lookup_state [of K ino l s] assms(5) by simp
  then show ?thesis by simp
next
  case True
  have post: "imap_ok t ino \<and> raw_sb t = raw_sb s \<and>
      (\<forall>b \<in> outside_bitmap s. b \<noteq> unat (addr_list t ino ! 12) \<longrightarrow> disk t b = disk s b)"
  proof (cases r)
    case (Inl e)
    have "map_kept s ino t"
      using get_block_create_Inl [OF assms(1-4), of l e t] assms(5) True Inl by simp
    then show ?thesis by (simp add: map_kept_def)
  next
    case (Inr x)
    have "create_post s ino l x t"
      using get_block_create [OF assms(1-3), of l x t] assms(5) True Inr by simp
    then show ?thesis by (auto simp: create_post_def maps_block_def)
  qed
  then have "addr_list t ino ! 12 = i_addrs (xv6fs_i t ino) ! 12" by (simp add: nth_addr_list imap_ok_def)
  then show ?thesis
    using post ind_data [of t ino] data_blocks_cong [of t s] by (intro meta_same_but [OF assms(2)]) auto
qed

lemma meta_same_trunc:
  assumes "imap_ok s ino" "bmap_inv s" "trunc_rel s ino t" shows "meta_same s t"
  using assms(3) by (intro meta_same_but [OF assms(2) ind_data [OF assms(1)]]) (simp add: trunc_rel_def)

lemma meta_same_store:
  assumes "bmap_inv s" "imap_ok s ino" "file_map s ino l = Some b" shows "meta_same s (b_store b d s)"
  using file_map_data [OF assms(2,3)] by (intro meta_same_data [OF assms(1)]) auto

lemma meta_same_store_entry:
  assumes "bmap_inv u" "imap_ok u dir" "file_map u dir l = Some b"
  shows "meta_same u (snd (store_entry dir name ino pos b u))"
  using meta_same_store [OF assms] by (simp add: store_entry_def Let_def)

lemma meta_same_add_entry:
  assumes "kernel_bitops K" "io_ok K" "dir_inv K dir s" "length name \<le> 14"
    and "xv6fs_dir_add_entry K dir name ino s = Some (r, t)"
  shows "meta_same s t"
proof -
  have inv: "bmap_inv s" "imap_ok s dir" "dir_ok K s dir" using assms(3) by (simp_all add: dir_inv_def)
  let ?k = "free_slot s dir"
  obtain x u where call: "xv6fs_get_block K dir (?k div 32) True s = (x, u)" by fastforce
  have io: "\<forall>b. sb_getblk_ok K b" using assms(2) by (simp add: io_ok_def)
  note m = meta_same_get_block [OF assms(1) inv(1,2) io call]
  have f: "own_frame dir s u" "bmap_inv u" "imap_ok u dir"
    using own_frame_get_block [OF assms(1) inv(1,2) io call] by simp_all
  have raw: "raw_sb u = raw_sb s" using f(1) by (simp add: own_frame_def)
  have wr: "dir_write_entry K dir name ino (16 * int ?k) s = (r, t)"
    using add_entry_eq [OF inv(3) assms(4), of ino] assms(5) by simp
  note eq = dir_write_entry_io [OF assms(2) call, of name ino, unfolded wr]
  show ?thesis
  proof (cases x)
    case (Inl e)
    then show ?thesis using eq m by simp
  next
    case (Inr y)
    have "create_post s dir (?k div 32) y u" by (rule get_block_create [OF assms(1) inv(1,2) call [unfolded Inr]])
    then obtain b new where y: "y = Mapped b new" and "maps_block s dir (?k div 32) b u"
      unfolding create_post_def by blast
    then have fm: "file_map u dir (?k div 32) = Some b" by (simp add: maps_block_def)
    let ?u = "u\<lparr>holds := holds u + 1\<rparr>"
    let ?z = "b_store b (replicate 512 0) ?u"
    have pre: "bmap_inv ?u" "imap_ok ?u dir" "file_map ?u dir (?k div 32) = Some b" using f fm by simp_all
    have z: "bmap_inv ?z" "imap_ok ?z dir" "file_map ?z dir (?k div 32) = Some b"
      using file_store [OF pre, of "replicate 512 0"] pre(3) by simp_all
    have "meta_same u (snd (store_entry dir name ino (16 * int ?k) b ?u))"
      using meta_same_store_entry [OF pre] by simp
    moreover have "meta_same u ?z" using meta_same_store [OF pre] by simp
    then have "meta_same u (snd (store_entry dir name ino (16 * int ?k) b ?z))"
      using meta_same_trans [OF _ meta_same_store_entry [OF z]] by simp
    ultimately have "meta_same u t" using eq Inr y by (cases new) (auto, metis snd_conv, metis snd_conv)
    then show ?thesis using meta_same_trans [OF m] raw by simp
  qed
qed

end
