(* ===== verification/Xv6fs_Create.thy ===== *)
theory Xv6fs_Create
  imports Xv6fs_Ownership
begin

text \<open>
  Making files and directories, from \<^verbatim>\<open>src/dir.c\<close>: \<open>xv6fs_create\<close> and
  \<open>xv6fs_mkdir\<close>, which allocate an inode, insert entries and, when an
  insertion fails, give the inode back.  The lemmas combine the inode table,
  the ownership of blocks and the directory as a map.
\<close>

section \<open>Inodes come and go\<close>

lemma new_inode_own:
  assumes "itable_ok s" "bmap_inv s" "xv6fs_new_inode K mode s = (Inr ino, t)"
  shows "own_frame ino s t" "bmap_inv t" "imap_ok t ino" "inode_blocks t ino = []"
proof -
  note n = new_inode_Inr [OF assms(3)]
  have a: "i_addrs (xv6fs_i t ino) = replicate 13 0"
    unfolding n(3) by (simp add: new_inode_fields_def Let_def)
  show b: "inode_blocks t ino = []"
    by (simp only: inode_blocks_def addr_list_def ind_entries_def a) (simp add: nz_blocks_def)
  show "bmap_inv t" using assms(2) bmap_inv_cong [OF n(7,8)] by simp
  show "imap_ok t ino" using n(4) a b by (simp add: imap_ok_def)
  have "icache s ino = None" using new_inode_itable(3) [OF assms(1,3)] by (simp add: domIff)
  then show "own_frame ino s t"
    using n b by (intro own_frame_same) (simp_all add: owned_def)
qed

lemma zero_slot_own:
  assumes "io_ok K" "bmap_inv s" "imap_ok s ino" "ino < unat (sb_ninodes (raw_sb s))"
  shows "own_frame ino s (zero_slot_on_disk K ino s)" "bmap_inv (zero_slot_on_disk K ino s)"
    "owned (zero_slot_on_disk K ino s) ino = owned s ino"
proof -
  let ?t = "zero_slot_on_disk K ino s" and ?b = "XV6FS_IBLOCK ino (raw_sb s)"
  have lay: "layout_ok (raw_sb s)" by (rule bmap_inv_layout [OF assms(2)])
  note z = zero_slot_on_disk_frame [where K = K and ino = ino and s = s]
  have dk: "disk ?t b = disk s b" if "b \<in> data_blocks s" for b
    using IBLOCK_less_DSTART [OF lay assms(4)] that by (intro z(7)) (auto simp: data_blocks_def)
  have used: "block_used ?t = block_used s" by (rule zero_slot_block_used [OF lay assms(4)])
  have "inode_block_ok K s ino" using assms(1) by (simp add: inode_block_ok_def io_ok_def)
  from z(8) [OF this] have db: "disk ?t ?b = put_dinode (XV6FS_IOFFSET ino) zero_dinode (disk s ?b)" .
  have "length (disk s b) = 512" for b using assms(2) by (simp add: bmap_inv_def blocks_512_def)
  then have "length (disk ?t b) = 512" for b
    using z(7) [of b] by (cases "b = ?b") (simp_all add: db XV6FS_IOFFSET_def)
  then show "bmap_inv ?t" using assms(2) used z(1) by (simp add: bmap_inv_def blocks_512_def)
  have "xv6fs_i ?t ino = xv6fs_i s ino" using z(5) by (simp add: xv6fs_i_def)
  moreover have "disk ?t (unat (i_addrs (xv6fs_i s ino) ! 12)) = disk s (unat (i_addrs (xv6fs_i s ino) ! 12))"
    if "i_addrs (xv6fs_i s ino) ! 12 \<noteq> 0"
    using that assms(3) ind_in_blocks [of s ino] by (intro dk) (auto simp: imap_ok_def)
  ultimately have "addr_list ?t ino = addr_list s ino" by (rule addr_list_cong)
  then show o: "owned ?t ino = owned s ino"
    by (simp add: owned_def z(5) inode_blocks_def split: option.split)
  then show "own_frame ino s ?t" using z(1,5) dk used by (simp add: own_frame_def)
qed

text \<open>An unlinked inode is dropped: it owned its blocks, and owns none now.\<close>

lemma iput_last_own:
  assumes "kernel_bitops K" "io_ok K" "bmap_inv s" "imap_ok s ino" "ino < unat (sb_ninodes (raw_sb s))"
    and "i_nlink (xv6fs_i s ino) = 0" "0 < ino"
  shows "own_frame ino s (iput_last K ino s) \<and> bmap_inv (iput_last K ino s) \<and>
    icache (iput_last K ino s) ino = None"
proof -
  define t where "t = set_inode ino ((xv6fs_i s ino)\<lparr>i_size := 0\<rparr>) s"
  let ?u = "evict_trunc K ino s"
  let ?z = "zero_slot_on_disk K ino ?u"
  have ad: "i_addrs ((xv6fs_i s ino)\<lparr>i_size := 0\<rparr>) = i_addrs (xv6fs_i s ino)" by simp
  have "trunc_pre K s ino" using assms by (simp add: trunc_pre_def bitmap_readable_def io_ok_def)
  then have pt: "trunc_pre K t ino" unfolding t_def by (rule inode_views_set_inode(7) [OF ad])
  then have it: "imap_ok t ino" "bmap_inv t" by (simp_all add: trunc_pre_def)
  have tr: "trunc_rel t ino ?u" "inode_blocks ?u ino = []"
    using truncate_blocks_rel [OF pt, of 0] truncate_blocks_all [OF pt] assms(2)
    unfolding t_def [symmetric] by (simp_all add: io_ok_def)
  then have u: "imap_ok ?u ino" "bmap_inv ?u" "raw_sb ?u = raw_sb s" by (simp_all add: trunc_rel_def t_def set_inode_def)
  have ft: "own_frame ino s t"
    unfolding t_def using assms(4) by (intro own_frame_attr) (simp_all add: imap_ok_def)
  have "ino < unat (sb_ninodes (raw_sb ?u))" using u(3) assms(5) by simp
  note z = zero_slot_own [OF assms(2) u(2,1) this]
  have f: "own_frame ino s ?z"
    by (rule own_frame_trans [OF ft own_frame_trans [OF own_frame_trunc [OF it tr(1)] z(1)]])
  let ?s' = "iput_last K ino s"
  note e = evict_unlinked [where K = K, OF assms(6,7)]
  have s': "disk ?s' = disk ?z" "raw_sb ?s' = raw_sb ?z" "icache ?s' ino = None"
    "\<And>j. j \<noteq> ino \<Longrightarrow> icache ?s' j = icache ?z j"
    using e(4,6,7) f by (simp_all add: iput_last_def Let_def own_frame_def)
  have "owned ?z ino = {}" using z(3) tr(2) owned_imap [OF u(1)] by simp
  then have "own_frame ino ?z ?s'" using s' by (intro own_frame_same) (simp_all add: owned_def)
  moreover have "bmap_inv ?s'" using z(2) bmap_inv_cong [OF s'(1,2)] by simp
  ultimately show ?thesis using own_frame_trans [OF f] s'(3) by blast
qed

lemma discard_own:
  assumes "kernel_bitops K" "io_ok K" "bmap_inv s" "imap_ok s ino" "ino < unat (sb_ninodes (raw_sb s))" "0 < ino"
  shows "own_frame ino s (discard_inode K ino s) \<and> bmap_inv (discard_inode K ino s) \<and>
    icache (discard_inode K ino s) ino = None"
proof -
  let ?t = "set_nlink ino 0 s"
  have im: "imap_ok ?t ino" unfolding set_nlink_def
    by (rule inode_views_set_inode(6) [OF _ assms(4)]) simp
  have bm: "bmap_inv ?t" "raw_sb ?t = raw_sb s" "i_nlink (xv6fs_i ?t ino) = 0"
    using assms(3) by (simp_all add: set_nlink_def inode_views_set_inode(3)) (simp add: set_inode_def)
  have f: "own_frame ino s ?t" unfolding set_nlink_def
    using assms(4) by (intro own_frame_attr) (simp_all add: imap_ok_def)
  note d = iput_last_own [OF assms(1,2) bm(1) im _ bm(3) assms(6)]
  show ?thesis unfolding discard_inode_def
    using d assms(5) bm(2) own_frame_trans [OF f, of "iput_last K ino ?t"] by simp
qed

section \<open>The volume\<close>

text \<open>
  The invariant of a mounted volume: blocks have at most one owner, the inode
  table is consistent, inode 0 is never handed out, and inode numbers fit a
  directory entry.
\<close>

definition vol_ok :: "fs \<Rightarrow> bool" where
  "vol_ok s \<longleftrightarrow> own_inv s \<and> ialloc_inv s \<and> unat (sb_ninodes (raw_sb s)) \<le> 65536"

lemma vol_dir_other:
  assumes "own_inv s" "own_frame i s t" "bmap_inv t" "d \<noteq> i" "dir_inv K d s"
  shows "dir_inv K d t" "dir_map t d = dir_map s d" "dir_entries t d = dir_entries s d"
proof -
  have "owned s d \<inter> owned s i = {}" using assms(1,4) by (simp add: own_inv_def)
  from other_dir_kept [OF assms(2,4,5) this assms(3)]
  show "dir_inv K d t" "dir_map t d = dir_map s d" "dir_entries t d = dir_entries s d" .
qed

lemma vol_cached:
  assumes "vol_ok s" "d \<in> dom (icache s)"
  shows "d < unat (sb_ninodes (raw_sb s))" "d < 65536" "d \<notin> set (free_inodes_list s)" "imap_ok s d"
proof -
  show n: "d < unat (sb_ninodes (raw_sb s))" and "d \<notin> set (free_inodes_list s)" "imap_ok s d"
    using assms by (auto simp: vol_ok_def ialloc_inv_def itable_ok_def own_inv_def)
  show "d < 65536" using n assms(1) unfolding vol_ok_def by linarith
qed

lemma vol_add_entry:
  assumes "kernel_bitops K" "io_ok K" "vol_ok s" "dir_inv K d s" "length name \<le> 14" "0 \<notin> set name"
    and "0 < ino" "ino < 65536" "dir_map s d name = None"
  obtains r t where "xv6fs_dir_add_entry K d name ino s = Some (r, t)"
    "r \<in> {Ret (), Err ENOSPC, Err EIO, Err EFBIG}" "own_frame d s t" "same_tables d s t" "vol_ok t"
    "dir_inv K d t" "dir_map t d = (if r = Ret () then (dir_map s d)(name \<mapsto> of_nat ino) else dir_map s d)"
proof -
  obtain r t where add: "xv6fs_dir_add_entry K d name ino s = Some (r, t)" "dir_frame d s t" "dir_inv K d t"
    "r \<in> {Ret (), Err ENOSPC, Err EIO, Err EFBIG}"
    "dir_map t d = (if r = Ret () then (dir_map s d)(name \<mapsto> of_nat ino) else dir_map s d)"
    using add_entry_refines [OF assms(1,2,4-6) u16_ino(2) [OF assms(7,8)] assms(9)] by blast
  have f: "own_frame d s t" by (rule own_frame_add_entry [OF assms(1,2,4,5) add(1)])
  have s: "same_tables d s t" "bmap_inv t" "imap_ok t d" using add(2) by (simp_all add: dir_frame_def)
  have c: "d \<in> dom (icache s)" using assms(4) by (simp add: dir_inv_def imap_ok_def)
  have inv: "own_inv s" "itable_ok s" "0 \<notin> set (free_inodes_list s)" "unat (sb_ninodes (raw_sb s)) \<le> 65536"
    using assms(3) by (simp_all add: vol_ok_def ialloc_inv_def)
  have "d < length (dinodes s)" "d \<notin> set (free_inodes_list s)"
    using vol_cached [OF assms(3) c] inv(2) by (simp_all add: itable_ok_def)
  then have "itable_ok t" by (rule itable_ok_same [OF inv(2) s(1)])
  moreover have "own_inv t" by (rule own_inv_step [OF inv(1) f s(2,3)])
  ultimately have "vol_ok t" using s(1) inv(3,4) by (simp add: vol_ok_def ialloc_inv_def same_tables_def)
  with add f s(1) show ?thesis using that by blast
qed

lemma vol_new_inode:
  assumes "vol_ok s" "xv6fs_new_inode K mode s = (Inr ino, t)"
  shows "vol_ok t" "0 < ino" "ino < 65536" "own_frame ino s t" "bmap_inv t" "imap_ok t ino"
    "ino \<notin> dom (icache s)" "ino < unat (sb_ninodes (raw_sb t))"
proof -
  have inv: "own_inv s" "itable_ok s" "0 \<notin> set (free_inodes_list s)" "unat (sb_ninodes (raw_sb s)) \<le> 65536"
    and bm: "bmap_inv s" using assms(1) by (simp_all add: vol_ok_def ialloc_inv_def own_inv_def)
  note n = new_inode_Inr [OF assms(2)] and i = new_inode_itable [OF inv(2) assms(2)]
  note o = new_inode_own [OF inv(2) bm assms(2)]
  show "own_frame ino s t" "bmap_inv t" "imap_ok t ino" by (rule o)+
  show "ino \<notin> dom (icache s)" by (rule i(3))
  show "0 < ino" using inv(3) n(1) by (cases ino) auto
  show "ino < 65536" using i(2) inv(4) by linarith
  show "ino < unat (sb_ninodes (raw_sb t))" using i(2) n(8) by simp
  have "own_inv t" by (rule own_inv_step [OF inv(1) o(1,2,3)])
  then show "vol_ok t" using i(1) inv(3,4) n(1,8) by (simp add: vol_ok_def ialloc_inv_def)
qed

lemma vol_discard:
  assumes "kernel_bitops K" "io_ok K" "vol_ok s" "ino \<in> dom (icache s)" "0 < ino"
  shows "vol_ok (discard_inode K ino s)" "own_frame ino s (discard_inode K ino s)"
    "free_inodes_list (discard_inode K ino s) = free_inodes_list s @ [ino]"
    "icache (discard_inode K ino s) = (icache s)(ino := None)"
proof -
  note c = vol_cached [OF assms(3,4)]
  have inv: "own_inv s" "ialloc_inv s" "bmap_inv s" "unat (sb_ninodes (raw_sb s)) \<le> 65536"
    using assms(3) by (simp_all add: vol_ok_def own_inv_def)
  note d = discard_own [OF assms(1,2) inv(3) c(4,1) assms(5)]
  show f: "own_frame ino s (discard_inode K ino s)" using d by simp
  show "free_inodes_list (discard_inode K ino s) = free_inodes_list s @ [ino]"
    by (rule discard_free_list [OF assms(5)])
  show "icache (discard_inode K ino s) = (icache s)(ino := None)"
    using d by (auto simp: fun_eq_iff own_frame_def)
  have "own_inv (discard_inode K ino s)"
    by (rule own_inv_step [OF inv(1) f]) (use d in auto)
  moreover have "ialloc_inv (discard_inode K ino s)"
    using itable.release_inv [OF inv(2), of ino K] assms(4,5) by simp
  moreover have "raw_sb (discard_inode K ino s) = raw_sb s" using d by (simp add: own_frame_def)
  ultimately show "vol_ok (discard_inode K ino s)" using inv(4) by (simp add: vol_ok_def)
qed

section \<open>An insertion that fails\<close>

lemma only_indirect_refl:
  assumes "bmap_inv s" "imap_ok s d" shows "only_indirect d s s"
proof -
  let ?a = "i_addrs (xv6fs_i s d) ! 12"
  have "block_used s (unat ?a)" if "unat ?a \<in> data_blocks s"
  proof -
    have "0 < unat ?a" using that DSTART_pos [OF bmap_inv_layout [OF assms(1)]] by (simp add: data_blocks_def)
    then have "?a \<noteq> 0" by auto
    then show ?thesis using assms(2) ind_in_blocks [of s d] by (simp add: imap_ok_def)
  qed
  then show ?thesis unfolding only_indirect_def by (intro exI [of _ ?a]) auto
qed

lemma dir_add_fails:
  assumes "kernel_bitops K" "io_ok K" "dir_inv K d s" "length name \<le> 14"
    and "xv6fs_dir_add_entry K d name ino s = Some (r, t)" "r \<noteq> Ret ()"
  shows "only_indirect d s t"
  using add_entry_fails [OF assms(1) _ _ _ assms(2,4-6)] assms(3) by (simp add: dir_inv_def)

text \<open>
  A new inode \<open>ino\<close> that is given back: when directory \<open>d\<close> has got at most an
  indirect block in between, the same holds from before to after.
\<close>

lemma only_indirect_given_back:
  assumes own: "own_inv s" "own_inv s1" "own_inv t" "bmap_inv s1" "bmap_inv s'"
    and d: "ino \<noteq> d" "d \<in> dom (icache s)" "ino \<in> dom (icache s1)" "d \<in> dom (icache t)"
    and a: "own_frame ino s s1" "owned s ino = {}"
    and m: "only_indirect d s1 t" "own_frame d s1 t"
    and z: "own_frame ino t s'" "owned s' ino = {}"
  shows "only_indirect d s s'"
proof -
  have im: "imap_ok s d" "imap_ok s1 ino" "imap_ok t d" using own d by (simp_all add: own_inv_def)
  have dis: "owned s d \<inter> owned s ino = {}" "owned s1 ino \<inter> owned s1 d = {}" "owned t d \<inter> owned t ino = {}"
    using own d(1) by (simp_all add: own_inv_def)
  have ne: "d \<noteq> ino" using d(1) by simp
  note k1 = other_kept [OF a(1) ne im(1) dis(1)]
    and k2 = other_kept [OF m(2) d(1) im(2) dis(2)]
    and k3 = other_kept [OF z(1) ne im(3) dis(3)]
  have db: "data_blocks s1 = data_blocks s" "data_blocks t = data_blocks s"
    using a(1) m(2) by (simp_all add: own_frame_def data_blocks_def)
  obtain v where i: "xv6fs_i t d = (xv6fs_i s1 d)\<lparr>i_addrs := (i_addrs (xv6fs_i s1 d))[12 := v]\<rparr>"
    "i_addrs (xv6fs_i s1 d) ! 12 \<noteq> 0 \<longrightarrow> v = i_addrs (xv6fs_i s1 d) ! 12" "file_map t d = file_map s1 d"
    "\<forall>b \<in> data_blocks s1. block_used t b \<longleftrightarrow> block_used s1 b \<or> b = unat v"
    "\<forall>b \<in> data_blocks s1. block_used s1 b \<longrightarrow> disk t b = disk s1 b"
    using m(1) unfolding only_indirect_def by blast
  have len: "length (i_addrs (xv6fs_i t d)) = 13" "length (i_addrs (xv6fs_i s1 d)) = 13"
    using im(3) k1(4) by (simp_all add: imap_ok_def)
  have v: "unat v \<in> owned t d" if "unat v \<in> data_blocks s"
  proof -
    have "bmap_inv s" using own(1) by (simp add: own_inv_def)
    then have "0 < unat v" using that DSTART_pos [OF bmap_inv_layout] by (fastforce simp: data_blocks_def)
    then have "v \<noteq> 0" by auto
    moreover have "i_addrs (xv6fs_i t d) ! 12 = v" using i(1) len(2) by simp
    ultimately show ?thesis using ind_in_blocks [OF len(1)] owned_imap [OF im(3)] by simp
  qed
  have s1: "block_used s b \<Longrightarrow> block_used s1 b \<and> b \<notin> owned s1 ino \<and> disk s1 b = disk s b"
      "block_used s1 b \<Longrightarrow> b \<notin> owned s1 ino \<Longrightarrow> block_used s b" if "b \<in> data_blocks s" for b
    using a that by (simp_all add: own_frame_def)
  have s': "block_used t b \<Longrightarrow> b \<notin> owned t ino \<Longrightarrow> block_used s' b \<and> disk s' b = disk t b"
      "block_used s' b \<Longrightarrow> block_used t b \<and> b \<notin> owned t ino" if "b \<in> data_blocks s" for b
    using z that db(2) by (simp_all add: own_frame_def)
  have "block_used s' b \<longleftrightarrow> block_used s b \<or> b = unat v" if b: "b \<in> data_blocks s" for b
  proof
    assume "block_used s' b"
    then have u: "block_used t b" "b \<notin> owned s1 ino" using s'(2) [OF b] k2(3) by simp_all
    then show "block_used s b \<or> b = unat v" using i(4) s1(2) [OF b] b db(1) by auto
  next
    assume "block_used s b \<or> b = unat v"
    then have "block_used t b \<and> b \<notin> owned t ino"
      using s1(1) [OF b] i(4) b db(1) k2(3) v dis(3) by auto
    then show "block_used s' b" using s'(1) [OF b] by blast
  qed
  moreover have "disk s' b = disk s b" if b: "b \<in> data_blocks s" "block_used s b" for b
    using s1(1) [OF b] s'(1) [OF b(1)] i(4,5) b db(1) k2(3) by auto
  ultimately show ?thesis
    unfolding only_indirect_def using i(1-3) k1(1,6) k3(1,6) by (intro exI [of _ v]) auto
qed

section \<open>Directories\<close>

lemma new_dir:
  assumes "vol_ok s" "xv6fs_new_inode K mode s = (Inr ino, t)"
  shows "dir_inv K ino t" "dir_map t ino = Map.empty" "xv6fs_i t ino = new_inode_fields mode (fresh_inode K)"
proof -
  note n = vol_new_inode [OF assms]
  show i: "xv6fs_i t ino = new_inode_fields mode (fresh_inode K)" by (rule new_inode_Inr(3) [OF assms(2)])
  then have f: "i_size (xv6fs_i t ino) = 0" "i_addrs (xv6fs_i t ino) = replicate 13 0"
    by (simp_all add: new_inode_fields_def Let_def)
  then have e: "dir_entries t ino = []" by (simp add: dir_entries_def live_slots_def nslots_def)
  then show "dir_map t ino = Map.empty" by (simp add: dir_map_entries)
  have "file_map t ino l = None" for l
    using f(2) by (simp add: file_map_def ind_entries_def block_opt_def)
  then show "dir_inv K ino t" using n(5,6) f e by (simp add: dir_inv_def dir_ok_def unique_names_def)
qed

lemma store_entry_attrs:
  assumes "xv6fs_i s d = ei"
  shows "\<exists>z. xv6fs_i (snd (store_entry d name ino pos b s)) d = ei\<lparr>i_size := z\<rparr>"
  using assms by (cases ei) (auto simp: store_entry_def Let_def)

text \<open>An insertion changes the addresses and the size of the directory, and nothing else of it.\<close>

lemma add_entry_attrs:
  assumes "io_ok K" "dir_inv K d s" "length name \<le> 14" "xv6fs_dir_add_entry K d name ino s = Some (r, t)"
  obtains a z where "xv6fs_i t d = (xv6fs_i s d)\<lparr>i_addrs := a, i_size := z\<rparr>"
proof -
  obtain x u where call: "xv6fs_get_block K d (free_slot s d div 32) True s = (x, u)" by fastforce
  have "same_attrs d s u" using get_block_frame [of d s K "free_slot s d div 32" True] call by simp
  then obtain a where u: "xv6fs_i u d = (xv6fs_i s d)\<lparr>i_addrs := a\<rparr>" unfolding same_attrs_def by blast
  have "dir_ok K s d" using assms(2) by (simp add: dir_inv_def)
  then have "(r, t) = dir_write_entry K d name ino (16 * int (free_slot s d)) s"
    using add_entry_eq [of K s d name ino] assms(3,4) by simp
  then have t: "t = snd (dir_write_entry K d name ino (16 * int (free_slot s d)) s)" by (metis snd_conv)
  have "\<exists>z. xv6fs_i u d = (xv6fs_i u d)\<lparr>i_size := z\<rparr>" by (cases "xv6fs_i u d") simp
  then have "\<exists>z. xv6fs_i t d = (xv6fs_i u d)\<lparr>i_size := z\<rparr>"
    unfolding t dir_write_entry_io [OF assms(1) call]
    by (auto intro: store_entry_attrs split: sum.splits bh_result.splits bool.splits)
  then obtain z where "xv6fs_i t d = (xv6fs_i u d)\<lparr>i_size := z\<rparr>" ..
  then have "xv6fs_i t d = (xv6fs_i s d)\<lparr>i_addrs := a, i_size := z\<rparr>" by (simp add: u)
  then show ?thesis by (rule that)
qed

lemma add_entry_nlink:
  assumes "io_ok K" "dir_inv K d s" "length name \<le> 14" "xv6fs_dir_add_entry K d name ino s = Some (r, t)"
  shows "i_nlink (xv6fs_i t d) = i_nlink (xv6fs_i s d)"
proof -
  obtain a z where "xv6fs_i t d = (xv6fs_i s d)\<lparr>i_addrs := a, i_size := z\<rparr>" by (rule add_entry_attrs [OF assms])
  then show ?thesis by simp
qed

text \<open>
  The state between the insertions of \<open>xv6fs_mkdir\<close>: \<open>s\<close> is the state before
  the call, \<open>ino\<close> the new directory.
\<close>

definition making :: "kernel \<Rightarrow> nat \<Rightarrow> fs \<Rightarrow> fs \<Rightarrow> bool" where
  "making K ino s t \<longleftrightarrow>
     vol_ok t \<and> dir_inv K ino t \<and> free_inodes_list s = ino # free_inodes_list t \<and>
     (\<forall>d. dir_inv K d s \<longrightarrow> d \<noteq> ino \<and> dir_inv K d t \<and> i_nlink (xv6fs_i t d) = i_nlink (xv6fs_i s d)) \<and>
     0 < ino \<and> ino < 65536"

lemma making_add:
  assumes "kernel_bitops K" "io_ok K" "making K ino s t" "d = ino \<or> dir_inv K d s"
    and "length name \<le> 14" "0 \<notin> set name" "0 < v" "v < 65536" "dir_map t d name = None"
  obtains r u where "xv6fs_dir_add_entry K d name v t = Some (r, u)"
    "r \<in> {Ret (), Err ENOSPC, Err EIO, Err EFBIG}" "making K ino s u"
    "dir_map u d = (if r = Ret () then (dir_map t d)(name \<mapsto> of_nat v) else dir_map t d)"
    "\<And>c. c \<noteq> d \<Longrightarrow> c = ino \<or> dir_inv K c s \<Longrightarrow> dir_map u c = dir_map t c"
    "i_nlink (xv6fs_i u ino) = i_nlink (xv6fs_i t ino)"
proof -
  have m: "vol_ok t" "dir_inv K ino t" using assms(3) by (simp_all add: making_def)
  have c: "dir_inv K c t" if "c = ino \<or> dir_inv K c s" for c using assms(3) that by (auto simp: making_def)
  obtain r u where add: "xv6fs_dir_add_entry K d name v t = Some (r, u)"
    "r \<in> {Ret (), Err ENOSPC, Err EIO, Err EFBIG}" "own_frame d t u" "same_tables d t u" "vol_ok u"
    "dir_inv K d u" "dir_map u d = (if r = Ret () then (dir_map t d)(name \<mapsto> of_nat v) else dir_map t d)"
    by (rule vol_add_entry [OF assms(1,2) m(1) c [OF assms(4)] assms(5-9)])
  have o: "own_inv t" "bmap_inv u" using m(1) add(5) by (simp_all add: vol_ok_def own_inv_def)
  have k: "dir_inv K c u \<and> dir_map u c = dir_map t c" if "c \<noteq> d" "c = ino \<or> dir_inv K c s" for c
    using vol_dir_other [OF o(1) add(3) o(2) that(1) c [OF that(2)]] by simp
  have nl: "i_nlink (xv6fs_i u c) = i_nlink (xv6fs_i t c)" for c
  proof (cases "c = d")
    case True
    then show ?thesis using add_entry_nlink [OF assms(2) c [OF assms(4)] assms(5) add(1)] by simp
  next
    case False
    then show ?thesis using add(4) by (simp add: same_tables_def xv6fs_i_def)
  qed
  have "making K ino s u"
    unfolding making_def
  proof (intro conjI allI impI)
    show "dir_inv K ino u" using k [of ino] add(6) by (cases "ino = d") simp_all
    show "free_inodes_list s = ino # free_inodes_list u"
      using assms(3) add(4) by (simp add: making_def same_tables_def)
    fix c assume "dir_inv K c s"
    then show "c \<noteq> ino" "dir_inv K c u" "i_nlink (xv6fs_i u c) = i_nlink (xv6fs_i s c)"
      using assms(3) nl k [of c] add(6) by (auto simp: making_def)
  qed (use assms(3) add(5) in \<open>simp_all add: making_def\<close>)
  then show ?thesis using that [OF add(1,2) _ add(7)] k nl by blast
qed

lemma making_discard:
  assumes "kernel_bitops K" "io_ok K" "making K ino s t"
  defines "u \<equiv> discard_inode K ino t"
  shows "vol_ok u" "\<And>d. dir_inv K d s \<Longrightarrow> dir_inv K d u \<and> dir_map u d = dir_map t d"
    "set (free_inodes_list u) = set (free_inodes_list s)"
proof -
  have m: "vol_ok t" "dir_inv K ino t" "0 < ino" "free_inodes_list s = ino # free_inodes_list t"
    using assms(3) by (simp_all add: making_def)
  have "ino \<in> dom (icache t)" using m(2) by (simp add: dir_inv_def imap_ok_def)
  note v = vol_discard [OF assms(1,2) m(1) this m(3), folded u_def]
  show "vol_ok u" by (rule v(1))
  show "set (free_inodes_list u) = set (free_inodes_list s)" using v(3) m(4) by simp
  fix d assume "dir_inv K d s"
  then have "d \<noteq> ino" "dir_inv K d t" using assms(3) by (auto simp: making_def)
  moreover have "own_inv t" "bmap_inv u" using m(1) v(1) by (simp_all add: vol_ok_def own_inv_def)
  ultimately show "dir_inv K d u \<and> dir_map u d = dir_map t d"
    using vol_dir_other [OF _ v(2)] by blast
qed

text \<open>The entries for directory \<open>c\<close> in a list of insertions, added to a map.\<close>

fun with_entries ::
    "nat \<Rightarrow> (nat \<times> byte list \<times> nat) list \<Rightarrow> (byte list \<Rightarrow> u16 option) \<Rightarrow> byte list \<Rightarrow> u16 option" where
  "with_entries c [] m = m"
| "with_entries c ((d, name, v) # es) m = with_entries c es (if d = c then m(name \<mapsto> of_nat v) else m)"

lemma making_add_entries:
  assumes "kernel_bitops K" "io_ok K" "making K ino s t"
    and "\<forall>(d, name, v) \<in> set es. (d = ino \<or> dir_inv K d s) \<and> length name \<le> 14 \<and> 0 \<notin> set name \<and>
           0 < v \<and> v < 65536 \<and> dir_map t d name = None"
    and "distinct (map (\<lambda>(d, name, v). (d, name)) es)"
  shows "\<exists>r u k. add_entries K es t = Some (r, u) \<and> making K ino s u \<and>
    r \<in> {Ret (), Err ENOSPC, Err EIO, Err EFBIG} \<and> (r = Ret () \<longrightarrow> k = length es) \<and>
    (r \<noteq> Ret () \<longrightarrow> k < length es) \<and> i_nlink (xv6fs_i u ino) = i_nlink (xv6fs_i t ino) \<and>
    (\<forall>c. c = ino \<or> dir_inv K c s \<longrightarrow> dir_map u c = with_entries c (take k es) (dir_map t c))"
  using assms(3-5)
proof (induction es arbitrary: t)
  case Nil
  then show ?case by (intro exI [of _ "Ret ()"] exI [of _ t] exI [of _ 0]) simp
next
  case (Cons e es)
  obtain d name v where e: "e = (d, name, v)" by (cases e)
  have p: "d = ino \<or> dir_inv K d s" "length name \<le> 14" "0 \<notin> set name" "0 < v" "v < 65536" "dir_map t d name = None"
    using Cons.prems(2) e by auto
  obtain r u where add: "xv6fs_dir_add_entry K d name v t = Some (r, u)"
    "r \<in> {Ret (), Err ENOSPC, Err EIO, Err EFBIG}" "making K ino s u"
    "dir_map u d = (if r = Ret () then (dir_map t d)(name \<mapsto> of_nat v) else dir_map t d)"
    "\<And>c. c \<noteq> d \<Longrightarrow> c = ino \<or> dir_inv K c s \<Longrightarrow> dir_map u c = dir_map t c"
    "i_nlink (xv6fs_i u ino) = i_nlink (xv6fs_i t ino)"
    using making_add [OF assms(1,2) Cons.prems(1) p] by metis
  show ?case
  proof (cases "r = Ret ()")
    case False
    then have "dir_map u c = dir_map t c" if "c = ino \<or> dir_inv K c s" for c
      using add(4,5) that by (cases "c = d") auto
    moreover have "add_entries K (e # es) t = Some (r, u)" using add(1,2) False e by auto
    ultimately show ?thesis using add(2,3,6) False
      by (intro exI [of _ r] exI [of _ u] exI [of _ 0]) simp
  next
    case True
    have "dir_map u d' name' = None" if "(d', name', v') \<in> set es" for d' name' v'
    proof -
      have "(d', name') \<noteq> (d, name)" using Cons.prems(3) that e by force
      moreover have "dir_map t d' name' = None" "d' = ino \<or> dir_inv K d' s" using Cons.prems(2) that by auto
      ultimately show ?thesis using add(4,5) True by (cases "d' = d") auto
    qed
    then have "\<forall>(d, name, v) \<in> set es. (d = ino \<or> dir_inv K d s) \<and> length name \<le> 14 \<and> 0 \<notin> set name \<and>
        0 < v \<and> v < 65536 \<and> dir_map u d name = None"
      using Cons.prems(2) by fastforce
    from Cons.IH [OF add(3) this] Cons.prems(3) obtain r' w k where IH: "add_entries K es u = Some (r', w)"
      "making K ino s w" "r' \<in> {Ret (), Err ENOSPC, Err EIO, Err EFBIG}" "r' = Ret () \<longrightarrow> k = length es"
      "r' \<noteq> Ret () \<longrightarrow> k < length es" "i_nlink (xv6fs_i w ino) = i_nlink (xv6fs_i u ino)"
      "\<forall>c. c = ino \<or> dir_inv K c s \<longrightarrow> dir_map w c = with_entries c (take k es) (dir_map u c)" by auto
    have "dir_map w c = with_entries c (take (Suc k) (e # es)) (dir_map t c)" if "c = ino \<or> dir_inv K c s" for c
      using IH(7) that add(4,5) True e by (cases "c = d") auto
    moreover have "add_entries K (e # es) t = Some (r', w)" using add(1) True IH(1) e by simp
    ultimately show ?thesis using IH(2-6) add(6)
      by (intro exI [of _ r'] exI [of _ w] exI [of _ "Suc k"]) simp
  qed
qed

lemma making_start:
  assumes "vol_ok s" "xv6fs_new_inode K mode s = (Inr ino, t)"
  shows "making K ino s t" "\<And>d. dir_inv K d s \<Longrightarrow> dir_map t d = dir_map s d"
proof -
  note n = vol_new_inode [OF assms] and i = new_inode_Inr [OF assms(2)]
  have own: "own_inv s" using assms(1) by (simp add: vol_ok_def)
  have ne: "d \<noteq> ino" if "dir_inv K d s" for d using n(7) that by (auto simp: dir_inv_def imap_ok_def)
  have "xv6fs_i t d = xv6fs_i s d" if "d \<noteq> ino" for d using i(4) that by (simp add: xv6fs_i_def)
  then show "making K ino s t"
    using n(1-3) new_dir(1) [OF assms] i(1) ne vol_dir_other(1) [OF own n(4,5)] by (simp add: making_def)
  show "dir_map t d = dir_map s d" if "dir_inv K d s" for d
    by (rule vol_dir_other(2) [OF own n(4,5) ne that]) (rule that)
qed

text \<open>The first insertions of \<open>xv6fs_mkdir\<close> concern the new directory only.\<close>

lemma making_adds_own:
  assumes "kernel_bitops K" "io_ok K" "making K ino s t"
    and "\<forall>(name, v) \<in> set ns. length name \<le> 14 \<and> 0 \<notin> set name \<and> 0 < v \<and> v < 65536 \<and> dir_map t ino name = None"
    and "distinct (map fst ns)" "add_entries K (map (Pair ino) ns) t = Some (r, u)"
  shows "own_frame ino t u"
  using assms(3-6)
proof (induction ns arbitrary: t)
  case Nil
  then show ?case by simp
next
  case (Cons e ns)
  obtain name v where e: "e = (name, v)" by (cases e)
  have p: "length name \<le> 14" "0 \<notin> set name" "0 < v" "v < 65536" "dir_map t ino name = None"
    using Cons.prems(2) e by auto
  obtain x w where add: "xv6fs_dir_add_entry K ino name v t = Some (x, w)" "making K ino s w"
    "dir_map w ino = (if x = Ret () then (dir_map t ino)(name \<mapsto> of_nat v) else dir_map t ino)"
    using making_add [OF assms(1,2) Cons.prems(1) disjI1 p] by blast
  have "dir_inv K ino t" using Cons.prems(1) by (simp add: making_def)
  note f = own_frame_add_entry [OF assms(1,2) this p(1) add(1)]
  show ?case
  proof (cases "x = Ret ()")
    case True
    have "dir_map w ino n' = None" if "(n', v') \<in> set ns" for n' v'
    proof -
      have "n' \<noteq> name" using Cons.prems(3) that e by force
      then show ?thesis using Cons.prems(2) that add(3) True by auto
    qed
    then have "\<forall>(name, v) \<in> set ns. length name \<le> 14 \<and> 0 \<notin> set name \<and> 0 < v \<and> v < 65536 \<and> dir_map w ino name = None"
      using Cons.prems(2) by auto
    then have "own_frame ino w u"
      using Cons.prems(3,4) add(1) True e by (intro Cons.IH [OF add(2)]) auto
    then show ?thesis by (rule own_frame_trans [OF f])
  next
    case False
    then have "u = w" using Cons.prems(4) add(1) e by (cases x) auto
    then show ?thesis using f by simp
  qed
qed

lemma add_entries_append:
  "add_entries K (xs @ ys) t =
     (case add_entries K xs t of None \<Rightarrow> None
      | Some (r, u) \<Rightarrow> if r = Ret () then add_entries K ys u else Some (r, u))"
proof (induction xs arbitrary: t)
  case (Cons e xs)
  obtain d name v where e: "e = (d, name, v)" by (cases e)
  show ?case
    by (cases "xv6fs_dir_add_entry K d name v t") (auto simp: e Cons split: dir_ret.splits)
qed simp

lemma making_given_back:
  assumes "kernel_bitops K" "io_ok K" "own_inv s" "ino \<notin> dom (icache s)" "dir_inv K dir s"
    and v: "making K ino s v" "own_frame ino s v"
    and u: "making K ino s u" "only_indirect dir v u" "own_frame dir v u"
  shows "only_indirect dir s (discard_inode K ino u)"
    "\<And>j. j \<noteq> dir \<Longrightarrow> icache (discard_inode K ino u) j = icache s j"
proof -
  have m: "vol_ok u" "dir_inv K ino u" "dir_inv K dir u" "0 < ino" "ino \<noteq> dir" "own_inv u" "own_inv v"
    "dir_inv K ino v" "bmap_inv v"
    using u(1) v(1) assms(5) by (auto simp: making_def vol_ok_def own_inv_def)
  have c: "ino \<in> dom (icache u)" using m(2) by (simp add: dir_inv_def imap_ok_def)
  note z = vol_discard [OF assms(1,2) m(1) c m(4)]
  have "bmap_inv (discard_inode K ino u)" using z(1) by (simp add: vol_ok_def own_inv_def)
  then show "only_indirect dir s (discard_inode K ino u)"
    using m assms(4,5) z(4)
    by (intro only_indirect_given_back [OF assms(3) m(7,6,9) _ m(5) _ _ _ v(2) _ u(2,3) z(2)])
       (auto simp: owned_def dir_inv_def imap_ok_def split: option.split)
  show "icache (discard_inode K ino u) j = icache s j" if "j \<noteq> dir" for j
    using that z(4) assms(4) u(3) v(2) by (auto simp: own_frame_def)
qed

section \<open>Properties\<close>

lemma create_add:
  assumes "kernel_bitops K" "io_ok K" "vol_ok s" "dir_inv K dir s"
    and "length name \<le> 14" "0 \<notin> set name" "dir_map s dir name = None"
    and "xv6fs_new_inode K mode s = (Inr ino, s1)"
  obtains r u where "xv6fs_dir_add_entry K dir name ino s1 = Some (r, u)"
    "r \<in> {Ret (), Err ENOSPC, Err EIO, Err EFBIG}" "making K ino s u" "icache u ino = icache s1 ino"
    "dir_map u dir = (if r = Ret () then (dir_map s dir)(name \<mapsto> of_nat ino) else dir_map s dir)"
    "\<And>d. d \<noteq> dir \<Longrightarrow> dir_inv K d s \<Longrightarrow> dir_map u d = dir_map s d"
    "r \<noteq> Ret () \<Longrightarrow> only_indirect dir s (discard_inode K ino u) \<and>
       (\<forall>j. j \<noteq> dir \<longrightarrow> icache (discard_inode K ino u) j = icache s j)"
proof -
  note n = vol_new_inode [OF assms(3,8)] and m = making_start [OF assms(3,8)]
  have own: "own_inv s" using assms(3) by (simp add: vol_ok_def)
  have d1: "dir_inv K dir s1" "dir_map s1 dir name = None" "ino \<noteq> dir"
    using m(1) m(2) [OF assms(4)] assms(4,7) by (auto simp: making_def)
  obtain r u where add: "xv6fs_dir_add_entry K dir name ino s1 = Some (r, u)"
    "r \<in> {Ret (), Err ENOSPC, Err EIO, Err EFBIG}" "making K ino s u"
    "dir_map u dir = (if r = Ret () then (dir_map s1 dir)(name \<mapsto> of_nat ino) else dir_map s1 dir)"
    "\<And>c. c \<noteq> dir \<Longrightarrow> c = ino \<or> dir_inv K c s \<Longrightarrow> dir_map u c = dir_map s1 c"
    using making_add [OF assms(1,2) m(1) disjI2 [OF assms(4)] assms(5,6) n(2,3) d1(2)] by metis
  note f = own_frame_add_entry [OF assms(1,2) d1(1) assms(5) add(1)]
  have fail: "only_indirect dir s (discard_inode K ino u) \<and>
      (\<forall>j. j \<noteq> dir \<longrightarrow> icache (discard_inode K ino u) j = icache s j)" if "r \<noteq> Ret ()"
    using making_given_back [OF assms(1,2) own n(7) assms(4) m(1) n(4) add(3)
        dir_add_fails [OF assms(1,2) d1(1) assms(5) add(1) that] f] by blast
  show ?thesis
    by (rule that [OF add(1-3)]) (use f d1(3) add(4,5) m(2) assms(4) fail in \<open>simp_all add: own_frame_def\<close>)
qed

text \<open>
  C11: \<open>xv6fs_create\<close> on a consistent volume returns and keeps it consistent.
  On success the new name, and nothing else, has been added to the directory,
  for an inode taken from the head of the free list and initialised for the
  mode.  When no inode is left nothing changes; when the entry cannot be added,
  the directory has the same entries, size and link count, every other cached
  inode is as before, the new inode is gone and free again (it is now the last
  of the free list), and no block is taken, freed or written but for an
  indirect block the directory may have got (\<open>only_indirect\<close>).  No other
  directory changes.
\<close>

theorem create_correct:
  assumes "kernel_bitops K" "io_ok K" "vol_ok s" "dir_inv K dir s"
    and "length name \<le> XV6FS_DIRSIZ" "0 \<notin> set name" "dir_map s dir name = None"
  shows "\<exists>r s'. xv6fs_create K dir name mode s = Some (r, s') \<and> vol_ok s' \<and> dir_inv K dir s' \<and>
    (\<forall>d. d \<noteq> dir \<longrightarrow> dir_inv K d s \<longrightarrow> dir_inv K d s' \<and> dir_map s' d = dir_map s d) \<and>
    (case r of
       Ret ino \<Rightarrow> free_inodes_list s = ino # free_inodes_list s' \<and>
         icache s' ino = Some (new_inode_fields mode (fresh_inode K)) \<and>
         dir_map s' dir = (dir_map s dir)(name \<mapsto> of_nat ino)
     | Err e \<Rightarrow> e \<in> {ENOSPC, ENOMEM, EIO, EFBIG} \<and> dir_map s' dir = dir_map s dir \<and>
         only_indirect dir s s' \<and> (\<forall>j. j \<noteq> dir \<longrightarrow> icache s' j = icache s j) \<and>
         (s' = s \<or> (\<exists>i l. free_inodes_list s = i # l \<and> free_inodes_list s' = l @ [i])) \<and>
         set (free_inodes_list s') = set (free_inodes_list s)
     | Oops \<Rightarrow> False)"
proof -
  obtain x s1 where new: "xv6fs_new_inode K mode s = (x, s1)" by fastforce
  show ?thesis
  proof (cases x)
    case (Inl e)
    then have "xv6fs_create K dir name mode s = Some (Err e, s)" "e \<in> {ENOSPC, ENOMEM}"
      using new_inode_Inl [of K mode s e s1] new by (auto simp: xv6fs_create_def)
    moreover have "only_indirect dir s s" using assms(4) by (intro only_indirect_refl) (simp_all add: dir_inv_def)
    ultimately show ?thesis using assms(3,4) by (intro exI [of _ "Err e"] exI [of _ s]) auto
  next
    case (Inr ino)
    obtain r u where add: "xv6fs_dir_add_entry K dir name ino s1 = Some (r, u)"
      "r \<in> {Ret (), Err ENOSPC, Err EIO, Err EFBIG}" "making K ino s u" "icache u ino = icache s1 ino"
      "dir_map u dir = (if r = Ret () then (dir_map s dir)(name \<mapsto> of_nat ino) else dir_map s dir)"
      "\<And>d. d \<noteq> dir \<Longrightarrow> dir_inv K d s \<Longrightarrow> dir_map u d = dir_map s d"
      "r \<noteq> Ret () \<Longrightarrow> only_indirect dir s (discard_inode K ino u) \<and>
         (\<forall>j. j \<noteq> dir \<longrightarrow> icache (discard_inode K ino u) j = icache s j)"
      using create_add [OF assms(1-4) _ assms(6,7) new [unfolded Inr]] assms(5) by auto
    have m: "vol_ok u" "0 < ino" "free_inodes_list s = ino # free_inodes_list u"
      "\<And>d. dir_inv K d s \<Longrightarrow> dir_inv K d u" using add(3) by (auto simp: making_def)
    show ?thesis
    proof (cases "r = Ret ()")
      case True
      then have "xv6fs_create K dir name mode s = Some (Ret ino, u)"
        using new Inr add(1) by (simp add: xv6fs_create_def)
      then show ?thesis using add(4-6) m True assms(4) new_inode_Inr(4) [OF new [unfolded Inr]]
        by (intro exI [of _ "Ret ino"] exI [of _ u]) simp
    next
      case False
      then obtain e where e: "r = Err e" "e \<in> {ENOSPC, EIO, EFBIG}" using add(2) by auto
      have "xv6fs_create K dir name mode s = Some (Err e, discard_inode K ino u)"
        using new Inr add(1) e by (simp add: xv6fs_create_def)
      then show ?thesis
        using making_discard [OF assms(1,2) add(3)] discard_free_list [OF m(2), of K u] e add(5-7) m(3) False assms(4)
        by (intro exI [of _ "Err e"] exI [of _ "discard_inode K ino u"]) auto
    qed
  qed
qed

lemma demo_vol_ok: "vol_ok demo_fs"
proof -
  have "own_inv demo_fs"
    using demo_bmap_inv demo_imap_ok by (auto simp: own_inv_def owned_def demo_fs_def split: if_splits)
  then show ?thesis using demo_ialloc_inv by (simp add: vol_ok_def)
qed

theorem create_correct_witness:
  "\<exists>r s'. xv6fs_create ref_kernel 1 [97] 0x8000 demo_fs = Some (r, s') \<and> vol_ok s' \<and> dir_inv ref_kernel 1 s' \<and>
    (case r of
       Ret ino \<Rightarrow> free_inodes_list demo_fs = ino # free_inodes_list s' \<and>
         icache s' ino = Some (new_inode_fields 0x8000 blank_inode) \<and> dir_map s' 1 = [[97] \<mapsto> of_nat ino]
     | Err e \<Rightarrow> e \<in> {ENOSPC, ENOMEM, EIO, EFBIG} \<and> dir_map s' 1 = Map.empty \<and>
         only_indirect 1 demo_fs s' \<and> (\<forall>j. j \<noteq> 1 \<longrightarrow> icache s' j = icache demo_fs j) \<and>
         (s' = demo_fs \<or> (\<exists>i l. free_inodes_list demo_fs = i # l \<and> free_inodes_list s' = l @ [i])) \<and>
         set (free_inodes_list s') = set (free_inodes_list demo_fs)
     | Oops \<Rightarrow> False)"
  using create_correct [OF ref_kernel_bitops ref_io_ok demo_vol_ok demo_dir_inv, of "[97]" "0x8000"]
  unfolding demo_dir_map ref_kernel_ok(5) by auto

lemma vol_link_count:
  assumes "vol_ok s" "i \<in> dom (icache s)"
  shows "vol_ok (mark_inode_dirty i (set_nlink i n s))"
proof -
  let ?t = "mark_inode_dirty i (set_nlink i n s)"
  have inv: "own_inv s" "itable_ok s" "0 \<notin> set (free_inodes_list s)" "unat (sb_ninodes (raw_sb s)) \<le> 65536"
    and bm: "bmap_inv s" using assms(1) by (simp_all add: vol_ok_def ialloc_inv_def own_inv_def)
  have f: "own_frame i s ?t" using own_frame_attr [of _ s i] assms(2) by (simp add: set_nlink_def)
  have "own_inv ?t"
    using own_inv_step [OF inv(1) f] link_count_views(7) bm imap_ok_link_count vol_cached(4) [OF assms]
    by simp
  moreover have "itable_ok ?t"
    using itable_set_inode [OF inv(2) assms(2)] by (simp add: set_nlink_def itable_ok_def)
  ultimately show ?thesis using inv(3,4) by (simp add: vol_ok_def ialloc_inv_def icache_link_count)
qed

lemma mkdir_adds_fail:
  assumes "kernel_bitops K" "io_ok K" "vol_ok s" "dir_inv K dir s" "length name \<le> 14"
    and "xv6fs_new_inode K mode s = (Inr ino, s1)"
    and "add_entries K [(ino, [46], ino), (ino, [46, 46], dir), (dir, name, ino)] s1 = Some (r, u)" "r \<noteq> Ret ()"
    and "0 \<notin> set name" "0 < ino" "ino < 65536" "dir < 65536" "0 < dir" "dir_map s dir name = None"
  shows "only_indirect dir s (discard_inode K ino u)"
    "\<And>j. j \<noteq> dir \<Longrightarrow> icache (discard_inode K ino u) j = icache s j"
proof -
  note n = vol_new_inode [OF assms(3,6)] and m = making_start [OF assms(3,6)] and nd = new_dir [OF assms(3,6)]
  have own: "own_inv s" using assms(3) by (simp add: vol_ok_def)
  define ns where "ns = [([46 :: byte], ino), ([46, 46], dir)]"
  have p: "\<forall>(d, nm, v) \<in> set (map (Pair ino) ns).
      (d = ino \<or> dir_inv K d s) \<and> length nm \<le> 14 \<and> 0 \<notin> set nm \<and> 0 < v \<and> v < 65536 \<and> dir_map s1 d nm = None"
    using assms nd(2) by (simp add: ns_def)
  have q: "distinct (map (\<lambda>(d, nm, v). (d, nm)) (map (Pair ino) ns))" and l: "length (map (Pair ino) ns) = 2"
    by (simp_all add: ns_def)
  obtain x v k where
    v: "add_entries K (map (Pair ino) ns) s1 = Some (x, v)" "making K ino s v"
      "x = Ret () \<longrightarrow> k = 2"
      "\<forall>c. c = ino \<or> dir_inv K c s \<longrightarrow> dir_map v c = with_entries c (take k (map (Pair ino) ns)) (dir_map s1 c)"
    using making_add_entries [OF assms(1,2) m(1) p q] unfolding l by blast
  have f: "own_frame ino s v"
    using assms(10-13) nd(2) by (intro own_frame_trans [OF n(4) making_adds_own [OF assms(1,2) m(1) _ _ v(1)]]) (auto simp: ns_def)
  have "add_entries K (map (Pair ino) ns @ [(dir, name, ino)]) s1 = Some (r, u)" using assms(7) by (simp add: ns_def)
  then have c: "(if x = Ret () then add_entries K [(dir, name, ino)] v else Some (x, v)) = Some (r, u)"
    unfolding add_entries_append v(1) by simp
  have "making K ino s u \<and> only_indirect dir v u \<and> own_frame dir v u"
  proof (cases "x = Ret ()")
    case False
    have "dir_inv K dir v" using v(2) assms(4) by (simp add: making_def)
    then show ?thesis using c False v(2) by (simp add: only_indirect_refl dir_inv_def)
  next
    case True
    have d: "dir_inv K dir v" "dir \<noteq> ino" using v(2) assms(4) by (auto simp: making_def)
    have "dir_map v dir name = None" using v(3,4) True assms(4,14) m(2) d(2) by (simp add: numeral_2_eq_2 ns_def)
    from making_add [OF assms(1,2) v(2) _ assms(5,9-11) this] assms(4) obtain r' u' where
      a: "xv6fs_dir_add_entry K dir name ino v = Some (r', u')" "making K ino s u'" by metis
    then have "u' = u" "r' = r" using c True by (auto split: dir_ret.splits)
    then show ?thesis
      using a dir_add_fails [OF assms(1,2) d(1) assms(5)] own_frame_add_entry [OF assms(1,2) d(1) assms(5)] assms(8)
      by blast
  qed
  then show "only_indirect dir s (discard_inode K ino u)"
    and "\<And>j. j \<noteq> dir \<Longrightarrow> icache (discard_inode K ino u) j = icache s j"
    using making_given_back [OF assms(1,2) own n(7) assms(4) v(2) f] by blast+
qed

lemma mkdir_adds:
  assumes "kernel_bitops K" "io_ok K" "vol_ok s" "dir_inv K dir s" "0 < dir"
    and "length name \<le> 14" "0 \<notin> set name" "dir_map s dir name = None"
    and "xv6fs_new_inode K mode s = (Inr ino, s1)"
  obtains r u where "add_entries K [(ino, [46], ino), (ino, [46, 46], dir), (dir, name, ino)] s1 = Some (r, u)"
    "r \<in> {Ret (), Err ENOSPC, Err EIO, Err EFBIG}" "making K ino s u"
    "\<forall>d. d \<noteq> dir \<longrightarrow> dir_inv K d s \<longrightarrow> dir_map u d = dir_map s d"
    "r = Ret () \<longrightarrow> dir_map u ino = [[46] \<mapsto> of_nat ino, [46, 46] \<mapsto> of_nat dir] \<and>
       dir_map u dir = (dir_map s dir)(name \<mapsto> of_nat ino)"
    "r \<noteq> Ret () \<longrightarrow> dir_map u dir = dir_map s dir \<and> only_indirect dir s (discard_inode K ino u) \<and>
       (\<forall>j. j \<noteq> dir \<longrightarrow> icache (discard_inode K ino u) j = icache s j)"
proof -
  note m = making_start [OF assms(3,9)] and nd = new_dir [OF assms(3,9)]
  have ino: "0 < ino" "ino < 65536" "ino \<noteq> dir" using m(1) assms(4) by (auto simp: making_def)
  have d: "dir < 65536" using vol_cached(2) [OF assms(3)] assms(4) by (simp add: dir_inv_def imap_ok_def)
  define es where "es = [(ino, [46], ino), (ino, [46, 46], dir), (dir, name, ino)]"
  have pre: "\<forall>(d, nm, v) \<in> set es.
      (d = ino \<or> dir_inv K d s) \<and> length nm \<le> 14 \<and> 0 \<notin> set nm \<and> 0 < v \<and> v < 65536 \<and> dir_map s1 d nm = None"
    using ino d assms(4-8) nd(2) m(2) [OF assms(4)] by (simp add: es_def)
  have es: "length es = 3" "distinct (map (\<lambda>(d, nm, v). (d, nm)) es)" using ino(3) by (simp_all add: es_def)
  obtain r u k where add: "add_entries K es s1 = Some (r, u)"
    "making K ino s u" "r \<in> {Ret (), Err ENOSPC, Err EIO, Err EFBIG}" "r = Ret () \<longrightarrow> k = 3" "r \<noteq> Ret () \<longrightarrow> k < 3"
    "\<forall>c. c = ino \<or> dir_inv K c s \<longrightarrow> dir_map u c = with_entries c (take k es) (dir_map s1 c)"
    using making_add_entries [OF assms(1,2) m(1) pre es(2)] unfolding es(1) by blast
  have oth: "dir_map u d = dir_map s d" if "d \<noteq> dir" "dir_inv K d s" for d
  proof -
    have "d \<noteq> ino" using add(2) that(2) by (auto simp: making_def)
    then have "with_entries d (take k es) w = w" for w using that(1) by (auto simp: take_Cons' es_def)
    then show ?thesis using add(6) that m(2) by simp
  qed
  have good: "dir_map u ino = [[46] \<mapsto> of_nat ino, [46, 46] \<mapsto> of_nat dir] \<and>
      dir_map u dir = (dir_map s dir)(name \<mapsto> of_nat ino)" if "r = Ret ()"
    using add(4,6) that ino(3) assms(4) nd(2) m(2) [OF assms(4)] by (simp add: numeral_3_eq_3 es_def)
  have "dir_map u dir = dir_map s dir" if "r \<noteq> Ret ()"
  proof -
    have "k = 0 \<or> k = 1 \<or> k = 2" using add(5) that by auto
    then show ?thesis using add(6) assms(4) m(2) [OF assms(4)] ino(3) by (auto simp: numeral_2_eq_2 es_def)
  qed
  with mkdir_adds_fail [OF assms(1-4,6,9) add(1) [unfolded es_def] _ assms(7) ino(1,2) d assms(5,8)]
  show ?thesis using that [OF add(1) [unfolded es_def] add(3,2)] oth good by blast
qed

text \<open>
  C12: \<open>xv6fs_mkdir\<close> on a consistent volume returns and keeps it consistent.  On
  success the parent has one more entry, for a directory that contains exactly
  \<open>.\<close> and \<open>..\<close>, pointing to itself and to the parent, and that has two links;
  the parent's link count is one larger.  When there is no inode, or any of the
  three insertions fails, the parent has the same entries, size and link count,
  every other cached inode is as before, the new inode is gone and free again,
  and no block is taken, freed or written but for an indirect block the
  parent may have got (\<open>only_indirect\<close>).  No other directory changes.
\<close>

theorem mkdir_correct:
  assumes "kernel_bitops K" "io_ok K" "vol_ok s" "dir_inv K dir s" "0 < dir"
    and "length name \<le> XV6FS_DIRSIZ" "0 \<notin> set name" "dir_map s dir name = None"
  shows "\<exists>r s'. xv6fs_mkdir K dir name mode s = Some (r, s') \<and> vol_ok s' \<and> dir_inv K dir s' \<and>
    (\<forall>d. d \<noteq> dir \<longrightarrow> dir_inv K d s \<longrightarrow> dir_inv K d s' \<and> dir_map s' d = dir_map s d) \<and>
    (case r of
       Ret ino \<Rightarrow> free_inodes_list s = ino # free_inodes_list s' \<and> dir_inv K ino s' \<and>
         dir_map s' ino = [[46] \<mapsto> of_nat ino, [46, 46] \<mapsto> of_nat dir] \<and>
         dir_map s' dir = (dir_map s dir)(name \<mapsto> of_nat ino) \<and>
         i_nlink (xv6fs_i s' dir) = i_nlink (xv6fs_i s dir) + 1
     | Err e \<Rightarrow> e \<in> {ENOSPC, ENOMEM, EIO, EFBIG} \<and> dir_map s' dir = dir_map s dir \<and>
         only_indirect dir s s' \<and> (\<forall>j. j \<noteq> dir \<longrightarrow> icache s' j = icache s j) \<and>
         set (free_inodes_list s') = set (free_inodes_list s)
     | Oops \<Rightarrow> False)"
proof -
  obtain x s1 where new: "xv6fs_new_inode K (S_IFDIR OR mode) s = (x, s1)" by fastforce
  show ?thesis
  proof (cases x)
    case (Inl e)
    then have "xv6fs_mkdir K dir name mode s = Some (Err e, s)" "e \<in> {ENOSPC, ENOMEM}"
      using new_inode_Inl [of K "S_IFDIR OR mode" s e s1] new by (auto simp: xv6fs_mkdir_def)
    moreover have "only_indirect dir s s" using assms(4) by (intro only_indirect_refl) (simp_all add: dir_inv_def)
    ultimately show ?thesis using assms(3,4) by (intro exI [of _ "Err e"] exI [of _ s]) auto
  next
    case (Inr ino)
    obtain r u where add: "add_entries K [(ino, [46], ino), (ino, [46, 46], dir), (dir, name, ino)] s1 = Some (r, u)"
      "r \<in> {Ret (), Err ENOSPC, Err EIO, Err EFBIG}" "making K ino s u"
      "\<forall>d. d \<noteq> dir \<longrightarrow> dir_inv K d s \<longrightarrow> dir_map u d = dir_map s d"
      "r = Ret () \<longrightarrow> dir_map u ino = [[46] \<mapsto> of_nat ino, [46, 46] \<mapsto> of_nat dir] \<and>
         dir_map u dir = (dir_map s dir)(name \<mapsto> of_nat ino)"
      "r \<noteq> Ret () \<longrightarrow> dir_map u dir = dir_map s dir \<and> only_indirect dir s (discard_inode K ino u) \<and>
         (\<forall>j. j \<noteq> dir \<longrightarrow> icache (discard_inode K ino u) j = icache s j)"
      by (rule mkdir_adds [OF assms new [unfolded Inr]])
    note call = xv6fs_mkdir_def [of K dir name mode s, unfolded new Inr prod.case sum.case add(1)]
    have inv: "dir_inv K d u" "i_nlink (xv6fs_i u d) = i_nlink (xv6fs_i s d)" if "dir_inv K d s" for d
      using add(3) that by (auto simp: making_def)
    show ?thesis
    proof (cases "r = Ret ()")
      case True
      let ?w = "inode_inc_link_count dir u"
      have "free_inodes_list s = ino # free_inodes_list u" "dir_inv K ino u" using add(3) by (simp_all add: making_def)
      moreover have "vol_ok ?w"
        using vol_link_count [of u dir] add(3) inv(1) [OF assms(4)]
        by (simp add: making_def inode_inc_link_count_def dir_inv_def imap_ok_def)
      ultimately show ?thesis using call True add(4,5) inv assms(4)
        by (intro exI [of _ "Ret ino"] exI [of _ ?w]) (simp add: link_count_simps)
    next
      case False
      then obtain e where e: "r = Err e" "e \<in> {ENOSPC, EIO, EFBIG}" using add(2) by auto
      then show ?thesis using call making_discard [OF assms(1,2) add(3)] add(4,6) assms(4)
        by (intro exI [of _ "Err e"] exI [of _ "discard_inode K ino u"]) auto
    qed
  qed
qed

theorem mkdir_correct_witness:
  "\<exists>r s'. xv6fs_mkdir ref_kernel 1 [97] 0x1ED demo_fs = Some (r, s') \<and> vol_ok s' \<and> dir_inv ref_kernel 1 s' \<and>
    (case r of
       Ret ino \<Rightarrow> free_inodes_list demo_fs = ino # free_inodes_list s' \<and>
         dir_map s' ino = [[46] \<mapsto> of_nat ino, [46, 46] \<mapsto> 1] \<and> dir_map s' 1 = [[97] \<mapsto> of_nat ino]
     | Err e \<Rightarrow> dir_map s' 1 = Map.empty \<and> only_indirect 1 demo_fs s'
     | Oops \<Rightarrow> False)"
proof -
  obtain r s' where "xv6fs_mkdir ref_kernel 1 [97] 0x1ED demo_fs = Some (r, s')" "vol_ok s'" "dir_inv ref_kernel 1 s'"
    "case r of
       Ret ino \<Rightarrow> free_inodes_list demo_fs = ino # free_inodes_list s' \<and> dir_inv ref_kernel ino s' \<and>
         dir_map s' ino = [[46] \<mapsto> of_nat ino, [46, 46] \<mapsto> of_nat 1] \<and>
         dir_map s' 1 = (dir_map demo_fs 1)([97] \<mapsto> of_nat ino) \<and>
         i_nlink (xv6fs_i s' 1) = i_nlink (xv6fs_i demo_fs 1) + 1
     | Err e \<Rightarrow> e \<in> {ENOSPC, ENOMEM, EIO, EFBIG} \<and> dir_map s' 1 = dir_map demo_fs 1 \<and>
         only_indirect 1 demo_fs s' \<and> (\<forall>j. j \<noteq> 1 \<longrightarrow> icache s' j = icache demo_fs j) \<and>
         set (free_inodes_list s') = set (free_inodes_list demo_fs)
     | Oops \<Rightarrow> False"
    using mkdir_correct [OF ref_kernel_bitops ref_io_ok demo_vol_ok demo_dir_inv, of "[97]" "0x1ED"]
    unfolding demo_dir_map by auto
  then show ?thesis
    by (intro exI [of _ r] exI [of _ s'] conjI) (cases r; simp add: demo_dir_map [unfolded One_nat_def])+
qed

end
