(* ===== verification/Xv6fs_Sync.thy ===== *)
theory Xv6fs_Sync
  imports Xv6fs_Create
begin

text \<open>
  The inode table and the device.  The driver keeps a copy of every inode slot
  in memory; \<open>synced\<close> says that the copy is what the inode blocks hold, up to
  the contents of free slots, and that the superblock in use is the one in
  block 1 and carries the magic number.  Operations that leave the blocks before the bitmap alone keep it,
  and so do the two that write a slot, because they change both copies.
\<close>

definition slot_synced :: "xv6fs_dinode \<Rightarrow> xv6fs_dinode \<Rightarrow> bool" where
  "slot_synced on_disk d \<longleftrightarrow> (if d_type d = 0 then d_type on_disk = 0 else on_disk = d)"

definition synced :: "fs \<Rightarrow> bool" where
  "synced s \<longleftrightarrow>
     xv6fs_sb_to_cpu (disk s 1) = raw_sb s \<and> sb_magic (raw_sb s) = XV6FS_MAGIC \<and>
     (\<forall>i < length (dinodes s). slot_synced (disk_dinode s i) (dinodes s ! i))"

lemma IBLOCK_meta:
  "layout_ok sb \<Longrightarrow> i < unat (sb_ninodes sb) \<Longrightarrow> 1 < XV6FS_IBLOCK i sb \<and> XV6FS_IBLOCK i sb < unat (sb_bmapstart sb)"
  using div_le_mono [of i "unat (sb_ninodes sb)" 8] by (simp add: XV6FS_IBLOCK_def layout_ok_def)

lemma synced_meta:
  assumes "synced s" "meta_same s t" "raw_sb t = raw_sb s" "dinodes t = dinodes s"
    and "layout_ok (raw_sb s)" "length (dinodes s) = unat (sb_ninodes (raw_sb s))"
  shows "synced t"
proof -
  have "disk t 1 = disk s 1" using assms(2,5) by (simp add: meta_same_def layout_ok_def)
  moreover have "disk_dinode t i = disk_dinode s i" if "i < length (dinodes s)" for i
    using IBLOCK_meta [OF assms(5), of i] assms(2,6) that by (simp add: disk_dinode_def assms(3) meta_same_def)
  ultimately show ?thesis using assms(1) by (simp add: synced_def assms(3,4))
qed

text \<open>Writing slot \<open>i\<close>, to the table and to its block.\<close>

lemma synced_put:
  assumes "synced s" "i < unat (sb_ninodes (raw_sb s))" "wf_dinode di" "bmap_inv s"
    and "length (dinodes s) = unat (sb_ninodes (raw_sb s))"
    and "raw_sb t = raw_sb s" "dinodes t = (dinodes s)[i := di]"
    and "disk t = (disk s)(XV6FS_IBLOCK i (raw_sb s) :=
      put_dinode (XV6FS_IOFFSET i) di (disk s (XV6FS_IBLOCK i (raw_sb s))))"
  shows "synced t"
proof -
  have lay: "layout_ok (raw_sb s)" and l: "length (disk s b) = 512" for b
    using assms(4) by (simp_all add: bmap_inv_def blocks_512_def)
  have o: "XV6FS_IOFFSET j < 8" for j by (simp add: XV6FS_IOFFSET_def)
  have "disk t 1 = disk s 1" using IBLOCK_meta [OF lay assms(2)] by (simp add: assms(8))
  moreover have "disk_dinode t j = (if j = i then di else disk_dinode s j)" for j
  proof (cases "j = i")
    case True
    then show ?thesis using dinode_at_put_same [OF o l assms(3)] by (simp add: disk_dinode_def assms(6,8))
  next
    case False
    have "XV6FS_IOFFSET i \<noteq> XV6FS_IOFFSET j" if "XV6FS_IBLOCK j (raw_sb s) = XV6FS_IBLOCK i (raw_sb s)"
      using IBLOCK_IOFFSET_inj [of i "raw_sb s" j] that False by auto
    then show ?thesis
      using dinode_at_put_other [OF _ o o l assms(3)] False by (simp add: disk_dinode_def assms(6,8))
  qed
  ultimately show ?thesis using assms(1,2,5) by (auto simp: synced_def assms(6,7) slot_synced_def nth_list_update)
qed

text \<open>Dropping an inode without links.\<close>

lemma synced_iput:
  assumes "kernel_bitops K" "io_ok K" "bmap_inv s" "imap_ok s i" "i < unat (sb_ninodes (raw_sb s))"
    and "i_nlink (xv6fs_i s i) = 0" "0 < i" "length (dinodes s) = unat (sb_ninodes (raw_sb s))" "synced s"
  shows "synced (iput_last K i s)"
proof -
  let ?u = "evict_trunc K i s"
  define t where "t = set_inode i ((xv6fs_i s i)\<lparr>i_size := 0\<rparr>) s"
  have ad: "i_addrs ((xv6fs_i s i)\<lparr>i_size := 0\<rparr>) = i_addrs (xv6fs_i s i)" by simp
  have "trunc_pre K s i" using assms by (simp add: trunc_pre_def bitmap_readable_def io_ok_def)
  then have pt: "trunc_pre K t i" unfolding t_def by (rule inode_views_set_inode(7) [OF ad])
  then have it: "imap_ok t i" "bmap_inv t" by (simp_all add: trunc_pre_def)
  have tr: "trunc_rel t i ?u" using truncate_blocks_rel [OF pt, of 0] assms(2) by (simp add: t_def io_ok_def)
  have st: "same_tables i s ?u" by (rule evict_trunc_tables)
  then have raw: "raw_sb ?u = raw_sb s" "dinodes ?u = dinodes s" by (simp_all add: same_tables_def)
  have "meta_same t ?u" by (rule meta_same_trunc [OF it tr])
  then have "meta_same s ?u" by (simp add: t_def meta_same_def set_inode_def)
  then have su: "synced ?u"
    using bmap_inv_layout [OF assms(3)] by (intro synced_meta [OF assms(9) _ raw _ assms(8)])
  have bu: "bmap_inv ?u" using tr by (simp add: trunc_rel_def)
  note e = evict_unlinked [where K = K, OF assms(6,7)] and z = zero_slot_on_disk_frame [where K = K and ino = i and s = ?u]
  have ok: "inode_block_ok K ?u i" using assms(2) by (simp add: inode_block_ok_def io_ok_def)
  have "disk (zero_slot_on_disk K i ?u) = (disk ?u)(XV6FS_IBLOCK i (raw_sb ?u) :=
      put_dinode (XV6FS_IOFFSET i) zero_dinode (disk ?u (XV6FS_IBLOCK i (raw_sb ?u))))"
    using z(7) z(8) [OF ok] by (auto simp: fun_eq_iff)
  moreover have "disk (iput_last K i s) = disk (zero_slot_on_disk K i ?u)"
    "raw_sb (iput_last K i s) = raw_sb ?u" "dinodes (iput_last K i s) = (dinodes ?u)[i := zero_dinode]"
    using e(3,4,7) raw by (simp_all add: iput_last_def Let_def)
  ultimately show ?thesis
    using assms(5,8) raw by (intro synced_put [OF su _ _ bu]) simp_all
qed

end
