(* ===== verification/Xv6fs_Tree.thy ===== *)
theory Xv6fs_Tree
  imports Xv6fs_Layout
begin

text \<open>
  The name space of a volume without its blocks: which inodes exist, their
  type, their link counts, and the entries of the directories that still
  have a name.  This is the specification the operations of \<^verbatim>\<open>src/dir.c\<close>
  are compared with.  The invariant \<open>tree_inv\<close> says that every link count is
  the number of entries that name the inode, that every directory has its
  \<open>.\<close> and \<open>..\<close>, that a directory is named once, in the directory its
  \<open>..\<close> names, and nothing names the root.  Each operation keeps it.
\<close>

section \<open>Name spaces\<close>

abbreviation dot :: "byte list" where "dot \<equiv> [46]"
abbreviation dotdot :: "byte list" where "dotdot \<equiv> [46, 46]"
abbreviation (input) dots :: "byte list set" where "dots \<equiv> {dot, dotdot}"

record tree =
  kinds :: "nat \<rightharpoonup> u16"
  links :: "nat \<Rightarrow> nat"
  ents :: "nat \<Rightarrow> byte list \<rightharpoonup> nat"

text \<open>The entries that name an inode, and all entries.\<close>

definition refs :: "tree \<Rightarrow> nat \<Rightarrow> (nat \<times> byte list) set" where
  "refs A i = {(d, n). ents A d n = Some i}"

definition edges :: "tree \<Rightarrow> (nat \<times> byte list) set" where
  "edges A = {(d, n). ents A d n \<noteq> None}"

definition dir_wf :: "tree \<Rightarrow> nat \<Rightarrow> bool" where
  "dir_wf A d \<longleftrightarrow>
     kinds A d = Some XV6FS_T_DIR \<and> ents A d dot = Some d \<and>
     (\<exists>p. ents A d dotdot = Some p \<and>
        (if d = XV6FS_ROOTINO then p = XV6FS_ROOTINO else \<exists>n. n \<notin> dots \<and> ents A p n = Some d))"

definition tree_inv :: "tree \<Rightarrow> bool" where
  "tree_inv A \<longleftrightarrow>
     finite (edges A) \<and>
     (\<forall>i. links A i = card (refs A i)) \<and>
     (\<forall>i. kinds A i = None \<longrightarrow> links A i = 0) \<and>
     (\<forall>d. ents A d \<noteq> Map.empty \<longrightarrow> dir_wf A d) \<and>
     (\<forall>d. kinds A d = Some XV6FS_T_DIR \<and> links A d \<noteq> 0 \<longrightarrow> ents A d \<noteq> Map.empty) \<and>
     (\<forall>i d n d' n'. kinds A i = Some XV6FS_T_DIR \<and> n \<notin> dots \<and> n' \<notin> dots \<and>
        ents A d n = Some i \<and> ents A d' n' = Some i \<longrightarrow> d = d' \<and> n = n') \<and>
     kinds A XV6FS_ROOTINO = Some XV6FS_T_DIR \<and> ents A XV6FS_ROOTINO \<noteq> Map.empty \<and>
     (\<forall>d n. n \<notin> dots \<longrightarrow> ents A d n \<noteq> Some XV6FS_ROOTINO)"

section \<open>Operations\<close>

definition tree_create :: "nat \<Rightarrow> byte list \<Rightarrow> nat \<Rightarrow> u16 \<Rightarrow> tree \<Rightarrow> tree" where
  "tree_create d n i k A =
     A\<lparr>kinds := (kinds A)(i \<mapsto> k), links := (links A)(i := 1),
       ents := (ents A)(d := (ents A d)(n \<mapsto> i))\<rparr>"

definition tree_mkdir :: "nat \<Rightarrow> byte list \<Rightarrow> nat \<Rightarrow> tree \<Rightarrow> tree" where
  "tree_mkdir d n i A =
     A\<lparr>kinds := (kinds A)(i \<mapsto> XV6FS_T_DIR), links := (links A)(i := 2, d := links A d + 1),
       ents := (ents A)(i := [dot \<mapsto> i, dotdot \<mapsto> d], d := (ents A d)(n \<mapsto> i))\<rparr>"

definition tree_link :: "nat \<Rightarrow> byte list \<Rightarrow> nat \<Rightarrow> tree \<Rightarrow> tree" where
  "tree_link d n i A =
     A\<lparr>links := (links A)(i := links A i + 1), ents := (ents A)(d := (ents A d)(n \<mapsto> i))\<rparr>"

definition tree_unlink :: "nat \<Rightarrow> byte list \<Rightarrow> nat \<Rightarrow> tree \<Rightarrow> tree" where
  "tree_unlink d n i A =
     A\<lparr>links := (links A)(i := links A i - 1), ents := (ents A)(d := (ents A d)(n := None))\<rparr>"

definition tree_rmdir :: "nat \<Rightarrow> byte list \<Rightarrow> nat \<Rightarrow> tree \<Rightarrow> tree" where
  "tree_rmdir d n i A =
     A\<lparr>links := (links A)(i := 0, d := links A d - 1),
       ents := (ents A)(i := Map.empty, d := (ents A d)(n := None))\<rparr>"

definition tree_forget :: "nat \<Rightarrow> tree \<Rightarrow> tree" where
  "tree_forget i A = A\<lparr>kinds := (kinds A)(i := None)\<rparr>"

section \<open>Counting entries\<close>

lemma tree_invD:
  assumes "tree_inv A"
  shows "finite (edges A)" "links A i = card (refs A i)" "kinds A i = None \<Longrightarrow> links A i = 0"
    "ents A d \<noteq> Map.empty \<Longrightarrow> dir_wf A d"
    "kinds A d = Some 1 \<Longrightarrow> links A d \<noteq> 0 \<Longrightarrow> ents A d \<noteq> Map.empty"
    "kinds A i = Some 1 \<Longrightarrow> n \<notin> dots \<Longrightarrow> n' \<notin> dots \<Longrightarrow> ents A d n = Some i \<Longrightarrow>
     ents A d' n' = Some i \<Longrightarrow> d = d' \<and> n = n'"
    "kinds A 1 = Some 1" "ents A 1 \<noteq> Map.empty" "n \<notin> dots \<Longrightarrow> ents A d n \<noteq> Some 1"
proof -
  note c1 = assms [unfolded tree_inv_def] note c2 = conjunct2 [OF c1] note c3 = conjunct2 [OF c2]
  note c4 = conjunct2 [OF c3] note c5 = conjunct2 [OF c4] note c6 = conjunct2 [OF c5]
  note c7 = conjunct2 [OF c6] note c8 = conjunct2 [OF c7] note c9 = conjunct2 [OF c8]
  show "finite (edges A)" "links A i = card (refs A i)" "kinds A i = None \<Longrightarrow> links A i = 0"
    "ents A d \<noteq> Map.empty \<Longrightarrow> dir_wf A d" "kinds A 1 = Some 1" "ents A 1 \<noteq> Map.empty"
    using conjunct1 [OF c1] conjunct1 [OF c2] conjunct1 [OF c3] conjunct1 [OF c4] conjunct1 [OF c7]
      conjunct1 [OF c8] by simp_all
  show "kinds A d = Some 1 \<Longrightarrow> links A d \<noteq> 0 \<Longrightarrow> ents A d \<noteq> Map.empty"
    using conjunct1 [OF c5] by simp
  show "kinds A i = Some 1 \<Longrightarrow> n \<notin> dots \<Longrightarrow> n' \<notin> dots \<Longrightarrow> ents A d n = Some i \<Longrightarrow>
     ents A d' n' = Some i \<Longrightarrow> d = d' \<and> n = n'"
    by (rule conjunct1 [OF c6, rule_format]) simp
  show "n \<notin> dots \<Longrightarrow> ents A d n \<noteq> Some 1" by (rule c9 [rule_format])
qed

lemma map_ne_iff: "m \<noteq> Map.empty \<longleftrightarrow> (\<exists>n v. m n = Some v)"
  by (auto simp: fun_eq_iff)

lemma refs_subset: "refs A i \<subseteq> edges A"
  by (auto simp: refs_def edges_def)

lemma finite_refs: "tree_inv A \<Longrightarrow> finite (refs A i)"
  by (rule finite_subset [OF refs_subset tree_invD(1)])

lemma links_0: "tree_inv A \<Longrightarrow> links A i = 0 \<longleftrightarrow> refs A i = {}"
  using finite_refs by (simp add: tree_invD(2))

text \<open>Every entry names an inode that exists.\<close>

lemma entry_exists:
  assumes "tree_inv A" "ents A d n = Some i"
  shows "kinds A i \<noteq> None" "links A i \<noteq> 0" "dir_wf A d" "kinds A d = Some 1" "ents A d dot = Some d"
proof -
  show "links A i \<noteq> 0" using links_0 [OF assms(1), of i] assms(2) by (auto simp: refs_def)
  then show "kinds A i \<noteq> None" using tree_invD(3) [OF assms(1), of i] by auto
  show wf: "dir_wf A d" by (rule tree_invD(4) [OF assms(1)]) (use assms(2) in auto)
  then show "kinds A d = Some 1" "ents A d dot = Some d" by (simp_all add: dir_wf_def)
qed

lemma unused_dir: "tree_inv A \<Longrightarrow> kinds A i = None \<Longrightarrow> ents A i = Map.empty"
  using entry_exists(4) by fastforce

lemma unused_target: "tree_inv A \<Longrightarrow> kinds A i = None \<Longrightarrow> ents A d n \<noteq> Some i"
  using entry_exists(1) by blast

text \<open>How one update of a directory changes the entries that name an inode.\<close>

lemma refs_insert:
  "e d n = None \<Longrightarrow> {(d', n'). (e(d := (e d)(n \<mapsto> i))) d' n' = Some j} =
     (if j = i then insert (d, n) {(d', n'). e d' n' = Some j} else {(d', n'). e d' n' = Some j})"
  by (auto split: if_splits)

lemma refs_delete:
  "e d n = Some i \<Longrightarrow> {(d', n'). (e(d := (e d)(n := None))) d' n' = Some j} =
     (if j = i then {(d', n'). e d' n' = Some j} - {(d, n)} else {(d', n'). e d' n' = Some j})"
  by (auto split: if_splits)

section \<open>The operations keep the invariant\<close>

text \<open>A step that neither drops an entry nor changes a type keeps directories well formed.\<close>

lemma dir_wf_mono:
  assumes "dir_wf A d" "\<And>d n i. ents A d n = Some i \<Longrightarrow> ents B d n = Some i"
    and "kinds B d = kinds A d"
  shows "dir_wf B d"
proof -
  obtain p where p: "ents A d dot = Some d" "ents A d dotdot = Some p"
    "if d = 1 then p = 1 else \<exists>n. n \<notin> dots \<and> ents A p n = Some d"
    using assms(1) by (auto simp: dir_wf_def)
  have "if d = 1 then p = 1 else \<exists>n. n \<notin> dots \<and> ents B p n = Some d"
    using p(3) assms(2) by metis
  then show ?thesis using p(1,2) assms by (auto simp: dir_wf_def)
qed

lemma card_refs_insert:
  assumes "tree_inv A" "ents A d n = None" "ents B = (ents A)(d := (ents A d)(n \<mapsto> i))"
  shows "card (refs B j) = (if j = i then links A i + 1 else links A j)"
proof -
  have "refs B j = (if j = i then insert (d, n) (refs A j) else refs A j)"
    unfolding refs_def assms(3) by (rule refs_insert [of "ents A" d n, OF assms(2)])
  moreover have "(d, n) \<notin> refs A i" using assms(2) by (simp add: refs_def)
  ultimately show ?thesis using finite_refs [OF assms(1)] by (simp add: tree_invD(2) [OF assms(1)])
qed

lemma finite_edges_insert:
  "finite (edges A) \<Longrightarrow> ents B = (ents A)(d := (ents A d)(n \<mapsto> i)) \<Longrightarrow> finite (edges B)"
  by (rule finite_subset [of _ "insert (d, n) (edges A)"]) (auto simp: edges_def split: if_splits)

text \<open>
  The part of the invariant that only needs that entries are added, and that
  names other than \<open>.\<close> and \<open>..\<close> are added for inode \<open>i\<close> alone.
\<close>

lemma tree_inv_grow:
  assumes "tree_inv A" "i \<noteq> 1" and mono: "\<And>d n j. ents A d n = Some j \<Longrightarrow> ents B d n = Some j"
    and fin: "finite (edges B)" and cnt: "\<And>j. links B j = card (refs B j)"
    and old: "\<And>d n j. ents B d n = Some j \<Longrightarrow> j \<noteq> i \<Longrightarrow> n \<notin> dots \<Longrightarrow> ents A d n = Some j"
    and uniq: "\<And>d n d' n'. kinds B i = Some 1 \<Longrightarrow> n \<notin> dots \<Longrightarrow> n' \<notin> dots \<Longrightarrow> ents B d n = Some i \<Longrightarrow>
      ents B d' n' = Some i \<Longrightarrow> d = d' \<and> n = n'"
    and knd: "\<And>j. j \<noteq> i \<Longrightarrow> kinds B j = kinds A j" "kinds B i \<noteq> None"
    and dirs: "\<And>d. d \<noteq> i \<Longrightarrow> ents B d \<noteq> Map.empty \<Longrightarrow> ents A d \<noteq> Map.empty"
      "ents B i \<noteq> Map.empty \<Longrightarrow> dir_wf B i" "kinds B i = Some 1 \<Longrightarrow> ents B i \<noteq> Map.empty"
    and lnk: "\<And>j. j \<noteq> i \<Longrightarrow> ents A j = Map.empty \<Longrightarrow> links B j = links A j"
  shows "tree_inv B"
proof -
  note a = tree_invD [OF assms(1)]
  have ne: "ents B d \<noteq> Map.empty" if "ents A d \<noteq> Map.empty" for d
    using that mono unfolding map_ne_iff by blast
  show ?thesis unfolding tree_inv_def
  proof (intro conjI allI impI)
    show "links B j = 0" if "kinds B j = None" for j
    proof -
      have "j \<noteq> i" using that knd(2) by auto
      then have "kinds A j = None" using that knd(1) by simp
      then show ?thesis using lnk [OF \<open>j \<noteq> i\<close>] unused_dir [OF assms(1)] a(3) by simp
    qed
    show "dir_wf B d" if "ents B d \<noteq> Map.empty" for d
    proof (cases "d = i")
      case False
      then show ?thesis using a(4) [OF dirs(1) [OF False that]] knd(1) by (intro dir_wf_mono [OF _ mono]) simp_all
    qed (use dirs(2) that in simp)
    show "ents B d \<noteq> Map.empty" if "kinds B d = Some 1 \<and> links B d \<noteq> 0" for d
    proof (cases "d = i \<or> ents A d \<noteq> Map.empty")
      case False
      then show ?thesis using a(5) [of d] lnk [of d] knd(1) [of d] that by simp
    qed (use dirs(3) ne that in auto)
    show "kinds B 1 = Some 1" using a(7) knd(1) assms(2) by simp
    show "ents B 1 \<noteq> Map.empty" by (rule ne [OF a(8)])
    show "ents B d n \<noteq> Some 1" if "n \<notin> dots" for d n
      using old [of d n 1] a(9) [OF that, of d] assms(2) that by auto
    fix j d n d' n'
    assume h: "kinds B j = Some 1 \<and> n \<notin> dots \<and> n' \<notin> dots \<and> ents B d n = Some j \<and> ents B d' n' = Some j"
    have "d = d' \<and> n = n'"
    proof (cases "j = i")
      case False
      then show ?thesis using h a(6) [of j n n' d d'] old knd(1) by simp
    qed (use h uniq in blast)
    then show "d = d'" "n = n'" by simp_all
  qed (use fin cnt in simp_all)
qed

text \<open>
  One new name, outside \<open>.\<close> and \<open>..\<close>, for an inode that is not a directory:
  a new one or one that exists.
\<close>

lemma insert_file:
  assumes "tree_inv A" "ents A d \<noteq> Map.empty" "ents A d n = None" "n \<notin> dots" "k \<noteq> 1"
    and "kinds A i = None \<or> kinds A i = Some k"
    and "B = A\<lparr>kinds := (kinds A)(i \<mapsto> k), links := (links A)(i := links A i + 1),
               ents := (ents A)(d := (ents A d)(n \<mapsto> i))\<rparr>"
  shows "tree_inv B"
proof -
  note a = tree_invD [OF assms(1)]
  have e: "ents B = (ents A)(d := (ents A d)(n \<mapsto> i))" using assms(7) by simp
  have "kinds A i \<noteq> Some 1" using assms(5,6) by auto
  then have ei: "ents A i = Map.empty" using a(4) [of i] unfolding dir_wf_def by blast
  then have di: "d \<noteq> i" using assms(2) by auto
  show ?thesis
  proof (rule tree_inv_grow [OF assms(1), of i])
    show "i \<noteq> 1" using assms(5,6) a(7) by auto
    show "finite (edges B)" by (rule finite_edges_insert [OF a(1) e])
    show "links B j = card (refs B j)" for j
      unfolding card_refs_insert [OF assms(1,3) e] using assms(7) by simp
    show "ents A d' \<noteq> Map.empty" if "d' \<noteq> i" "ents B d' \<noteq> Map.empty" for d'
      using that assms(2) e by (cases "d' = d") simp_all
    show "ents B i \<noteq> Map.empty \<Longrightarrow> dir_wf B i" using ei di e by simp
  qed (use assms(3,5,7) e in \<open>auto split: if_splits\<close>)
qed

lemma tree_create_inv:
  assumes "tree_inv A" "ents A d \<noteq> Map.empty" "ents A d n = None" "n \<notin> dots" "kinds A i = None" "k \<noteq> 1"
  shows "tree_inv (tree_create d n i k A)"
  by (rule insert_file [OF assms(1-4,6), of i])
     (use tree_invD(3) [OF assms(1,5)] assms(5) in \<open>simp_all add: tree_create_def\<close>)

lemma tree_link_inv:
  assumes "tree_inv A" "ents A d \<noteq> Map.empty" "ents A d n = None" "n \<notin> dots" "kinds A i = Some k" "k \<noteq> 1"
  shows "tree_inv (tree_link d n i A)"
proof -
  have "(kinds A)(i \<mapsto> k) = kinds A" using assms(5) by auto
  then show ?thesis by (intro insert_file [OF assms(1-4,6), of i]) (simp_all add: tree_link_def assms(5))
qed

lemma tree_mkdir_inv:
  assumes "tree_inv A" "ents A d \<noteq> Map.empty" "ents A d n = None" "n \<notin> dots" "kinds A i = None"
  shows "tree_inv (tree_mkdir d n i A)"
proof -
  define B where "B = tree_mkdir d n i A"
  note a = tree_invD [OF assms(1)]
  have ei: "ents A i = Map.empty" and ti: "\<And>d n. ents A d n \<noteq> Some i"
    using unused_dir [OF assms(1,5)] unused_target [OF assms(1,5)] by auto
  have di: "d \<noteq> i" using assms(2) ei by auto
  have i1: "i \<noteq> 1" using a(7) assms(5) by auto
  have e: "ents B d' n' = (if d' = i then [dot \<mapsto> i, dotdot \<mapsto> d] n' else if d' = d \<and> n' = n then Some i
      else ents A d' n')" for d' n' using di by (simp add: B_def tree_mkdir_def)
  have k: "kinds B = (kinds A)(i \<mapsto> 1)" "links B = (links A)(i := 2, d := links A d + 1)"
    by (simp_all add: B_def tree_mkdir_def)
  have r: "refs B j = (if j = i then {(i, dot), (d, n)}
      else if j = d then insert (i, dotdot) (refs A d) else refs A j)" for j
    using ti di ei assms(3) by (auto simp: refs_def e)
  have "(i, dotdot) \<notin> refs A d" using ei by (simp add: refs_def)
  then have c: "links B j = card (refs B j)" for j
    using di finite_refs [OF assms(1)] by (simp add: r k a(2))
  have "edges B \<subseteq> insert (d, n) ({(i, dot), (i, dotdot)} \<union> edges A)"
    by (auto simp: edges_def e split: if_splits)
  then have fin: "finite (edges B)" using a(1) by (simp add: finite_subset)
  have bi: "ents B i dot = Some i" "ents B i dotdot = Some d" "ents B d n = Some i" using di by (simp_all add: e)
  have "tree_inv B"
  proof (rule tree_inv_grow [OF assms(1) i1 _ fin c])
    show "ents A d' \<noteq> Map.empty" if "d' \<noteq> i" "ents B d' \<noteq> Map.empty" for d'
      using that assms(2) unfolding map_ne_iff e by (cases "d' = d") auto
    show "dir_wf B i" using bi assms(4) i1 k by (auto simp: dir_wf_def)
    show "ents B i \<noteq> Map.empty" using bi(1) unfolding map_ne_iff by blast
    show "d1 = d2 \<and> n1 = n2" if "n1 \<notin> dots" "n2 \<notin> dots" "ents B d1 n1 = Some i" "ents B d2 n2 = Some i" for d1 d2 n1 n2
      using that ti by (auto simp: e split: if_splits)
    show "links B j = links A j" if "j \<noteq> i" "ents A j = Map.empty" for j
      using that assms(2) k(2) by auto
  qed (use ei assms(3) k(1) in \<open>auto simp: e split: if_splits\<close>)
  then show ?thesis by (simp add: B_def)
qed

section \<open>Removal\<close>

text \<open>A step that drops names other than \<open>.\<close>, \<open>..\<close> and that of the directory itself keeps it well formed.\<close>

lemma dir_wf_drop:
  assumes "dir_wf A d" "ents B d dot = ents A d dot" "ents B d dotdot = ents A d dotdot"
    and "\<And>p n. ents A p n = Some d \<Longrightarrow> n \<notin> dots \<Longrightarrow> ents B p n = Some d" "kinds B d = kinds A d"
  shows "dir_wf B d"
proof -
  obtain p where p: "ents A d dot = Some d" "ents A d dotdot = Some p"
    "if d = 1 then p = 1 else \<exists>n. n \<notin> dots \<and> ents A p n = Some d"
    using assms(1) by (auto simp: dir_wf_def)
  have "if d = 1 then p = 1 else \<exists>n. n \<notin> dots \<and> ents B p n = Some d"
    using p(3) assms(4) by metis
  then show ?thesis using p(1,2) assms by (auto simp: dir_wf_def)
qed

text \<open>
  The part of the invariant that only needs that entries are dropped: what is
  left to show is which directories still have entries and the counts.
\<close>

lemma tree_inv_drop:
  assumes "tree_inv A" "\<And>d n i. ents B d n = Some i \<Longrightarrow> ents A d n = Some i"
    and "\<And>i. kinds B i = kinds A i \<or> kinds B i = None \<and> links A i = 0"
    and "\<And>i. links B i = card (refs B i)" "\<And>d. ents B d \<noteq> Map.empty \<Longrightarrow> dir_wf B d"
    and "\<And>d. kinds B d = Some 1 \<Longrightarrow> links B d \<noteq> 0 \<Longrightarrow> ents B d \<noteq> Map.empty" "ents B 1 \<noteq> Map.empty"
  shows "tree_inv B"
proof -
  note a = tree_invD [OF assms(1)]
  have sub: "edges B \<subseteq> edges A" using assms(2) by (force simp: edges_def)
  have none: "links B i = 0" if "kinds B i = None" for i
  proof -
    have "refs A i = {}" using links_0 [OF assms(1), of i] a(3) [of i] assms(3) [of i] that by auto
    then have "refs B i = {}" by (auto simp: refs_def dest: assms(2))
    then show ?thesis using assms(4) [of i] by simp
  qed
  have dir: "kinds A i = Some 1" if "kinds B i = Some 1" for i using that assms(3) [of i] by auto
  show ?thesis unfolding tree_inv_def
  proof (intro conjI allI impI)
    show "finite (edges B)" by (rule finite_subset [OF sub a(1)])
    show "kinds B 1 = Some 1" using assms(5) [OF assms(7)] by (simp add: dir_wf_def)
    show "ents B d n \<noteq> Some 1" if "n \<notin> dots" for d n using a(9) [OF that] assms(2) by blast
    fix i d n d' n'
    assume h: "kinds B i = Some 1 \<and> n \<notin> dots \<and> n' \<notin> dots \<and> ents B d n = Some i \<and> ents B d' n' = Some i"
    then have "d = d' \<and> n = n'" using a(6) [OF dir, of i n n' d d'] assms(2) by simp
    then show "d = d'" "n = n'" by simp_all
  qed (use assms none in simp_all)
qed

lemma tree_unlink_inv:
  assumes "tree_inv A" "ents A d n = Some i" "n \<notin> dots" "kinds A i \<noteq> Some 1"
  shows "tree_inv (tree_unlink d n i A)"
proof -
  define B where "B = tree_unlink d n i A"
  have e: "ents B = (ents A)(d := (ents A d)(n := None))" and k: "kinds B = kinds A"
    and l: "links B = (links A)(i := links A i - 1)" by (simp_all add: B_def tree_unlink_def)
  note a = tree_invD [OF assms(1)]
  have sub: "ents A d' n' = Some j" if "ents B d' n' = Some j" for d' n' j
    using that e by (auto split: if_splits)
  have dots: "ents B d' n' = ents A d' n'" if "n' \<in> dots" for d' n'
    using that assms(3) e by (auto split: if_splits)
  have "refs B j = (if j = i then refs A j - {(d, n)} else refs A j)" for j
    unfolding refs_def e by (rule refs_delete [of "ents A" d n, OF assms(2)])
  moreover have "(d, n) \<in> refs A i" using assms(2) by (simp add: refs_def)
  ultimately have c: "links B j = card (refs B j)" for j
    using finite_refs [OF assms(1)] by (simp add: l a(2))
  have ne: "ents B d' \<noteq> Map.empty" if "ents A d' \<noteq> Map.empty" for d'
    using a(4) [OF that] dots [of dot d'] unfolding map_ne_iff by (auto simp: dir_wf_def)
  have "tree_inv B"
  proof (rule tree_inv_drop [OF assms(1) sub _ c])
    fix d' assume "ents B d' \<noteq> Map.empty"
    then have "ents A d' \<noteq> Map.empty" using sub unfolding map_ne_iff by blast
    then have w: "dir_wf A d'" by (rule a(4))
    then have "kinds A d' = Some 1" by (simp add: dir_wf_def)
    then have "ents B p n' = Some d'" if "ents A p n' = Some d'" for p n'
      using that assms(2,4) e by auto
    then show "dir_wf B d'" using dots k by (intro dir_wf_drop [OF w]) simp_all
  next
    fix d' assume "kinds B d' = Some 1" "links B d' \<noteq> 0"
    then show "ents B d' \<noteq> Map.empty" using assms(4) l k by (intro ne a(5)) (auto split: if_splits)
  qed (assumption | rule ne [OF a(8)] | simp add: k)+
  then show ?thesis by (simp add: B_def)
qed

text \<open>
  An empty directory: the names of the removed directory are its entry in its
  parent and its own \<open>.\<close>.
\<close>

lemma empty_dir_refs:
  assumes "tree_inv A" "ents A d n = Some i" "n \<notin> dots" "kinds A i = Some 1" "dom (ents A i) \<subseteq> dots"
  shows "refs A i = {(d, n), (i, dot)}" "ents A i dotdot = Some d" "ents A i dot = Some i" "i \<noteq> 1"
proof -
  note a = tree_invD [OF assms(1)]
  show i1: "i \<noteq> 1" using a(9) [OF assms(3)] assms(2) by auto
  have "links A i \<noteq> 0" by (rule entry_exists(2) [OF assms(1,2)])
  then have w: "dir_wf A i" by (rule a(4) [OF a(5) [OF assms(4)]])
  then show dt: "ents A i dot = Some i" by (simp add: dir_wf_def)
  obtain p m where p: "ents A i dotdot = Some p" "m \<notin> dots" "ents A p m = Some i"
    using w i1 by (auto simp: dir_wf_def)
  then have "p = d" using a(6) [OF assms(4) p(2) assms(3) p(3) assms(2)] by simp
  then show "ents A i dotdot = Some d" using p(1) by simp
  have "(d', n') = (d, n) \<or> (d', n') = (i, dot)" if h: "ents A d' n' = Some i" for d' n'
  proof (cases "n' \<in> dots")
    case False
    then show ?thesis using a(6) [OF assms(4) False assms(3) h assms(2)] by simp
  next
    case True
    note w' = entry_exists(3) [OF assms(1) h]
    show ?thesis
    proof (cases "n' = dot")
      case True
      then show ?thesis using h w' by (simp add: dir_wf_def)
    next
      case False
      then have "n' = dotdot" using True by simp
      then obtain m' where "m' \<notin> dots" "ents A i m' = Some d'"
        using h w' i1 by (auto simp: dir_wf_def split: if_splits)
      then show ?thesis using assms(5) by blast
    qed
  qed
  then show "refs A i = {(d, n), (i, dot)}" using assms(2) dt by (auto simp: refs_def)
qed

lemma tree_rmdir_inv:
  assumes "tree_inv A" "ents A d n = Some i" "n \<notin> dots" "kinds A i = Some 1" "dom (ents A i) \<subseteq> dots" "d \<noteq> i"
  shows "tree_inv (tree_rmdir d n i A)" "links A i = 2" "2 \<le> links A d"
proof -
  note r = empty_dir_refs [OF assms(1-5)] and a = tree_invD [OF assms(1)]
  show "links A i = 2" using assms(6) by (simp add: a(2) r(1))
  have "{(d, dot), (i, dotdot)} \<subseteq> refs A d"
    using entry_exists(5) [OF assms(1,2)] r(2) by (simp add: refs_def)
  then have "card {(d, dot), (i, dotdot)} \<le> card (refs A d)" by (intro card_mono finite_refs [OF assms(1)])
  then show "2 \<le> links A d" by (simp add: a(2))
  define B where "B = tree_rmdir d n i A"
  have e: "ents B d' n' = (if d' = i then None else if d' = d \<and> n' = n then None else ents A d' n')" for d' n'
    using assms(6) by (simp add: B_def tree_rmdir_def)
  have k: "kinds B = kinds A" and l: "links B = (links A)(i := 0, d := links A d - 1)"
    by (simp_all add: B_def tree_rmdir_def)
  have sub: "ents A d' n' = Some j" if "ents B d' n' = Some j" for d' n' j
    using that e by (auto split: if_splits)
  have ei: "n' = dot \<and> j = i \<or> n' = dotdot \<and> j = d" if "ents A i n' = Some j" for n' j
  proof -
    have "n' \<in> dots" using that assms(5) by blast
    then show ?thesis using that r(2,3) by auto
  qed
  have "refs B j = (if j = i then {} else if j = d then refs A d - {(i, dotdot)} else refs A j)" for j
  proof -
    have "ents B d' n' = Some j \<longleftrightarrow> ents A d' n' = Some j \<and> (d', n') \<notin> {(d, n), (i, dot), (i, dotdot)}" for d' n'
      using ei [of n'] by (auto simp: e)
    then have "refs B j = refs A j - {(d, n), (i, dot), (i, dotdot)}" by (auto simp: refs_def)
    moreover have "(d, n) \<notin> refs A j" "(i, dot) \<notin> refs A j" if "j \<noteq> i" using that assms(2) r(3) by (auto simp: refs_def)
    moreover have "(i, dotdot) \<notin> refs A j" if "j \<noteq> d" using that r(2) by (auto simp: refs_def)
    ultimately show ?thesis using r(1) assms(6) by auto
  qed
  moreover have "(i, dotdot) \<in> refs A d" using r(2) by (simp add: refs_def)
  ultimately have c: "links B j = card (refs B j)" for j
    using finite_refs [OF assms(1)] assms(6) by (simp add: l a(2))
  have ne: "ents B d' \<noteq> Map.empty" if "ents A d' \<noteq> Map.empty" "d' \<noteq> i" for d'
  proof -
    have "ents B d' dot = Some d'" using a(4) [OF that(1)] that(2) assms(3) e by (auto simp: dir_wf_def)
    then show ?thesis unfolding map_ne_iff by blast
  qed
  have "tree_inv B"
  proof (rule tree_inv_drop [OF assms(1) sub _ c])
    fix d' assume h: "ents B d' \<noteq> Map.empty"
    then obtain n' j where nj: "ents B d' n' = Some j" unfolding map_ne_iff by blast
    have "ents A d' \<noteq> Map.empty" using sub [OF nj] unfolding map_ne_iff by blast
    moreover have "d' \<noteq> i" using nj e [of d' n'] by auto
    ultimately have d': "d' \<noteq> i" "ents A d' \<noteq> Map.empty" by simp_all
    have "ents B p n' = Some d'" if "ents A p n' = Some d'" "n' \<notin> dots" for p n'
    proof -
      have "p \<noteq> i" using ei [of n' d'] that by auto
      moreover have "(p, n') \<noteq> (d, n)" using that(1) assms(2) d'(1) by auto
      ultimately show ?thesis using that(1) e [of p n'] by auto
    qed
    moreover have "ents B d' dot = ents A d' dot" "ents B d' dotdot = ents A d' dotdot"
      using d'(1) assms(3) e by auto
    ultimately show "dir_wf B d'" by (intro dir_wf_drop [OF a(4) [OF d'(2)]]) (simp_all only: k)
  next
    fix d' assume "kinds B d' = Some 1" "links B d' \<noteq> 0"
    then show "ents B d' \<noteq> Map.empty" using l k assms(6) by (intro ne a(5)) (auto split: if_splits)
  qed (assumption | rule ne [OF a(8) not_sym [OF r(4)]] | simp add: k)+
  then show "tree_inv (tree_rmdir d n i A)" by (simp add: B_def)
qed

lemma tree_forget_inv:
  assumes "tree_inv A" "links A i = 0"
  shows "tree_inv (tree_forget i A)"
proof -
  note a = tree_invD [OF assms(1)]
  have "dir_wf A 1" by (rule a(4) [OF a(8)])
  then have "links A 1 \<noteq> 0" using entry_exists(2) [OF assms(1), of 1 dot 1] by (simp add: dir_wf_def)
  then have i1: "i \<noteq> 1" using assms(2) by auto
  have ei: "ents A i = Map.empty"
    using entry_exists(2) [OF assms(1), of i dot i] assms(2) a(4) [of i] by (auto simp: dir_wf_def)
  define B where "B = tree_forget i A"
  have e: "ents B = ents A" "refs B = refs A" "edges B = edges A" and l: "links B = links A"
    and k: "kinds B = (kinds A)(i := None)"
    by (simp_all add: B_def tree_forget_def refs_def edges_def fun_eq_iff)
  have wf: "dir_wf B d" if "ents B d \<noteq> Map.empty" for d
  proof -
    have ne: "ents A d \<noteq> Map.empty" using that unfolding e(1) .
    have "d \<noteq> i"
    proof
      assume "d = i"
      then show False using ne ei by blast
    qed
    then have "kinds B d = kinds A d" by (simp add: k)
    then show ?thesis by (intro dir_wf_drop [OF a(4) [OF ne]]) (simp_all only: e(1))
  qed
  have "tree_inv B"
  proof (rule tree_inv_drop [OF assms(1) _ _ _ wf])
    show "ents B d \<noteq> Map.empty" if "kinds B d = Some 1" "links B d \<noteq> 0" for d
      using a(5) [of d] that k e(1) l by (auto split: if_splits)
  qed (use e k l a(2,8) assms(2) in auto)
  then show ?thesis by (simp add: B_def)
qed

text \<open>
  The link count of a directory is bounded by the number of its entries, so
  that it fits the 16 bits of the disk format.
\<close>

lemma dir_links_bound:
  assumes "tree_inv A" "kinds A i = Some 1"
  shows "links A i \<le> card (dom (ents A i)) + 3"
proof -
  note a = tree_invD [OF assms(1)]
  let ?up = "{d. d \<noteq> 1 \<and> ents A d dotdot = Some i}"
  have dom: "finite (dom (ents A i))"
    using finite_vimageI [OF a(1), of "Pair i"] by (simp add: inj_on_def edges_def dom_def vimage_def)
  have "?up \<subseteq> (the \<circ> ents A i) ` dom (ents A i)"
  proof
    fix d assume "d \<in> ?up"
    then obtain n where "ents A i n = Some d"
      using entry_exists(3) [OF assms(1), of d dotdot i] by (auto simp: dir_wf_def)
    then show "d \<in> (the \<circ> ents A i) ` dom (ents A i)" by force
  qed
  then have up: "finite ?up" "card ?up \<le> card (dom (ents A i))"
    using dom by (auto intro: finite_subset surj_card_le)
  let ?non = "{(d, n). n \<notin> dots \<and> ents A d n = Some i}"
  have "finite ?non" by (rule finite_subset [OF _ a(1)]) (auto simp: edges_def)
  moreover have "x = y" if "x \<in> ?non" "y \<in> ?non" for x y
    using a(6) [OF assms(2), of "snd x" "snd y" "fst x" "fst y"] that by (auto simp: prod_eq_iff)
  ultimately have non: "finite ?non" "card ?non \<le> 1" by (auto simp: card_le_Suc0_iff_eq)
  have "refs A i \<subseteq> {(i, dot), (1, dotdot)} \<union> (?non \<union> (\<lambda>d. (d, dotdot)) ` ?up)"
  proof
    fix x assume "x \<in> refs A i"
    then obtain d n where x: "x = (d, n)" "ents A d n = Some i" by (auto simp: refs_def)
    have "n = dot \<Longrightarrow> d = i" using entry_exists(5) [OF assms(1) x(2)] x(2) by simp
    then show "x \<in> {(i, dot), (1, dotdot)} \<union> (?non \<union> (\<lambda>d. (d, dotdot)) ` ?up)" using x by auto
  qed
  then have "links A i \<le> card ({(i, dot), (1, dotdot)} \<union> (?non \<union> (\<lambda>d. (d, dotdot)) ` ?up))"
    unfolding a(2) using non(1) up(1) by (intro card_mono) simp_all
  also have "\<dots> \<le> 2 + (card ?non + card ?up)"
    by (intro order_trans [OF card_Un_le] add_mono card_image_le up(1)) (simp_all add: card_insert_if)
  finally show ?thesis using non(2) up(2) by simp
qed

end
