(* ===== verification/Xv6fs_Volume.thy ===== *)
theory Xv6fs_Volume
  imports Xv6fs_Sync Xv6fs_Tree
begin

text \<open>
  The whole volume: every inode in use, whether it is cached or only in the
  inode table.  \<open>resident\<close> gives the current contents of each inode, \<open>whole\<close>
  is the file system with all of them cached, and \<open>tree_of\<close> is its name
  space.  The invariant \<open>store_inv\<close> says that every block in use has exactly
  one owner, every inode number is either in use or free, every directory is
  well formed, and what is cached and clean agrees with the table;
  \<open>vol_inv\<close> adds that the name space satisfies \<open>tree_inv\<close>.
\<close>

section \<open>All inodes of the volume\<close>

definition resident :: "kernel \<Rightarrow> fs \<Rightarrow> nat \<rightharpoonup> xv6fs_inode_info" where
  "resident K s i =
     (case icache s i of
        Some ei \<Rightarrow> Some ei
      | None \<Rightarrow>
          if i < length (dinodes s) \<and> d_type (dinodes s ! i) \<noteq> 0
          then Some (xv6fs_dinode_to_cpu (dinodes s ! i) (fresh_inode K)) else None)"

definition whole :: "kernel \<Rightarrow> fs \<Rightarrow> fs" where
  "whole K s = s\<lparr>icache := resident K s\<rparr>"

definition live_dir_inode :: "xv6fs_inode_info \<Rightarrow> bool" where
  "live_dir_inode ei \<longleftrightarrow> i_type ei = XV6FS_T_DIR \<and> i_nlink ei \<noteq> 0"

definition dir_names :: "fs \<Rightarrow> nat \<Rightarrow> byte list \<rightharpoonup> nat" where
  "dir_names s d n = map_option unat (dir_map s d n)"

definition inode_names :: "fs \<Rightarrow> nat \<Rightarrow> byte list \<rightharpoonup> nat" where
  "inode_names s d =
     (case icache s d of
        None \<Rightarrow> Map.empty
      | Some ei \<Rightarrow> if live_dir_inode ei then dir_names s d else Map.empty)"

definition tree_of :: "kernel \<Rightarrow> fs \<Rightarrow> tree" where
  "tree_of K s =
     \<lparr>kinds = (\<lambda>i. map_option i_type (resident K s i)),
      links = (\<lambda>i. case resident K s i of None \<Rightarrow> 0 | Some ei \<Rightarrow> unat (i_nlink ei)),
      ents = inode_names (whole K s)\<rparr>"

section \<open>The invariant\<close>

text \<open>Every data block in use is owned by some inode: no block is leaked.\<close>

definition accounted :: "fs \<Rightarrow> bool" where
  "accounted s \<longleftrightarrow> (\<forall>b \<in> data_blocks s. block_used s b \<longrightarrow> (\<exists>i. b \<in> owned s i))"

definition inode_wf :: "xv6fs_inode_info \<Rightarrow> bool" where
  "inode_wf ei \<longleftrightarrow>
     i_type ei \<in> {XV6FS_T_DIR, XV6FS_T_FILE, XV6FS_T_DEV} \<and> 0 \<le> i_size ei \<and> i_size ei < 4294967296"

text \<open>A cached inode that is not dirty is what the table holds.\<close>

definition clean_ok :: "kernel \<Rightarrow> fs \<Rightarrow> bool" where
  "clean_ok K s \<longleftrightarrow>
     (\<forall>i ei. icache s i = Some ei \<and> i \<notin> idirty s \<longrightarrow>
        d_type (dinodes s ! i) \<noteq> 0 \<and>
        same_persistent ei (xv6fs_dinode_to_cpu (dinodes s ! i) (fresh_inode K)))"

text \<open>The mode and the operation tables of an inode are those of its type.\<close>

definition tables_set :: "xv6fs_inode_info \<Rightarrow> bool" where
  "tables_set ei \<longleftrightarrow>
     S_ISDIR (i_mode ei) = (i_type ei = XV6FS_T_DIR) \<and>
     (i_type ei = XV6FS_T_DIR \<longrightarrow> i_op ei = Ops_dir \<and> i_fop ei = Ops_dir) \<and>
     (i_type ei = XV6FS_T_FILE \<longrightarrow> i_op ei = Ops_file \<and> i_fop ei = Ops_file \<and> i_aops ei = Ops_file)"

lemma tables_set_update [simp]:
  "tables_set (ei\<lparr>i_addrs := a\<rparr>) = tables_set ei" "tables_set (ei\<lparr>i_size := z\<rparr>) = tables_set ei"
  "tables_set (ei\<lparr>i_nlink := n\<rparr>) = tables_set ei"
  by (simp_all add: tables_set_def)

definition mode_ok :: "fs \<Rightarrow> bool" where
  "mode_ok s \<longleftrightarrow> (\<forall>i ei. icache s i = Some ei \<longrightarrow> tables_set ei)"

definition no_lost_inode :: "kernel \<Rightarrow> fs \<Rightarrow> bool" where
  "no_lost_inode K s \<longleftrightarrow>
     (\<forall>i < unat (sb_ninodes (raw_sb s)). resident K s i = None \<longrightarrow> i \<in> set (free_inodes_list s))"

definition inodes_ok :: "kernel \<Rightarrow> fs \<Rightarrow> bool" where
  "inodes_ok K s \<longleftrightarrow>
     (\<forall>i ei. icache s i = Some ei \<longrightarrow> inode_wf ei \<and> (i_type ei = XV6FS_T_DIR \<longrightarrow> dir_inv K i s))"

definition store_inv :: "kernel \<Rightarrow> fs \<Rightarrow> bool" where
  "store_inv K s \<longleftrightarrow>
     own_inv (whole K s) \<and> accounted (whole K s) \<and> inodes_ok K (whole K s) \<and>
     ialloc_inv s \<and> unat (sb_ninodes (raw_sb s)) \<le> 65536 \<and> 0 \<notin> dom (icache s) \<and>
     no_lost_inode K s \<and> clean_ok K s \<and> mode_ok s \<and> synced s"

definition vol_inv :: "kernel \<Rightarrow> fs \<Rightarrow> bool" where
  "vol_inv K s \<longleftrightarrow> store_inv K s \<and> tree_inv (tree_of K s) \<and> (\<forall>i. links (tree_of K s) i < 65536)"

section \<open>Views of the whole volume\<close>

lemma whole_sel [simp]:
  "disk (whole K s) = disk s" "raw_sb (whole K s) = raw_sb s" "icache (whole K s) = resident K s"
  "data_blocks (whole K s) = data_blocks s" "block_used (whole K s) = block_used s"
  "dinodes (whole K s) = dinodes s" "free_inodes_list (whole K s) = free_inodes_list s"
  by (simp_all add: whole_def data_blocks_def block_used_def [abs_def])

lemma resident_cached: "icache s i = Some ei \<Longrightarrow> resident K s i = Some ei"
  by (simp add: resident_def)

lemma resident_dom: "dom (icache s) \<subseteq> dom (resident K s)"
  by (auto simp: resident_def)

lemma resident_cong:
  "icache t j = icache s j \<Longrightarrow> dinodes t ! j = dinodes s ! j \<Longrightarrow> length (dinodes t) = length (dinodes s) \<Longrightarrow>
   resident K t j = resident K s j"
  unfolding resident_def by (simp cong: option.case_cong)

text \<open>What an inode's views depend on: the disk and its own addresses and size.\<close>

lemma inode_views_cong:
  assumes "disk t = disk s" "raw_sb t = raw_sb s" "d \<in> dom (icache t) \<longleftrightarrow> d \<in> dom (icache s)"
    and "i_addrs (xv6fs_i t d) = i_addrs (xv6fs_i s d)"
  shows "imap_ok t d = imap_ok s d" "owned t d = owned s d" "inode_blocks t d = inode_blocks s d"
    "file_map t d = file_map s d"
proof -
  have al: "addr_list t d = addr_list s d" by (simp add: addr_list_def ind_entries_def Let_def assms)
  show b: "inode_blocks t d = inode_blocks s d" by (simp add: inode_blocks_def al)
  show "imap_ok t d = imap_ok s d"
    using assms(3) by (simp add: imap_ok_def b assms(4) data_blocks_cong [OF assms(2)] block_used_cong [OF assms(1,2)])
  show "owned t d = owned s d" using assms(3) by (auto simp: owned_def b split: option.splits)
  show "file_map t d = file_map s d" by (simp add: file_map_def ind_entries_def Let_def fun_eq_iff assms)
qed

lemma dir_views_cong:
  assumes "disk t = disk s" "raw_sb t = raw_sb s" "d \<in> dom (icache t) \<longleftrightarrow> d \<in> dom (icache s)"
    and "i_addrs (xv6fs_i t d) = i_addrs (xv6fs_i s d)" "i_size (xv6fs_i t d) = i_size (xv6fs_i s d)"
  shows "dir_inv K d t = dir_inv K d s" "dir_map t d = dir_map s d" "dir_names t d = dir_names s d"
proof -
  note v = inode_views_cong [OF assms(1-4)]
  have sl: "slot_at t d = slot_at s d" by (rule slot_at_cong [OF v(4) assms(1)])
  have e: "dir_entries t d = dir_entries s d"
    by (simp add: dir_entries_def live_slots_def live_def [abs_def] nslots_def slot_entry_def [abs_def] sl assms(5))
  show "dir_map t d = dir_map s d" by (simp add: dir_map_entries e)
  then show "dir_names t d = dir_names s d" by (simp add: dir_names_def fun_eq_iff)
  show "dir_inv K d t = dir_inv K d s"
    using bmap_inv_cong [OF assms(1,2)] by (simp add: dir_inv_def v dir_ok_def assms unique_names_def e)
qed

lemma whole_i [simp]: "i \<in> dom (icache s) \<Longrightarrow> xv6fs_i (whole K s) i = xv6fs_i s i"
  by (auto simp: xv6fs_i_def resident_def)

lemma whole_views:
  assumes "i \<in> dom (icache s)"
  shows "imap_ok (whole K s) i = imap_ok s i" "owned (whole K s) i = owned s i"
    "dir_inv K i (whole K s) = dir_inv K i s" "dir_map (whole K s) i = dir_map s i"
    "dir_names (whole K s) i = dir_names s i" "file_map (whole K s) i = file_map s i"
proof -
  have d: "i \<in> dom (icache (whole K s)) \<longleftrightarrow> i \<in> dom (icache s)" using assms resident_dom [of s K] by auto
  have a: "i_addrs (xv6fs_i (whole K s) i) = i_addrs (xv6fs_i s i)" "i_size (xv6fs_i (whole K s) i) = i_size (xv6fs_i s i)"
    using assms by simp_all
  show "imap_ok (whole K s) i = imap_ok s i" "owned (whole K s) i = owned s i" "file_map (whole K s) i = file_map s i"
    by (rule inode_views_cong [OF _ _ d a(1)]; simp)+
  show "dir_inv K i (whole K s) = dir_inv K i s" "dir_map (whole K s) i = dir_map s i"
    "dir_names (whole K s) i = dir_names s i"
    by (rule dir_views_cong [OF _ _ d a]; simp)+
qed

lemma bmap_inv_whole [simp]: "bmap_inv (whole K s) = bmap_inv s"
  by (rule bmap_inv_cong) simp_all

lemma store_vol_ok:
  assumes "store_inv K s" shows "vol_ok s"
proof -
  have w: "own_inv (whole K s)" using assms by (simp add: store_inv_def)
  have none: "owned s i = {}" if "i \<notin> dom (icache s)" for i using that by (simp add: owned_def domIff)
  have "owned s i \<inter> owned s j = {}" if "i \<noteq> j" for i j
  proof (cases "i \<in> dom (icache s) \<and> j \<in> dom (icache s)")
    case True
    then show ?thesis using w that whole_views(2) [of i s K] whole_views(2) [of j s K]
      unfolding own_inv_def by metis
  qed (use none in blast)
  moreover have "imap_ok s i" if "i \<in> dom (icache s)" for i
    using w that whole_views(1) [OF that, of K] resident_dom [of s K] by (auto simp: own_inv_def)
  ultimately have "own_inv s" using w by (simp add: own_inv_def)
  then show ?thesis using assms by (simp add: vol_ok_def store_inv_def)
qed

lemma store_dir:
  assumes "store_inv K s" "i \<in> dom (icache s)" "i_type (xv6fs_i s i) = XV6FS_T_DIR"
  shows "dir_inv K i s"
proof -
  obtain ei where "icache s i = Some ei" "resident K s i = Some ei" "xv6fs_i s i = ei"
    using assms(2) by (auto simp: resident_def xv6fs_i_def)
  then have "dir_inv K i (whole K s)" using assms(1,3) by (auto simp: store_inv_def inodes_ok_def)
  then show ?thesis using whole_views(3) [OF assms(2)] by simp
qed

section \<open>Operations on behalf of one inode\<close>

lemma frame_accounted:
  assumes "own_inv s" "accounted s" "own_frame i s t" shows "accounted t"
  unfolding accounted_def
proof (intro ballI impI)
  fix b assume b: "b \<in> data_blocks t" "block_used t b"
  show "\<exists>j. b \<in> owned t j"
  proof (cases "b \<in> owned t i")
    case False
    have "b \<in> data_blocks s"
      using b(1) assms(3) data_blocks_cong [of t s] by (simp add: own_frame_def)
    then have u: "block_used s b" "b \<notin> owned s i" "b \<in> data_blocks s"
      using assms(3) b(2) False unfolding own_frame_def by blast+
    then obtain j where j: "b \<in> owned s j" using assms(2) by (auto simp: accounted_def)
    then have "j \<noteq> i" using u(2) by auto
    moreover have "imap_ok s j"
      using j assms(1) by (auto simp: own_inv_def owned_def split: option.splits)
    ultimately show ?thesis
      using j other_kept(3) [OF assms(3)] assms(1) unfolding own_inv_def by blast
  qed blast
qed

lemma frame_inodes_ok:
  assumes "own_inv s" "inodes_ok K s" "own_frame i s t" "bmap_inv t"
    and "\<And>ei. icache t i = Some ei \<Longrightarrow> inode_wf ei \<and> (i_type ei = XV6FS_T_DIR \<longrightarrow> dir_inv K i t)"
  shows "inodes_ok K t"
  unfolding inodes_ok_def
proof (intro allI impI)
  fix j ej assume j: "icache t j = Some ej"
  show "inode_wf ej \<and> (i_type ej = XV6FS_T_DIR \<longrightarrow> dir_inv K j t)"
  proof (cases "j = i")
    case True
    then show ?thesis using j assms(5) by simp
  next
    case False
    then have "icache s j = Some ej" using j assms(3) by (simp add: own_frame_def)
    then show ?thesis using assms(2) vol_dir_other(1) [OF assms(1,3,4) False] by (auto simp: inodes_ok_def)
  qed
qed

lemma frame_names:
  assumes "own_inv s" "inodes_ok K s" "own_frame i s t" "bmap_inv t"
  shows "inode_names t = (inode_names s)(i := inode_names t i)"
proof
  fix j
  show "inode_names t j = ((inode_names s)(i := inode_names t i)) j"
  proof (cases "j = i")
    case False
    have ic: "icache t j = icache s j" using assms(3) False by (simp add: own_frame_def)
    have "dir_map t j = dir_map s j" if "icache s j = Some ej" "live_dir_inode ej" for ej
      using assms(2) that vol_dir_other(2) [OF assms(1,3,4) False] by (auto simp: inodes_ok_def live_dir_inode_def)
    then show ?thesis using False
      by (simp add: inode_names_def ic dir_names_def [abs_def] split: option.split)
  qed simp
qed

text \<open>
  An operation that changes cached inode \<open>i\<close> alone, frees and takes blocks for
  it alone, and marks it dirty when it changes.
\<close>

definition touches :: "nat \<Rightarrow> fs \<Rightarrow> fs \<Rightarrow> bool" where
  "touches i s t \<longleftrightarrow>
     own_frame i s t \<and> same_tables i s t \<and> bmap_inv t \<and> imap_ok t i \<and> meta_same s t \<and>
     (icache t i \<noteq> icache s i \<longrightarrow> i \<in> idirty t)"

lemma touches_trans [trans]: "touches i s t \<Longrightarrow> touches i t u \<Longrightarrow> touches i s u"
  unfolding touches_def using own_frame_trans same_tables_trans meta_same_trans
  by (metis same_tables_def subset_iff)

lemma touches_refl: "bmap_inv s \<Longrightarrow> imap_ok s i \<Longrightarrow> touches i s s"
  by (simp add: touches_def)

lemma touch_cached: "touches i s t \<Longrightarrow> i \<in> dom (icache t)"
  by (simp add: touches_def imap_ok_def)

lemma cached_i: "i \<in> dom (icache s) \<Longrightarrow> icache s i = Some (xv6fs_i s i)"
  by (auto simp: xv6fs_i_def)

lemma touch_resident:
  assumes "i \<in> dom (icache s)" "touches i s t"
  shows "resident K t = (resident K s)(i := icache t i)"
proof
  fix j
  obtain ei where "icache t i = Some ei" using touch_cached [OF assms(2)] by blast
  moreover have "dinodes t = dinodes s" "j \<noteq> i \<Longrightarrow> icache t j = icache s j"
    using assms(2) by (simp_all add: touches_def same_tables_def)
  ultimately show "resident K t j = ((resident K s)(i := icache t i)) j"
    by (cases "j = i"; cases "icache s j") (simp_all add: resident_def)
qed

lemma touch_frame:
  assumes "i \<in> dom (icache s)" "touches i s t"
  shows "own_frame i (whole K s) (whole K t)"
  using assms(2) whole_views(2) [OF assms(1), of K] whole_views(2) [OF touch_cached [OF assms(2)], of K]
  by (simp add: touches_def own_frame_def touch_resident [OF assms])

lemma inode_names_whole:
  "i \<in> dom (icache s) \<Longrightarrow> inode_names (whole K s) i = inode_names s i"
  using whole_views(5) [of i s K] by (auto simp: inode_names_def resident_def)

lemma touch_clean:
  assumes "touches i s t" "clean_ok K s" shows "clean_ok K t"
  unfolding clean_ok_def
proof (intro allI impI, elim conjE)
  fix j ei assume h: "icache t j = Some ei" "j \<notin> idirty t"
  have t: "dinodes t = dinodes s" "idirty s \<subseteq> idirty t" "icache t j = icache s j"
    using assms(1) h(2) by (cases "j = i"; auto simp: touches_def same_tables_def)+
  then have "icache s j = Some ei \<and> j \<notin> idirty s" using h by auto
  then show "d_type (dinodes t ! j) \<noteq> 0 \<and>
      same_persistent ei (xv6fs_dinode_to_cpu (dinodes t ! j) (fresh_inode K))"
    using assms(2) unfolding clean_ok_def t(1) by blast
qed

lemma store_invD:
  assumes "store_inv K s"
  shows "own_inv (whole K s)" "accounted (whole K s)" "inodes_ok K (whole K s)" "ialloc_inv s"
    "unat (sb_ninodes (raw_sb s)) \<le> 65536" "0 \<notin> dom (icache s)" "no_lost_inode K s" "clean_ok K s" "mode_ok s"
    "bmap_inv s" "itable_ok s" "synced s" "length (dinodes s) = unat (sb_ninodes (raw_sb s))" "layout_ok (raw_sb s)"
proof -
  show bm: "bmap_inv s" and it: "itable_ok s"
    using assms by (simp_all add: store_inv_def own_inv_def ialloc_inv_def)
  show "length (dinodes s) = unat (sb_ninodes (raw_sb s))" "layout_ok (raw_sb s)"
    using it bmap_inv_layout [OF bm] by (simp_all add: itable_ok_def)
qed (use assms in \<open>simp_all add: store_inv_def\<close>)

lemma touch_store:
  assumes "store_inv K s" "i \<in> dom (icache s)" "touches i s t" "inode_wf (xv6fs_i t i)"
    and "i_type (xv6fs_i t i) = XV6FS_T_DIR \<Longrightarrow> dir_inv K i t"
    and "tables_set (xv6fs_i t i)"
  shows "store_inv K t"
proof -
  note inv = store_invD [OF assms(1)] and c = touch_cached [OF assms(3)]
    and r = touch_resident [OF assms(2,3), of K] and f = touch_frame [OF assms(2,3), of K]
  have st: "same_tables i s t" and bm: "bmap_inv t" and im: "imap_ok t i" using assms(3) by (simp_all add: touches_def)
  have raw: "raw_sb t = raw_sb s" "free_inodes_list t = free_inodes_list s" "dinodes t = dinodes s"
    and ic: "\<And>j. j \<noteq> i \<Longrightarrow> icache t j = icache s j" using st by (simp_all add: same_tables_def)
  have "inodes_ok K (whole K t)"
    using assms(4,5) whole_views(3) [OF c, of K] bm cached_i [OF c]
    by (intro frame_inodes_ok [OF inv(1,3) f]) (simp_all add: r)
  moreover have "i < length (dinodes s)" "i \<notin> set (free_inodes_list s)"
    using inv(11) assms(2) by (auto simp: itable_ok_def)
  then have "ialloc_inv t"
    using itable_ok_same [OF inv(11) st] inv(4) raw by (simp add: ialloc_inv_def)
  moreover have "no_lost_inode K t"
    using inv(7) cached_i [OF c] unfolding no_lost_inode_def r raw by (auto split: if_splits)
  moreover have "mode_ok t"
    using inv(9) cached_i [OF c] assms(6) ic unfolding mode_ok_def by (metis option.inject)
  moreover have "0 \<notin> dom (icache t)" using inv(6) assms(2) ic [of 0] by (cases "i = 0") auto
  moreover have "own_inv (whole K t)"
    using im bm whole_views(1) [OF c, of K] by (intro own_inv_step [OF inv(1) f]) simp_all
  moreover have "synced t"
    using assms(3) raw by (intro synced_meta [OF inv(12) _ _ _ inv(14,13)]) (simp_all add: touches_def)
  ultimately show ?thesis
    using frame_accounted [OF inv(1,2) f] touch_clean [OF assms(3) inv(8)] inv(5) raw(1)
    by (simp add: store_inv_def)
qed

lemma links_of_resident:
  "links (tree_of K s) i = (case resident K s i of None \<Rightarrow> 0 | Some ei \<Rightarrow> unat (i_nlink ei))"
  "kinds (tree_of K s) i = map_option i_type (resident K s i)" "ents (tree_of K s) = inode_names (whole K s)"
  by (simp_all add: tree_of_def)

lemma tree_eqI:
  "(\<And>i. kinds A i = kinds B i) \<Longrightarrow> (\<And>i. links A i = links B i) \<Longrightarrow> ents A = ents B \<Longrightarrow> A = B"
  for A B :: tree
  by (cases A, cases B) (simp add: fun_eq_iff)

lemma touch_tree:
  assumes "store_inv K s" "i \<in> dom (icache s)" "touches i s t"
  shows "tree_of K t =
    \<lparr>kinds = (kinds (tree_of K s))(i \<mapsto> i_type (xv6fs_i t i)),
     links = (links (tree_of K s))(i := unat (i_nlink (xv6fs_i t i))),
     ents = (ents (tree_of K s))(i := inode_names t i)\<rparr>"
proof -
  note inv = store_invD [OF assms(1)] and c = touch_cached [OF assms(3)]
    and r = touch_resident [OF assms(2,3), of K] and f = touch_frame [OF assms(2,3), of K]
  have "bmap_inv (whole K t)" using assms(3) by (simp add: touches_def)
  from frame_names [OF inv(1,3) f this] have n: "inode_names (whole K t) = (inode_names (whole K s))(i := inode_names t i)"
    unfolding inode_names_whole [OF c] .
  show ?thesis
    by (rule tree_eqI) (simp_all add: links_of_resident r cached_i [OF c] n)
qed

section \<open>The driver's operations touch one inode\<close>

lemma touches_ghost [simp]:
  "touches i s (brelse t) \<longleftrightarrow> own_frame i s t \<and> same_tables i s (brelse t) \<and> bmap_inv t \<and> imap_ok t i \<and>
     meta_same s t \<and> (icache t i \<noteq> icache s i \<longrightarrow> i \<in> idirty t)"
  by (simp add: touches_def)

lemma touches_set_inode:
  assumes "i_addrs ei = i_addrs (xv6fs_i s i)" "bmap_inv s" "imap_ok s i"
  shows "touches i s (mark_inode_dirty i (set_inode i ei s))"
proof -
  note v = inode_views_set_inode [OF assms(1)]
  have "i \<in> dom (icache s)" using assms(3) by (simp add: imap_ok_def)
  then have "own_frame i s (set_inode i ei s)" using assms(1) by (intro own_frame_attr)
  then show ?thesis
    using v(3,6) assms(2,3) same_tables_trans [OF same_tables_basic(5,6)] by (simp add: touches_def)
qed

lemma get_block_indirect_icache:
  "icache (snd (get_block_indirect K ino l c b u)) = icache u"
proof -
  obtain r v where bal: "xv6fs_balloc K u = (r, v)" by fastforce
  then have "icache v = icache u" using balloc_tables(2) [of K u] by simp
  then show ?thesis using bal by (auto simp: get_block_indirect_def Let_def split: sum.splits)
qed

lemma get_block_marked:
  assumes "xv6fs_get_block K ino l c s = (r, t)" "icache t ino \<noteq> icache s ino"
  shows "ino \<in> idirty t"
proof -
  obtain x v where bal: "xv6fs_balloc K s = (x, v)" by fastforce
  then have v: "icache v = icache s" using balloc_tables(2) [of K s] by simp
  have ind: "ino \<in> idirty (snd (get_block_indirect K ino l c b u))" if "ino \<in> idirty u" for b u
  proof -
    have "same_tables ino u (snd (xv6fs_balloc K u))" by (rule balloc_tables(1))
    then have "ino \<in> idirty (snd (xv6fs_balloc K u))" using that by (auto simp: same_tables_def)
    then show ?thesis using that by (auto simp: get_block_indirect_def Let_def split: sum.splits prod.splits)
  qed
  have t: "t = snd (xv6fs_get_block K ino l c s)" using assms(1) by simp
  show ?thesis
    using assms(2) ind v get_block_indirect_icache
    unfolding t by (auto simp: xv6fs_get_block_def Let_def bal sb_bread_def sb_getblk_def split: sum.splits if_splits)
qed

lemma touches_get_block:
  assumes "kernel_bitops K" "io_ok K" "bmap_inv s" "imap_ok s i" "xv6fs_get_block K i l c s = (r, t)"
  shows "touches i s t"
  using own_frame_get_block [OF assms(1,3,4) _ assms(5)] get_block_frame [of i s K l c] assms(2,5)
    get_block_marked [OF assms(5)] meta_same_get_block [OF assms(1,3,4) _ assms(5)]
  by (auto simp: touches_def io_ok_def)

lemma touches_b_store:
  assumes "bmap_inv s" "imap_ok s i" "file_map s i l = Some b" "length d = 512"
  shows "touches i s (mark_buffer_dirty b (b_store b d s))"
proof -
  note f = file_store [OF assms]
  show ?thesis using own_frame_store [OF assms] meta_same_store [OF assms(1-3)] f(1,2)
    by (auto simp: touches_def same_tables_def)
qed

lemma store_entry_marked:
  assumes "icache s dir \<noteq> c \<Longrightarrow> dir \<in> idirty s" "icache (snd (store_entry dir name ino pos b s)) dir \<noteq> c"
  shows "dir \<in> idirty (snd (store_entry dir name ino pos b s))"
  using assms by (auto simp: store_entry_def Let_def split: if_splits)

lemma touches_add_entry:
  assumes "kernel_bitops K" "io_ok K" "dir_inv K dir s" "length name \<le> 14"
    and "xv6fs_dir_add_entry K dir name ino s = Some (r, t)"
  shows "touches dir s t"
proof -
  have inv: "bmap_inv s" "imap_ok s dir" "dir_ok K s dir" using assms(3) by (simp_all add: dir_inv_def)
  have p: "dir_frame dir s t"
    using add_entry_post(1) [OF assms(1) inv assms(2,4,5)] by (simp add: entry_post_def)
  obtain x u where call: "xv6fs_get_block K dir (free_slot s dir div 32) True s = (x, u)" by fastforce
  note m = get_block_marked [OF call]
  have "(r, t) = dir_write_entry K dir name ino (16 * int (free_slot s dir)) s"
    using add_entry_eq [OF inv(3) assms(4), of ino] assms(5) by simp
  then have t: "t = snd (dir_write_entry K dir name ino (16 * int (free_slot s dir)) s)" by (metis snd_conv)
  have "icache t dir \<noteq> icache s dir \<longrightarrow> dir \<in> idirty t"
    unfolding t dir_write_entry_io [OF assms(2) call]
    using m by (auto intro: store_entry_marked [where c = "icache s dir"] split: sum.split bh_result.split bool.split)
  then show ?thesis
    using p own_frame_add_entry [OF assms(1-5)] meta_same_add_entry [OF assms(1-5)]
    by (simp add: touches_def dir_frame_def)
qed

lemma touches_unlink:
  assumes "dir_inv K dir s" "dir_map s dir name \<noteq> None"
  obtains t where "xv6fs_unlink K dir name ino s = Some (Ret (), inode_dec_link_count ino t)"
    "touches dir s t" "dir_inv K dir t" "dir_map t dir = (dir_map s dir)(name := None)" "icache t = icache s"
proof -
  have inv: "bmap_inv s" "imap_ok s dir" "dir_ok K s dir" using assms(1) by (simp_all add: dir_inv_def)
  obtain t where t: "xv6fs_unlink K dir name ino s = Some (Ret (), inode_dec_link_count ino t)"
    "dir_inv K dir t" "dir_map t dir = (dir_map s dir)(name := None)" "icache t = icache s"
    and st: "t = s \<or> (\<exists>l b d. file_map s dir l = Some b \<and> length d = 512 \<and> t = mark_buffer_dirty b (b_store b d s))"
    using unlink_refines [OF assms(1), of name ino] assms(2) by auto
  from st have "touches dir s t" using touches_refl [OF inv(1,2)] touches_b_store [OF inv(1,2)] by blast
  with t show ?thesis by (intro that)
qed

section \<open>Steps of the name space\<close>

lemma cached_facts:
  assumes "store_inv K s" "i \<in> dom (icache s)"
  shows "inode_wf (xv6fs_i s i)" "tables_set (xv6fs_i s i)"
    "imap_ok s i" "i < unat (sb_ninodes (raw_sb s))" "0 < i" "i < 65536" "i \<notin> set (free_inodes_list s)"
    "kinds (tree_of K s) i = Some (i_type (xv6fs_i s i))" "links (tree_of K s) i = unat (i_nlink (xv6fs_i s i))"
proof -
  note inv = store_invD [OF assms(1)] and c = cached_i [OF assms(2)]
  show "inode_wf (xv6fs_i s i)"
    using inv(3) resident_cached [OF c] by (auto simp: inodes_ok_def)
  show "tables_set (xv6fs_i s i)"
    using inv(9) c by (simp add: mode_ok_def)
  show "imap_ok s i" "i < unat (sb_ninodes (raw_sb s))" "i < 65536" "i \<notin> set (free_inodes_list s)"
    using vol_cached [OF store_vol_ok [OF assms(1)] assms(2)] by simp_all
  show "0 < i" using inv(6) assms(2) by (cases i) auto
  show "kinds (tree_of K s) i = Some (i_type (xv6fs_i s i))" "links (tree_of K s) i = unat (i_nlink (xv6fs_i s i))"
    by (simp_all add: links_of_resident resident_cached [OF c])
qed

lemma inode_names_cached:
  "i \<in> dom (icache s) \<Longrightarrow>
   inode_names s i = (if live_dir_inode (xv6fs_i s i) then dir_names s i else Map.empty)"
  by (simp add: inode_names_def cached_i)

lemma store_link_count:
  fixes n :: u32
  assumes "store_inv K s" "i \<in> dom (icache s)"
  defines "t \<equiv> mark_inode_dirty i (set_nlink i n s)"
  shows "store_inv K t"
    "tree_of K t = (tree_of K s)\<lparr>links := (links (tree_of K s))(i := unat n),
       ents := (ents (tree_of K s))(i := if i_type (xv6fs_i s i) = XV6FS_T_DIR \<and> n \<noteq> 0 then dir_names s i else Map.empty)\<rparr>"
    "touches i s t"
proof -
  note c = cached_facts [OF assms(1,2)] and inv = store_invD [OF assms(1)]
  have x: "xv6fs_i t i = (xv6fs_i s i)\<lparr>i_nlink := n\<rparr>" unfolding t_def by (rule link_count_views(1))
  show touch: "touches i s t" unfolding t_def set_nlink_def
    by (rule touches_set_inode [OF _ inv(10) c(3)]) simp
  show "store_inv K t"
  proof (rule touch_store [OF assms(1,2) touch])
    show "dir_inv K i t" if "i_type (xv6fs_i t i) = XV6FS_T_DIR"
      using store_dir [OF assms(1,2)] that by (simp add: x) (simp add: t_def dir_inv_link_count)
  qed (use c(1,2) in \<open>simp_all add: x inode_wf_def\<close>)
  have "dir_names t i = dir_names s i" by (simp add: fun_eq_iff dir_names_def t_def dir_map_link_count)
  then show "tree_of K t = (tree_of K s)\<lparr>links := (links (tree_of K s))(i := unat n),
       ents := (ents (tree_of K s))(i := if i_type (xv6fs_i s i) = XV6FS_T_DIR \<and> n \<noteq> 0 then dir_names s i else Map.empty)\<rparr>"
    unfolding touch_tree [OF assms(1,2) touch]
    by (intro tree_eqI) (simp_all add: x c(8) inode_names_cached [OF touch_cached [OF touch]] live_dir_inode_def)
qed

lemma dir_names_simps:
  "dir_map t d = dir_map s d \<Longrightarrow> dir_names t d = dir_names s d"
  "dir_map t d = (dir_map s d)(name \<mapsto> w) \<Longrightarrow> dir_names t d = (dir_names s d)(name \<mapsto> unat w)"
  "dir_map t d = (dir_map s d)(name := None) \<Longrightarrow> dir_names t d = (dir_names s d)(name := None)"
  by (simp_all add: dir_names_def fun_eq_iff)

text \<open>A directory whose attributes, addresses and size apart, are unchanged.\<close>

lemma touch_dir_tree:
  assumes "store_inv K s" "d \<in> dom (icache s)" "touches d s t"
    and "xv6fs_i t d = (xv6fs_i s d)\<lparr>i_addrs := a, i_size := z\<rparr>"
  shows "tree_of K t = (tree_of K s)\<lparr>ents := (ents (tree_of K s))
      (d := if live_dir_inode (xv6fs_i s d) then dir_names t d else Map.empty)\<rparr>"
proof -
  note c = cached_facts [OF assms(1,2)]
  have "live_dir_inode (xv6fs_i t d) = live_dir_inode (xv6fs_i s d)"
    unfolding live_dir_inode_def assms(4) by simp
  then show ?thesis
    unfolding touch_tree [OF assms(1-3)] inode_names_cached [OF touch_cached [OF assms(3)]]
    by (intro tree_eqI) (simp_all add: assms(4) c(8,9))
qed

lemma tree_names:
  assumes "d \<in> dom (icache s)"
  shows "ents (tree_of K s) d = (if live_dir_inode (xv6fs_i s d) then dir_names s d else Map.empty)"
  unfolding links_of_resident inode_names_whole [OF assms] by (rule inode_names_cached [OF assms])

lemma store_add_entry:
  assumes "kernel_bitops K" "io_ok K" "store_inv K s" "d \<in> dom (icache s)" "i_type (xv6fs_i s d) = XV6FS_T_DIR"
    and "length name \<le> 14" "0 \<notin> set name" "0 < v" "v < 65536" "dir_map s d name = None"
  obtains r t a z where "xv6fs_dir_add_entry K d name v s = Some (r, t)"
    "r \<in> {Ret (), Err ENOSPC, Err EIO, Err EFBIG}" "store_inv K t" "touches d s t"
    "tree_of K t = (if r = Ret () \<and> i_nlink (xv6fs_i s d) \<noteq> 0
       then (tree_of K s)\<lparr>ents := (ents (tree_of K s))(d := (ents (tree_of K s) d)(name \<mapsto> v))\<rparr>
       else tree_of K s)"
    "xv6fs_i t d = (xv6fs_i s d)\<lparr>i_addrs := a, i_size := z\<rparr>"
    "dir_map t d = (if r = Ret () then (dir_map s d)(name \<mapsto> of_nat v) else dir_map s d)"
proof -
  have dir: "dir_inv K d s" by (rule store_dir [OF assms(3-5)])
  note c = cached_facts [OF assms(3,4)] and u = u16_ino [OF assms(8,9)]
  obtain r t where add: "xv6fs_dir_add_entry K d name v s = Some (r, t)" "dir_inv K d t"
    "r \<in> {Ret (), Err ENOSPC, Err EIO, Err EFBIG}"
    "dir_map t d = (if r = Ret () then (dir_map s d)(name \<mapsto> of_nat v) else dir_map s d)"
    using add_entry_refines [OF assms(1,2) dir assms(6,7) u(2) assms(10)] by blast
  obtain a z where x: "xv6fs_i t d = (xv6fs_i s d)\<lparr>i_addrs := a, i_size := z\<rparr>"
    by (rule add_entry_attrs [OF assms(2) dir assms(6) add(1)])
  note touch = touches_add_entry [OF assms(1,2) dir assms(6) add(1)]
  have "dir_ok K t d" using add(2) by (simp add: dir_inv_def)
  then have "inode_wf (xv6fs_i t d)" using c(1) x assms(5) by (simp add: inode_wf_def dir_ok_def)
  moreover have "tables_set (xv6fs_i t d)" using c(2) by (simp add: x)
  ultimately have inv: "store_inv K t" using touch_store [OF assms(3,4) touch] add(2) by simp
  have "dir_names t d = (if r = Ret () then (dir_names s d)(name \<mapsto> v) else dir_names s d)"
    using add(4) dir_names_simps(1,2) [of t d s] u(1) by (auto split: if_splits)
  then have "tree_of K t = (if r = Ret () \<and> i_nlink (xv6fs_i s d) \<noteq> 0
       then (tree_of K s)\<lparr>ents := (ents (tree_of K s))(d := (ents (tree_of K s) d)(name \<mapsto> v))\<rparr>
       else tree_of K s)"
    unfolding touch_dir_tree [OF assms(3,4) touch x] using tree_names [OF assms(4), of K] assms(5)
    by (intro tree_eqI) (auto simp: live_dir_inode_def fun_upd_idem)
  with add inv touch x show ?thesis using that by blast
qed

lemma store_drop_entry:
  assumes "store_inv K s" "d \<in> dom (icache s)" "i_type (xv6fs_i s d) = XV6FS_T_DIR" "dir_map s d name \<noteq> None"
  obtains t where "xv6fs_unlink K d name ino s = Some (Ret (), inode_dec_link_count ino t)"
    "store_inv K t" "icache t = icache s" "touches d s t" "dir_map t d = (dir_map s d)(name := None)"
    "tree_of K t = (tree_of K s)\<lparr>ents := (ents (tree_of K s))(d := (ents (tree_of K s) d)(name := None))\<rparr>"
proof -
  have dir: "dir_inv K d s" by (rule store_dir [OF assms(1-3)])
  note c = cached_facts [OF assms(1,2)]
  obtain t where t: "xv6fs_unlink K d name ino s = Some (Ret (), inode_dec_link_count ino t)"
    "touches d s t" "dir_inv K d t" "dir_map t d = (dir_map s d)(name := None)" "icache t = icache s"
    by (rule touches_unlink [OF dir assms(4)])
  have x: "xv6fs_i t d = xv6fs_i s d" using t(5) by (simp add: xv6fs_i_def)
  then obtain a z where xa: "xv6fs_i t d = (xv6fs_i s d)\<lparr>i_addrs := a, i_size := z\<rparr>"
    by (metis xv6fs_inode_info.surjective xv6fs_inode_info.update_convs(1,6))
  have inv: "store_inv K t" using touch_store [OF assms(1,2) t(2)] c(1,2) t(3) by (simp add: x)
  have "tree_of K t = (tree_of K s)\<lparr>ents := (ents (tree_of K s))(d := (ents (tree_of K s) d)(name := None))\<rparr>"
    unfolding touch_dir_tree [OF assms(1,2) t(2) xa] using tree_names [OF assms(2), of K] dir_names_simps(3) [OF t(4)]
    by (intro tree_eqI) (auto simp: fun_eq_iff)
  with t inv show ?thesis by (intro that)
qed

section \<open>Inodes come into use and go\<close>

lemma new_inode_fields_facts:
  "i_addrs (new_inode_fields mode ei) = replicate 13 0" "i_size (new_inode_fields mode ei) = 0"
  "i_type (new_inode_fields mode ei) = (if S_ISDIR mode then XV6FS_T_DIR else XV6FS_T_FILE)"
  "i_nlink (new_inode_fields mode ei) = (if S_ISDIR mode then 2 else 1)"
  "tables_set (new_inode_fields mode ei)"
  "inode_wf (new_inode_fields mode ei)"
  by (simp_all add: new_inode_fields_def Let_def S_ISDIR_def inode_wf_def tables_set_def)

lemma free_not_resident:
  "itable_ok s \<Longrightarrow> i \<in> set (free_inodes_list s) \<Longrightarrow> resident K s i = None"
  by (auto simp: itable_ok_def resident_def)

lemma store_new_inode:
  assumes "store_inv K s" "xv6fs_new_inode K mode s = (Inr i, t)"
  shows "store_inv K t" "i \<in> dom (icache t)" "resident K s i = None"
    "tree_of K t = (tree_of K s)\<lparr>kinds := (kinds (tree_of K s))(i \<mapsto> if S_ISDIR mode then XV6FS_T_DIR else XV6FS_T_FILE),
       links := (links (tree_of K s))(i := if S_ISDIR mode then 2 else 1)\<rparr>"
proof -
  note inv = store_invD [OF assms(1)] and n = new_inode_Inr [OF assms(2)] and vo = store_vol_ok [OF assms(1)]
  note it = new_inode_itable [OF inv(11) assms(2)] and vn = vol_new_inode [OF vo assms(2)]
    and nd = new_dir [OF vo assms(2)]
  let ?ei = "new_inode_fields mode (fresh_inode K)"
  show c: "i \<in> dom (icache t)" using n(4) by simp
  show rs: "resident K s i = None" by (rule free_not_resident [OF inv(11)]) (simp add: n(1))
  have r: "resident K t = (resident K s)(i \<mapsto> ?ei)"
  proof
    fix j show "resident K t j = ((resident K s)(i \<mapsto> ?ei)) j"
      by (cases "j = i"; cases "icache s j") (simp_all add: resident_def n(4,6))
  qed
  have o: "owned (whole K s) i = {}" "owned (whole K t) i = owned t i"
    using whole_views(2) [OF c] by (simp_all add: owned_def rs)
  have "inode_blocks t i = []" using new_inode_own [OF inv(11,10) assms(2)] by simp
  then have "owned (whole K t) i = {}" using c o(2) by (simp add: owned_cached)
  then have f: "own_frame i (whole K s) (whole K t)"
    by (intro own_frame_same) (simp_all add: n(7,8) r o)
  have bm: "bmap_inv (whole K t)" using vn(5) by simp
  have "inodes_ok K (whole K t)"
    using whole_views(3) [OF c, of K] nd(1)
    by (intro frame_inodes_ok [OF inv(1,3) f bm]) (auto simp: r new_inode_fields_facts)
  moreover have "own_inv (whole K t)"
    using vn(6) whole_views(1) [OF c, of K] bm by (intro own_inv_step [OF inv(1) f]) simp_all
  moreover have "ialloc_inv t" using vn(1) by (simp add: vol_ok_def)
  moreover have "no_lost_inode K t"
    using inv(7) unfolding no_lost_inode_def r n(8) by (auto simp: n(1) split: if_splits)
  moreover have "clean_ok K t"
    using inv(8) unfolding clean_ok_def n(4,5,6) by (auto split: if_splits)
  moreover have "mode_ok t"
    using inv(9) unfolding mode_ok_def n(4) by (auto simp: new_inode_fields_facts(5))
  moreover have "0 \<notin> dom (icache t)" using inv(6) vn(2) by (simp add: n(4) domIff)
  moreover have "synced t"
    using n(6,7,8) by (intro synced_meta [OF inv(12) _ _ _ inv(14,13)]) simp_all
  ultimately show "store_inv K t"
    using frame_accounted [OF inv(1,2) f] inv(5) n(8) by (simp add: store_inv_def)
  have "inode_names t i = Map.empty"
    unfolding inode_names_cached [OF c] using nd(2) by (simp add: dir_names_def fun_eq_iff)
  then have "inode_names (whole K t) = (inode_names (whole K s))(i := Map.empty)"
    using frame_names [OF inv(1,3) f bm] by (simp add: inode_names_whole [OF c])
  moreover have "inode_names (whole K s) i = Map.empty" by (simp add: inode_names_def rs)
  ultimately have nm: "inode_names (whole K t) = inode_names (whole K s)" by (simp add: fun_upd_idem)
  show "tree_of K t = (tree_of K s)\<lparr>kinds := (kinds (tree_of K s))(i \<mapsto> if S_ISDIR mode then XV6FS_T_DIR else XV6FS_T_FILE),
       links := (links (tree_of K s))(i := if S_ISDIR mode then 2 else 1)\<rparr>"
    by (rule tree_eqI) (simp_all add: links_of_resident r nm new_inode_fields_facts)
qed

lemma iput_last_idirty: "idirty s - {i} \<subseteq> idirty (iput_last K i s)"
proof -
  have "idirty s \<subseteq> idirty (evict_trunc K i s)"
    using evict_trunc_tables [of i s K] by (simp add: same_tables_def)
  moreover have "idirty (zero_slot_on_disk K i u) = idirty u" for u
    by (auto simp: zero_slot_on_disk_def Let_def sb_bread_def)
  ultimately show ?thesis
    by (auto simp: iput_last_def xv6fs_evict_inode_def Let_def list_add_tail_free_def)
qed

lemma store_iput_unlinked:
  assumes "kernel_bitops K" "io_ok K" "store_inv K s" "i \<in> dom (icache s)" "i_nlink (xv6fs_i s i) = 0"
  shows "store_inv K (iput_last K i s)" "tree_of K (iput_last K i s) = tree_forget i (tree_of K s)"
    "own_frame i (whole K s) (whole K (iput_last K i s))"
    "resident K (iput_last K i s) = (resident K s)(i := None)"
    "icache (iput_last K i s) = (icache s)(i := None)" "raw_sb (iput_last K i s) = raw_sb s"
proof -
  let ?t = "iput_last K i s"
  note inv = store_invD [OF assms(3)] and c = cached_facts [OF assms(3,4)]
  have e: "free_inodes_list ?t = free_inodes_list s @ [i]" "dinodes ?t = (dinodes s)[i := zero_dinode]"
    "raw_sb ?t = raw_sb s" "icache ?t = (icache s)(i := None)"
    using evict_unlinked [where K = K, OF assms(5) c(5)]
    by (auto simp: iput_last_def Let_def fun_eq_iff)
  have r: "resident K ?t = (resident K s)(i := None)"
  proof
    fix j show "resident K ?t j = ((resident K s)(i := None)) j"
      by (cases "j = i"; cases "icache s j") (auto simp: resident_def e zero_dinode_def nth_list_update)
  qed
  have own: "own_frame i s ?t" "bmap_inv ?t"
    using iput_last_own [OF assms(1,2) inv(10) c(3,4) assms(5) c(5)] by simp_all
  have "owned ?t i = {}" "owned (whole K ?t) i = {}" by (simp_all add: owned_def e(4) r)
  then have f: "own_frame i (whole K s) (whole K ?t)"
    using own(1) whole_views(2) [OF assms(4), of K] by (simp add: own_frame_def r)
  have bm: "bmap_inv (whole K ?t)" using own(2) by simp
  have "inodes_ok K (whole K ?t)" by (intro frame_inodes_ok [OF inv(1,3) f bm]) (simp_all add: r)
  moreover have "own_inv (whole K ?t)" by (rule own_inv_step [OF inv(1) f bm]) (simp add: r)
  moreover have "ialloc_inv ?t"
    using iput_last_itable [OF inv(11) assms(4), of K] inv(4) c(5) by (simp add: ialloc_inv_def e(1))
  moreover have "no_lost_inode K ?t"
    using inv(7) unfolding no_lost_inode_def r e(1,3) by auto
  moreover have "clean_ok K ?t"
    using inv(8) iput_last_idirty [of s i K] unfolding clean_ok_def e(2,4)
    by (auto simp: nth_list_update split: if_splits)
  moreover have "mode_ok ?t" using inv(9) unfolding mode_ok_def e(4) by (auto split: if_splits)
  moreover have "0 \<notin> dom (icache ?t)" using inv(6) by (simp add: e(4) domIff)
  moreover have "synced ?t" by (rule synced_iput [OF assms(1,2) inv(10) c(3,4) assms(5) c(5) inv(13,12)])
  ultimately show "store_inv K ?t"
    using frame_accounted [OF inv(1,2) f] inv(5) by (simp add: store_inv_def e(3))
  have "inode_names (whole K ?t) i = Map.empty" by (simp add: inode_names_def r)
  moreover have "inode_names (whole K s) i = Map.empty"
    using inode_names_whole [OF assms(4), of K] inode_names_cached [OF assms(4)] assms(5)
    by (simp add: live_dir_inode_def)
  ultimately have "inode_names (whole K ?t) = inode_names (whole K s)"
    using frame_names [OF inv(1,3) f bm] by (metis fun_upd_triv)
  then show "tree_of K ?t = tree_forget i (tree_of K s)"
    using c(9) assms(5) by (intro tree_eqI) (simp_all add: tree_forget_def links_of_resident r)
  show "own_frame i (whole K s) (whole K ?t)" "resident K ?t = (resident K s)(i := None)"
    "icache ?t = (icache s)(i := None)" "raw_sb ?t = raw_sb s" by (rule f r e)+
qed

text \<open>The error paths of \<^verbatim>\<open>dir.c\<close>: the new inode, which is dirty, loses its links and is released.\<close>

lemma store_discard:
  assumes "kernel_bitops K" "io_ok K" "store_inv K s" "i \<in> dom (icache s)" "i \<in> idirty s"
  shows "store_inv K (discard_inode K i s)"
    "tree_of K (discard_inode K i s) = (tree_of K s)\<lparr>kinds := (kinds (tree_of K s))(i := None),
       links := (links (tree_of K s))(i := 0), ents := (ents (tree_of K s))(i := Map.empty)\<rparr>"
proof -
  have idem: "mark_inode_dirty i u = u" if "i \<in> idirty u" for u
    using that by (simp add: mark_inode_dirty_def insert_absorb)
  let ?u = "mark_inode_dirty i (set_nlink i 0 s)"
  have "i \<in> idirty (set_nlink i 0 s)" using assms(5) by (simp add: set_nlink_def)
  then have d: "discard_inode K i s = iput_last K i ?u" by (simp add: discard_inode_def idem)
  note u = store_link_count [OF assms(3,4), of 0]
  have n: "i_nlink (xv6fs_i ?u i) = 0" using link_count_views(1) [of i 0 s] by simp
  note r = store_iput_unlinked [OF assms(1,2) u(1) touch_cached [OF u(3)] n]
  show "store_inv K (discard_inode K i s)" unfolding d by (rule r(1))
  show "tree_of K (discard_inode K i s) = (tree_of K s)\<lparr>kinds := (kinds (tree_of K s))(i := None),
       links := (links (tree_of K s))(i := 0), ents := (ents (tree_of K s))(i := Map.empty)\<rparr>"
    unfolding d r(2) u(2) by (intro tree_eqI) (simp_all add: tree_forget_def)
qed

text \<open>
  Loading an inode into the cache, and dropping a clean one, changes no
  inode's persistent contents.
\<close>

definition same_data :: "kernel \<Rightarrow> fs \<Rightarrow> fs \<Rightarrow> bool" where
  "same_data K s t \<longleftrightarrow>
     disk t = disk s \<and> raw_sb t = raw_sb s \<and>
     (\<forall>j. rel_option same_persistent (resident K s j) (resident K t j))"

definition same_contents :: "kernel \<Rightarrow> fs \<Rightarrow> fs \<Rightarrow> bool" where
  "same_contents K s t \<longleftrightarrow>
     same_data K s t \<and> dinodes t = dinodes s \<and>
     free_inodes_list t = free_inodes_list s \<and> free_inodes t = free_inodes s"

lemma same_persistentD:
  "same_persistent ei ej \<Longrightarrow> i_addrs ei = i_addrs ej \<and> i_size ei = i_size ej \<and> i_type ei = i_type ej \<and>
     i_nlink ei = i_nlink ej"
  by (simp add: same_persistent_def)

lemma same_data_views:
  assumes "same_data K s t"
  shows "imap_ok (whole K t) j = imap_ok (whole K s) j" "owned (whole K t) = owned (whole K s)"
    "dir_inv K j (whole K t) = dir_inv K j (whole K s)" "inode_names (whole K t) = inode_names (whole K s)"
proof -
  have b: "disk (whole K t) = disk (whole K s)" "raw_sb (whole K t) = raw_sb (whole K s)"
    using assms by (simp_all add: same_data_def)
  have rel: "rel_option same_persistent (resident K s j) (resident K t j)" for j
    using assms by (simp add: same_data_def)
  have d: "j \<in> dom (icache (whole K t)) \<longleftrightarrow> j \<in> dom (icache (whole K s))" for j
    using rel [of j] by (cases "resident K s j"; cases "resident K t j") auto
  have a: "i_addrs (xv6fs_i (whole K t) j) = i_addrs (xv6fs_i (whole K s) j)"
    "i_size (xv6fs_i (whole K t) j) = i_size (xv6fs_i (whole K s) j)" for j
    using rel [of j] by (cases "resident K s j"; cases "resident K t j"; auto simp: xv6fs_i_def dest: same_persistentD)+
  show "imap_ok (whole K t) j = imap_ok (whole K s) j" by (rule inode_views_cong(1) [OF b d a(1)])
  show "owned (whole K t) = owned (whole K s)" by (rule ext) (rule inode_views_cong(2) [OF b d a(1)])
  note v = dir_views_cong [OF b d a]
  show "dir_inv K j (whole K t) = dir_inv K j (whole K s)" by (rule v(1))
  show "inode_names (whole K t) = inode_names (whole K s)"
  proof
    fix j show "inode_names (whole K t) j = inode_names (whole K s) j"
      using rel [of j] v(3) [of j]
      by (cases "resident K s j"; cases "resident K t j")
         (auto simp: inode_names_def live_dir_inode_def dest: same_persistentD)
  qed
qed

lemma same_data_store:
  assumes "store_inv K s" "same_data K s t" "ialloc_inv t" "clean_ok K t" "mode_ok t" "0 \<notin> dom (icache t)"
    and "no_lost_inode K t" "synced t"
  shows "store_inv K t" "tree_of K t = tree_of K s"
proof -
  note inv = store_invD [OF assms(1)] and v = same_data_views [OF assms(2)]
  have e: "disk t = disk s" "raw_sb t = raw_sb s"
    and rel: "\<And>j. rel_option same_persistent (resident K s j) (resident K t j)"
    using assms(2) by (simp_all add: same_data_def)
  have rd: "resident K t j = None \<longleftrightarrow> resident K s j = None" for j
    using rel [of j] by (cases "resident K s j"; cases "resident K t j") auto
  have bm: "bmap_inv t" using inv(10) bmap_inv_cong [OF e(1,2)] by simp
  have du: "data_blocks t = data_blocks s" "block_used t = block_used s"
    by (rule data_blocks_cong [OF e(2)], rule block_used_cong [OF e(1,2)])
  have "own_inv (whole K t)"
    using inv(1) bm rd unfolding own_inv_def v by (auto simp: domIff)
  moreover have "accounted (whole K t)" using inv(2) by (simp add: accounted_def v du)
  moreover have "inodes_ok K (whole K t)"
    unfolding inodes_ok_def
  proof (intro allI impI)
    fix j ej assume j: "icache (whole K t) j = Some ej"
    then obtain ei where ei: "resident K s j = Some ei" "same_persistent ei ej"
      using rel [of j] by (cases "resident K s j") auto
    then have "inode_wf ei \<and> (i_type ei = XV6FS_T_DIR \<longrightarrow> dir_inv K j (whole K s))"
      using inv(3) by (simp add: inodes_ok_def)
    then show "inode_wf ej \<and> (i_type ej = XV6FS_T_DIR \<longrightarrow> dir_inv K j (whole K t))"
      using same_persistentD [OF ei(2)] by (simp add: inode_wf_def v)
  qed
  ultimately show "store_inv K t" using assms(3-8) inv(5) e(2) by (simp add: store_inv_def)
  show "tree_of K t = tree_of K s"
  proof (rule tree_eqI)
    fix j
    show "kinds (tree_of K t) j = kinds (tree_of K s) j" "links (tree_of K t) j = links (tree_of K s) j"
      using rel [of j] by (cases "resident K s j"; cases "resident K t j";
        auto simp: links_of_resident dest: same_persistentD)+
  qed (simp add: links_of_resident v)
qed

lemma same_contents_store:
  assumes "store_inv K s" "same_contents K s t" "ialloc_inv t" "clean_ok K t" "mode_ok t" "0 \<notin> dom (icache t)"
  shows "store_inv K t" "tree_of K t = tree_of K s"
proof -
  note inv = store_invD [OF assms(1)]
  have e: "disk t = disk s" "raw_sb t = raw_sb s" "free_inodes_list t = free_inodes_list s" "dinodes t = dinodes s"
    and rel: "\<And>j. rel_option same_persistent (resident K s j) (resident K t j)"
    using assms(2) by (simp_all add: same_contents_def same_data_def)
  have "resident K t j = None \<longleftrightarrow> resident K s j = None" for j
    using rel [of j] by (cases "resident K s j"; cases "resident K t j") auto
  then have "no_lost_inode K t" using inv(7) by (simp add: no_lost_inode_def e)
  moreover have "synced t" using e by (intro synced_meta [OF inv(12) _ _ _ inv(14,13)]) simp_all
  moreover have "same_data K s t" using assms(2) by (simp add: same_contents_def)
  ultimately show "store_inv K t" "tree_of K t = tree_of K s"
    using same_data_store [OF assms(1) _ assms(3-6)] by blast+
qed

section \<open>The inode cache\<close>

lemma same_persistent_refl [simp]: "same_persistent ei ei"
  by (simp add: same_persistent_def)

lemma rel_persistent_refl [simp]: "rel_option same_persistent x x"
  by (cases x) simp_all

lemma same_persistent_sym: "same_persistent a b \<Longrightarrow> same_persistent b a"
  by (simp add: same_persistent_def)

lemma store_iput_clean:
  assumes "store_inv K s" "i \<in> dom (icache s)" "i \<notin> idirty s" "i_nlink (xv6fs_i s i) \<noteq> 0"
  shows "store_inv K (iput_last K i s)" "tree_of K (iput_last K i s) = tree_of K s"
proof -
  let ?t = "iput_last K i s"
  note inv = store_invD [OF assms(1)] and c = cached_facts [OF assms(1,2)] and ei = cached_i [OF assms(2)]
  have t: "?t = s\<lparr>icache := (icache s)(i := None), idirty := idirty s - {i}\<rparr>"
    using assms(4) by (simp add: iput_last_def evict_linked)
  have cl: "d_type (dinodes s ! i) \<noteq> 0"
    "same_persistent (xv6fs_i s i) (xv6fs_dinode_to_cpu (dinodes s ! i) (fresh_inode K))"
    using inv(8) ei assms(3) by (auto simp: clean_ok_def)
  have "i < length (dinodes s)" using inv(11) assms(2) by (auto simp: itable_ok_def)
  then have ri: "resident K ?t i = Some (xv6fs_dinode_to_cpu (dinodes s ! i) (fresh_inode K))"
    using cl(1) by (simp add: resident_def t)
  have "resident K ?t j = resident K s j" if "j \<noteq> i" for j using that by (intro resident_cong) (simp_all add: t)
  then have "rel_option same_persistent (resident K s j) (resident K ?t j)" for j
    using ri cl(2) resident_cached [OF ei] by (cases "j = i") simp_all
  then have same: "same_contents K s ?t" unfolding same_contents_def same_data_def by (simp add: t)
  have "ialloc_inv ?t"
    using iput_last_itable [OF inv(11) assms(2)] inv(4) by (simp add: ialloc_inv_def) (simp add: t)
  moreover have "clean_ok K ?t" using inv(8) unfolding clean_ok_def by (auto simp: t split: if_splits)
  moreover have "mode_ok ?t" "0 \<notin> dom (icache ?t)"
    using inv(6,9) unfolding mode_ok_def by (auto simp: t split: if_splits)
  ultimately show "store_inv K ?t" "tree_of K ?t = tree_of K s" using same_contents_store [OF assms(1) same] by blast+
qed

lemma iget_ops_mode: "iget_ops ei = Some ej \<Longrightarrow> tables_set ej"
  by (auto simp: iget_ops_def S_ISDIR_def tables_set_def split: if_splits)

lemma store_iget:
  assumes "store_inv K s" "resident K s i \<noteq> None" "0 < i"
  obtains "xv6fs_iget K i s = (Inl ENOMEM, s)" "\<not> inode_alloc_ok K i"
  | t where "xv6fs_iget K i s = (Inr i, t)" "store_inv K t" "tree_of K t = tree_of K s" "i \<in> dom (icache t)"
      "same_data K s t"
proof (cases "icache s i")
  case (Some ei)
  then have "i < unat (sb_ninodes (raw_sb s))" using cached_facts(4) [OF assms(1)] by blast
  then have "xv6fs_iget K i s = (Inr i, s)" using Some assms(3) by (intro iget_cached) auto
  moreover have "same_data K s s" by (simp add: same_data_def)
  ultimately show ?thesis using that(2) assms(1) Some by blast
next
  case None
  note inv = store_invD [OF assms(1)]
  have ty: "i < length (dinodes s)" "d_type (dinodes s ! i) \<noteq> 0"
    "resident K s i = Some (xv6fs_dinode_to_cpu (dinodes s ! i) (fresh_inode K))"
    using assms(2) None by (auto simp: resident_def split: if_splits)
  have "inode_wf (xv6fs_dinode_to_cpu (dinodes s ! i) (fresh_inode K))"
    using inv(3) ty(3) by (simp add: inodes_ok_def)
  then have wf: "d_type (dinodes s ! i) \<in> {1, 2, 3}" by (simp add: inode_wf_def xv6fs_dinode_to_cpu_def)
  have n: "i < unat (sb_ninodes (raw_sb s))" using ty(1) inv(11) by (simp add: itable_ok_def)
  show ?thesis
  proof (cases "inode_alloc_ok K i")
    case False
    then have "xv6fs_iget K i s = (Inl ENOMEM, s)" using assms(3) n None by (simp add: xv6fs_iget_def)
    then show ?thesis using False by (rule that(1))
  next
    case True
    obtain ei where g: "xv6fs_iget K i s = (Inr i, set_inode i ei s)"
      "same_persistent ei (xv6fs_dinode_to_cpu (dinodes s ! i) (fresh_inode K))"
      by (rule iget_read [OF assms(3) n None True wf])
    let ?t = "set_inode i ei s"
    have m: "tables_set ei"
    proof -
      have inj: "set_inode i a s = set_inode i b s \<Longrightarrow> a = b" for a b by (metis xv6fs_i_simps(7))
      obtain e0 where "iget_ops e0 = Some ei"
        using g(1) assms(3) n None True
        by (auto simp: xv6fs_iget_def Let_def dest: inj split: option.splits)
      then show ?thesis by (rule iget_ops_mode)
    qed
    have ic: "icache ?t = (icache s)(i \<mapsto> ei)" "dinodes ?t = dinodes s" by (simp_all add: set_inode_def)
    have "rel_option same_persistent (resident K s j) (resident K ?t j)" for j
    proof (cases "j = i")
      case True
      then show ?thesis using ty(3) same_persistent_sym [OF g(2)] by (simp add: resident_def [of K ?t] ic)
    next
      case False
      then have "resident K ?t j = resident K s j" unfolding resident_def ic by simp
      then show ?thesis by simp
    qed
    then have same: "same_contents K s ?t"
      by (simp add: same_contents_def same_data_def) (simp add: set_inode_def)
    have "ialloc_inv ?t" using iget_Inr_itable [OF inv(11) g(1)] inv(4) by (simp add: ialloc_inv_def)
    moreover have "clean_ok K ?t"
      using inv(8) g(2) ty(2) unfolding clean_ok_def ic by (auto simp: set_inode_def)
    moreover have "mode_ok ?t" using inv(9) m unfolding mode_ok_def ic by auto
    moreover have "0 \<notin> dom (icache ?t)" using inv(6) assms(3) by (simp add: ic domIff)
    ultimately show ?thesis
      using that(2) [OF g(1)] same_contents_store [OF assms(1) same] same by (simp add: ic same_contents_def)
  qed
qed

section \<open>Write-back\<close>

text \<open>The VFS clears the dirty mark and calls \<open>xv6fs_write_inode\<close>.\<close>

definition write_back :: "kernel \<Rightarrow> nat \<Rightarrow> bool \<Rightarrow> fs \<Rightarrow> (errno + unit) \<times> fs" where
  "write_back K i sync s = xv6fs_write_inode K i sync (s\<lparr>idirty := idirty s - {i}\<rparr>)"

lemma write_back_state:
  assumes "io_ok K"
  shows "snd (write_back K i sync s) =
    s\<lparr>idirty := idirty s - {i}, dinodes := (dinodes s)[i := xv6fs_dinode_to_disk (xv6fs_i s i)],
      disk := (disk s)(XV6FS_IBLOCK i (raw_sb s) :=
        put_dinode (XV6FS_IOFFSET i) ((dinodes s)[i := xv6fs_dinode_to_disk (xv6fs_i s i)] ! i)
          (disk s (XV6FS_IBLOCK i (raw_sb s)))),
      dirty := insert (XV6FS_IBLOCK i (raw_sb s)) (dirty s)\<rparr>"
  using assms by (auto simp: write_back_def xv6fs_write_inode_def Let_def buffer_defs io_ok_def xv6fs_i_def
      split: option.splits)

text \<open>No file's blocks are written: nothing is done on behalf of any inode of the volume.\<close>

lemma write_back_frame:
  fixes w :: bool
  assumes "io_ok K" "store_inv K s" "i \<in> dom (icache s)"
  defines "t \<equiv> snd (write_back K i w s)"
  shows "resident K t = resident K s" "own_frame (length (dinodes s)) (whole K s) (whole K t)"
    "resident K s (length (dinodes s)) = None" "block_used t = block_used s"
proof -
  note inv = store_invD [OF assms(2)] and c = cached_facts [OF assms(2,3)] and ei = cached_i [OF assms(3)]
  let ?b = "XV6FS_IBLOCK i (raw_sb s)"
  have t: "icache t = icache s" "length (dinodes t) = length (dinodes s)" "raw_sb t = raw_sb s"
    "\<And>j. j \<noteq> i \<Longrightarrow> dinodes t ! j = dinodes s ! j" "\<And>b. b \<noteq> ?b \<Longrightarrow> disk t b = disk s b"
    unfolding t_def write_back_state [OF assms(1)] by simp_all
  show r: "resident K t = resident K s"
  proof
    fix j show "resident K t j = resident K s j"
    proof (cases "j = i")
      case True
      then show ?thesis using ei by (simp add: resident_cached t(1))
    qed (intro resident_cong, simp_all add: t)
  qed
  have dk: "disk t b = disk s b" if "b \<in> data_blocks s" for b
    using that IBLOCK_less_DSTART [OF inv(14) c(4)] by (intro t(5)) (auto simp: data_blocks_def)
  show used: "block_used t = block_used s"
    using IBLOCK_not_BBLOCK [OF inv(14) c(4), THEN not_sym] by (simp add: fun_eq_iff block_used_def t(3,5))
  show rn: "resident K s (length (dinodes s)) = None"
    using inv(11) by (auto simp: itable_ok_def resident_def domIff split: option.split)
  show "own_frame (length (dinodes s)) (whole K s) (whole K t)"
    using dk used by (simp add: own_frame_def t(3) r owned_def rn)
qed

lemma store_write_back:
  fixes w :: bool
  assumes "io_ok K" "store_inv K s" "i \<in> dom (icache s)" "links (tree_of K s) i < 65536"
  defines "t \<equiv> snd (write_back K i w s)"
  shows "store_inv K t" "tree_of K t = tree_of K s"
proof -
  note inv = store_invD [OF assms(2)] and c = cached_facts [OF assms(2,3)] and ei = cached_i [OF assms(3)]
    and fr = write_back_frame(1,2,4) [OF assms(1-3), of w, folded t_def] and rn = write_back_frame(3) [OF assms(1-3)]
  note r = fr(1) and f = fr(2) and used = fr(3)
  let ?b = "XV6FS_IBLOCK i (raw_sb s)" and ?di = "xv6fs_dinode_to_disk (xv6fs_i s i)" and ?n = "length (dinodes s)"
  have len: "i < length (dinodes s)" using inv(11) assms(3) by (auto simp: itable_ok_def)
  have fits: "fits_dinode (xv6fs_i s i)"
    using c(1,3,9) assms(4) by (simp add: fits_dinode_def inode_wf_def imap_ok_def)
  have t: "icache t = icache s" "dinodes t = (dinodes s)[i := ?di]" "raw_sb t = raw_sb s" "idirty t = idirty s - {i}"
    "disk t = (disk s)(?b := put_dinode (XV6FS_IOFFSET i) ?di (disk s ?b))" "free_inodes_list t = free_inodes_list s"
    unfolding t_def write_back_state [OF assms(1)] using len by simp_all
  have l512: "length (disk s b) = 512" for b using inv(10) by (simp add: bmap_inv_def blocks_512_def)
  then have "length (disk t b) = 512" for b
    using fits by (cases "b = ?b") (simp_all add: t(5) XV6FS_IOFFSET_def)
  then have bm: "bmap_inv (whole K t)" using inv(10) used by (simp add: bmap_inv_def blocks_512_def t(3))
  have "inodes_ok K (whole K t)" by (intro frame_inodes_ok [OF inv(1,3) f bm]) (simp add: r rn)
  moreover have "own_inv (whole K t)" by (rule own_inv_step [OF inv(1) f bm]) (simp add: domIff r rn)
  moreover have "itable_ok t" unfolding t_def write_back_def
    by (rule write_inode_itable) (use inv(11) assms(3) in \<open>auto simp: itable_ok_def\<close>)
  then have "ialloc_inv t" using inv(4) by (simp add: ialloc_inv_def t(6))
  moreover have "no_lost_inode K t" using inv(7) by (simp add: no_lost_inode_def r t)
  moreover have "clean_ok K t"
    unfolding clean_ok_def
  proof (intro allI impI, elim conjE)
    fix j ej assume j: "icache t j = Some ej" "j \<notin> idirty t"
    show "d_type (dinodes t ! j) \<noteq> 0 \<and> same_persistent ej (xv6fs_dinode_to_cpu (dinodes t ! j) (fresh_inode K))"
    proof (cases "j = i")
      case True
      have "i_type (xv6fs_i s i) \<noteq> 0" using c(1) by (auto simp: inode_wf_def)
      then show ?thesis using True j(1) ei len same_persistent_sym [OF dinode_disk_roundtrip [OF fits]]
        by (simp add: t) (simp add: xv6fs_dinode_to_disk_def)
    next
      case False
      then show ?thesis using inv(8) j by (simp add: clean_ok_def t)
    qed
  qed
  moreover have "mode_ok t" "0 \<notin> dom (icache t)" using inv(6,9) by (simp_all add: mode_ok_def t)
  moreover have "synced t"
    by (rule synced_put [OF inv(12) c(4) wf_dinode_to_disk [OF fits] inv(10,13)]) (simp_all add: t)
  ultimately show "store_inv K t"
    using frame_accounted [OF inv(1,2) f] inv(5) t(3) by (simp add: store_inv_def)
  have "inode_names (whole K t) ?n = inode_names (whole K s) ?n" by (simp add: inode_names_def r rn)
  then have "inode_names (whole K t) = inode_names (whole K s)"
    using frame_names [OF inv(1,3) f bm] by (metis fun_upd_triv)
  then show "tree_of K t = tree_of K s" by (intro tree_eqI) (simp_all add: links_of_resident r)
qed

section \<open>Regular files\<close>

text \<open>An operation on an inode that is not a directory does not show in the name space.\<close>

lemma touch_file:
  assumes "store_inv K s" "i \<in> dom (icache s)" "i_type (xv6fs_i s i) \<noteq> XV6FS_T_DIR" "touches i s t"
    and "i_type (xv6fs_i t i) = i_type (xv6fs_i s i)" "i_nlink (xv6fs_i t i) = i_nlink (xv6fs_i s i)"
    and "tables_set (xv6fs_i t i)"
    and "0 \<le> i_size (xv6fs_i t i)" "i_size (xv6fs_i t i) < 4294967296"
  shows "store_inv K t" "tree_of K t = tree_of K s"
proof -
  note c = cached_facts [OF assms(1,2)]
  show "store_inv K t"
    using c(1,2) assms by (intro touch_store [OF assms(1,2,4)]) (auto simp: inode_wf_def)
  show "tree_of K t = tree_of K s"
    unfolding touch_tree [OF assms(1,2,4)]
    using tree_names [OF assms(2), of K] inode_names_cached [OF touch_cached [OF assms(4)]] assms(3,5,6) c(8,9)
    by (intro tree_eqI) (auto simp: live_dir_inode_def)
qed

lemma store_get_block:
  assumes "kernel_bitops K" "io_ok K" "store_inv K s" "i \<in> dom (icache s)" "i_type (xv6fs_i s i) \<noteq> XV6FS_T_DIR"
    and "xv6fs_get_block K i l c s = (r, t)"
  shows "store_inv K t" "tree_of K t = tree_of K s"
proof -
  note inv = store_invD [OF assms(3)] and cf = cached_facts [OF assms(3,4)]
  note touch = touches_get_block [OF assms(1,2) inv(10) cf(3) assms(6)]
  have "same_attrs i s t" using get_block_frame [of i s K l c] assms(6) by simp
  then obtain a where x: "xv6fs_i t i = (xv6fs_i s i)\<lparr>i_addrs := a\<rparr>" unfolding same_attrs_def by blast
  show "store_inv K t" "tree_of K t = tree_of K s"
    using touch_file [OF assms(3-5) touch] cf(1,2) by (simp_all add: x inode_wf_def)
qed

text \<open>
  What the page cache does when a mapped page of a regular file is stored to:
  it writes a block it has mapped.
\<close>

definition page_write :: "nat \<Rightarrow> nat \<Rightarrow> block \<Rightarrow> fs \<Rightarrow> fs" where
  "page_write i l d s =
     (case file_map s i l of None \<Rightarrow> s | Some b \<Rightarrow> mark_buffer_dirty b (b_store b d s))"

lemma store_page_write:
  assumes "store_inv K s" "i \<in> dom (icache s)" "i_type (xv6fs_i s i) \<noteq> XV6FS_T_DIR" "length d = 512"
  shows "store_inv K (page_write i l d s)" "tree_of K (page_write i l d s) = tree_of K s"
proof -
  note inv = store_invD [OF assms(1)] and cf = cached_facts [OF assms(1,2)]
  have touch: "touches i s (page_write i l d s)"
    using touches_refl [OF inv(10) cf(3)] touches_b_store [OF inv(10) cf(3) _ assms(4)]
    by (simp add: page_write_def split: option.split)
  have "xv6fs_i (page_write i l d s) i = xv6fs_i s i" by (simp add: page_write_def split: option.split)
  then show "store_inv K (page_write i l d s)" "tree_of K (page_write i l d s) = tree_of K s"
    using touch_file [OF assms(1-3) touch] cf(1,2) by (simp_all add: inode_wf_def)
qed

section \<open>Attributes\<close>

text \<open>\<open>setattr_copy\<close> changes owner, mode bits and times.\<close>

definition setattr_copy_ok :: "kernel \<Rightarrow> bool" where
  "setattr_copy_ok K \<longleftrightarrow>
     (\<forall>ia ei. same_persistent (setattr_copy K ia ei) ei \<and>
        S_ISDIR (i_mode (setattr_copy K ia ei)) = S_ISDIR (i_mode ei) \<and>
        i_op (setattr_copy K ia ei) = i_op ei \<and> i_fop (setattr_copy K ia ei) = i_fop ei \<and>
        i_aops (setattr_copy K ia ei) = i_aops ei)"

text \<open>The zeroing of the cached tail writes, at most, one mapped block of the inode.\<close>

lemma length_zero_from [simp]: "n \<le> length d \<Longrightarrow> length (zero_from n d) = length d"
  by (simp add: zero_from_def)

lemma zero_page_tail_simps [simp]:
  "icache (zero_page_tail K i x s) = icache s" "raw_sb (zero_page_tail K i x s) = raw_sb s"
  "xv6fs_i (zero_page_tail K i x s) j = xv6fs_i s j"
  by (simp_all add: zero_page_tail_def b_store_def xv6fs_i_def split: option.split)

lemma zero_page_tail_frame:
  fixes K :: kernel and x :: nat
  assumes "bmap_inv s" "imap_ok s i"
  defines "w \<equiv> zero_page_tail K i x s"
  shows "bmap_inv w" "imap_ok w i" "file_map w i = file_map s i" "addr_list w i = addr_list s i"
    "own_frame i s w" "meta_same s w" "same_tables i s w"
    "\<forall>n < unat (sb_size (raw_sb s)). block_used w n = block_used s n"
proof -
  have "bmap_inv w \<and> imap_ok w i \<and> file_map w i = file_map s i \<and> addr_list w i = addr_list s i \<and>
      own_frame i s w \<and> meta_same s w \<and> same_tables i s w \<and>
      (\<forall>n < unat (sb_size (raw_sb s)). block_used w n = block_used s n)"
  proof (cases "w = s")
    case True
    then show ?thesis using assms by simp
  next
    case False
    then obtain b where b: "file_map s i (x div 512) = Some b" "w = b_store b (zero_from (x mod 512) (disk s b)) s"
      by (auto simp: w_def zero_page_tail_def split: option.splits if_splits)
    have "length (disk s b) = 512" using assms(1) by (simp add: bmap_inv_def blocks_512_def)
    moreover have "x mod 512 < 512" by simp
    ultimately have l: "length (zero_from (x mod 512) (disk s b)) = 512" by simp
    show ?thesis
      using file_store [OF assms(1,2) b(1) l] own_frame_store [OF assms(1,2) b(1) l]
        meta_same_store [OF assms(1,2) b(1)] same_tables_basic(3) by (simp add: b(2))
  qed
  then show "bmap_inv w" "imap_ok w i" "file_map w i = file_map s i" "addr_list w i = addr_list s i"
    "own_frame i s w" "meta_same s w" "same_tables i s w"
    "\<forall>n < unat (sb_size (raw_sb s)). block_used w n = block_used s n" by blast+
qed

lemma touches_setattr:
  assumes "kernel_bitops K" "io_ok K" "setattr_copy_ok K" "bmap_inv s" "imap_ok s i"
    and "xv6fs_setattr K i ia s = (Inr u, t)"
  shows "touches i s t" "i_type (xv6fs_i t i) = i_type (xv6fs_i s i)" "i_nlink (xv6fs_i t i) = i_nlink (xv6fs_i s i)"
    "tables_set (xv6fs_i t i) = tables_set (xv6fs_i s i)"
    "i_size (xv6fs_i t i) = (if ia_valid_size ia then ia_size ia else i_size (xv6fs_i s i))"
    "\<not> ia_valid_size ia \<Longrightarrow> i_addrs (xv6fs_i t i) = i_addrs (xv6fs_i s i)"
proof -
  define w where "w = zero_page_tail K i (nat (ia_size ia)) s"
  note w = zero_page_tail_frame [OF assms(4,5), of K "nat (ia_size ia)", folded w_def]
  have xw: "xv6fs_i w i = xv6fs_i s i" "icache w = icache s" by (simp_all add: w_def)
  let ?s0 = "set_inode i ((xv6fs_i s i)\<lparr>i_size := ia_size ia\<rparr>) w"
  define s1 where "s1 = (if ia_valid_size ia
      then xv6fs_truncate_blocks K i (nat ((ia_size ia + 511) div 512)) ?s0 else s)"
  have t: "t = mark_inode_dirty i (set_inode i (setattr_copy K ia (xv6fs_i s1 i)) s1)"
    using assms(6) unfolding xv6fs_setattr_def s1_def truncate_setsize_def w_def by (auto simp: Let_def split: option.splits)
  have s1: "own_frame i s s1 \<and> same_tables i s s1 \<and> bmap_inv s1 \<and> imap_ok s1 i \<and> meta_same s s1 \<and>
      (\<exists>a. xv6fs_i s1 i = (xv6fs_i s i)\<lparr>i_addrs := a, i_size := if ia_valid_size ia then ia_size ia else i_size (xv6fs_i s i)\<rparr> \<and>
           (\<not> ia_valid_size ia \<longrightarrow> a = i_addrs (xv6fs_i s i)))"
  proof (cases "ia_valid_size ia")
    case False
    then show ?thesis using assms(4,5) by (simp add: s1_def)
  next
    case True
    let ?n = "nat ((ia_size ia + 511) div 512)"
    have ad: "i_addrs ((xv6fs_i s i)\<lparr>i_size := ia_size ia\<rparr>) = i_addrs (xv6fs_i w i)" by (simp add: xw)
    have "trunc_pre K w i" using assms(1,2) w(1,2) by (simp add: trunc_pre_def bitmap_readable_def io_ok_def)
    then have p: "trunc_pre K ?s0 i" by (rule inode_views_set_inode(7) [OF ad])
    then have tr: "trunc_rel ?s0 i s1"
      using truncate_blocks_rel [OF p, of ?n] assms(2) True by (simp add: s1_def io_ok_def)
    have p0: "imap_ok ?s0 i" "bmap_inv ?s0" using p by (simp_all add: trunc_pre_def)
    have c: "i \<in> dom (icache w)" using w(2) by (simp add: imap_ok_def)
    have "same_attrs i ?s0 s1" using truncate_blocks_attrs [of i ?s0 K ?n] True by (simp add: s1_def)
    then obtain a where "xv6fs_i s1 i = (xv6fs_i ?s0 i)\<lparr>i_addrs := a\<rparr>" unfolding same_attrs_def by blast
    then have "xv6fs_i s1 i = (xv6fs_i s i)\<lparr>i_addrs := a, i_size := ia_size ia\<rparr>" by simp
    moreover have "same_tables i s s1"
      using same_tables_trans [OF same_tables_trans [OF w(7) same_tables_basic(5)] truncate_blocks_tables] True
      by (simp add: s1_def)
    moreover have "own_frame i s s1"
      by (rule own_frame_trans [OF w(5) own_frame_trans [OF own_frame_attr [OF ad c] own_frame_trunc [OF p0 tr]]])
    moreover have "meta_same s s1"
      using meta_same_trans [OF w(6), of s1] meta_same_trunc [OF p0 tr] w(7)
      by (simp add: meta_same_def set_inode_def same_tables_def)
    ultimately show ?thesis using tr True by (auto simp: trunc_rel_def)
  qed
  then obtain a where x1: "xv6fs_i s1 i = (xv6fs_i s i)\<lparr>i_addrs := a, i_size := if ia_valid_size ia then ia_size ia else i_size (xv6fs_i s i)\<rparr>"
    and a: "\<not> ia_valid_size ia \<Longrightarrow> a = i_addrs (xv6fs_i s i)" by blast
  let ?ei = "setattr_copy K ia (xv6fs_i s1 i)"
  have cp: "same_persistent ?ei (xv6fs_i s1 i)" "tables_set ?ei = tables_set (xv6fs_i s1 i)"
    using assms(3) by (simp_all add: setattr_copy_ok_def tables_set_def same_persistent_def)
  note pd = same_persistentD [OF cp(1)]
  have "touches i s1 t" unfolding t using s1 pd by (intro touches_set_inode) simp_all
  moreover have "i \<in> idirty t" by (simp add: t)
  ultimately show "touches i s t"
    using s1 own_frame_trans same_tables_trans meta_same_trans [of s s1 t] unfolding touches_def
    by (metis same_tables_def)
  have x: "xv6fs_i t i = ?ei" by (simp add: t)
  show "i_type (xv6fs_i t i) = i_type (xv6fs_i s i)" "i_nlink (xv6fs_i t i) = i_nlink (xv6fs_i s i)"
    "tables_set (xv6fs_i t i) = tables_set (xv6fs_i s i)"
    "i_size (xv6fs_i t i) = (if ia_valid_size ia then ia_size ia else i_size (xv6fs_i s i))"
    "\<not> ia_valid_size ia \<Longrightarrow> i_addrs (xv6fs_i t i) = i_addrs (xv6fs_i s i)"
    using pd cp(2) a by (simp_all add: x x1)
qed

lemma setattr_no_size:
  assumes "xv6fs_setattr K i ia s = (Inr u, t)" "\<not> ia_valid_size ia"
  shows "disk t = disk s" "raw_sb t = raw_sb s"
  using assms by (auto simp: xv6fs_setattr_def set_inode_def split: option.splits)

lemma store_setattr:
  assumes "kernel_bitops K" "io_ok K" "setattr_copy_ok K" "store_inv K s" "i \<in> dom (icache s)"
    and "xv6fs_setattr K i ia s = (Inr u, t)"
    and "ia_valid_size ia \<Longrightarrow> i_type (xv6fs_i s i) \<noteq> XV6FS_T_DIR \<and> 0 \<le> ia_size ia \<and> ia_size ia < 4294967296"
  shows "store_inv K t" "tree_of K t = tree_of K s"
proof -
  note inv = store_invD [OF assms(4)] and cf = cached_facts [OF assms(4,5)]
  note x = touches_setattr [OF assms(1-3) inv(10) cf(3) assms(6)]
  have "store_inv K t \<and> tree_of K t = tree_of K s"
  proof (cases "i_type (xv6fs_i s i) = XV6FS_T_DIR")
    case False
    then show ?thesis
      using touch_file [OF assms(4,5) False x(1-3)] assms(7) cf(1,2) x(4,5) by (auto simp: inode_wf_def)
  next
    case True
    then have nv: "\<not> ia_valid_size ia" using assms(7) by blast
    note d = setattr_no_size [OF assms(6) nv]
    have c: "i \<in> dom (icache t) \<longleftrightarrow> i \<in> dom (icache s)" using touch_cached [OF x(1)] assms(5) by simp
    note v = dir_views_cong [OF d c x(6) [OF nv]]
    have z: "i_size (xv6fs_i t i) = i_size (xv6fs_i s i)" using x(5) nv by simp
    have "store_inv K t"
      using cf(1,2) store_dir [OF assms(4,5) True] x(2,4) z v(1) [OF z]
      by (intro touch_store [OF assms(4,5) x(1)]) (simp_all add: inode_wf_def)
    moreover have "tree_of K t = tree_of K s"
      unfolding touch_tree [OF assms(4,5) x(1)]
      using inode_names_cached [OF touch_cached [OF x(1)]] tree_names [OF assms(5), of K] cf(8,9) v(3) [OF z] x(2,3)
      by (intro tree_eqI) (auto simp: live_dir_inode_def)
    ultimately show ?thesis ..
  qed
  then show "store_inv K t" "tree_of K t = tree_of K s" by simp_all
qed

end
