(* ===== verification/Xv6fs_Sample.thy ===== *)
theory Xv6fs_Sample
  imports Xv6fs_Volume
begin

text \<open>
  A small consistent volume, down to its bytes: 100 blocks, 16 inodes, inode 0
  taken by an empty file without links, and a root directory that holds \<open>.\<close>
  and \<open>..\<close> in block 6.  It satisfies \<open>vol_inv\<close>, so the theorems on histories
  of calls apply to it.
\<close>

definition sample_reserved :: xv6fs_dinode where
  "sample_reserved = zero_dinode\<lparr>d_type := XV6FS_T_FILE\<rparr>"

definition sample_root_slot :: xv6fs_dinode where
  "sample_root_slot = zero_dinode\<lparr>d_type := XV6FS_T_DIR, d_nlink := 2, d_size := 32, d_addrs := 6 # replicate 12 0\<rparr>"

definition sample_disk :: "nat \<Rightarrow> block" where
  "sample_disk = (\<lambda>_. replicate 512 0)
     (1 := xv6fs_sb_to_disk demo_sb @ replicate 480 0,
      2 := put_dinode 0 sample_reserved (put_dinode 1 sample_root_slot (replicate 512 0)),
      5 := 64 # replicate 511 0,
      6 := put_dirent 0 (new_dirent dot 1) (put_dirent 16 (new_dirent dotdot 1) (replicate 512 0)))"

definition sample_root :: xv6fs_inode_info where
  "sample_root = (xv6fs_dinode_to_cpu sample_root_slot blank_inode)
     \<lparr>i_mode := S_IFDIR OR 0x1ED, i_op := Ops_dir, i_fop := Ops_dir\<rparr>"

definition sample_fs :: fs where
  "sample_fs =
     \<lparr>disk = sample_disk, dirty = {}, holds = 1, raw_sb = demo_sb,
      dinodes = sample_reserved # sample_root_slot # replicate 14 zero_dinode,
      free_inodes_list = [2..<16], free_inodes = 14, icache = [1 \<mapsto> sample_root], idirty = {}\<rparr>"

lemma sample_sel [simp]:
  "disk sample_fs = sample_disk" "raw_sb sample_fs = demo_sb" "icache sample_fs = [1 \<mapsto> sample_root]"
  "dinodes sample_fs = sample_reserved # sample_root_slot # replicate 14 zero_dinode"
  "free_inodes_list sample_fs = [2..<16]" "free_inodes sample_fs = 14" "idirty sample_fs = {}"
  by (simp_all add: sample_fs_def)

abbreviation sample_zero :: xv6fs_inode_info where
  "sample_zero \<equiv> xv6fs_dinode_to_cpu sample_reserved blank_inode"

lemma sample_resident: "resident ref_kernel sample_fs = [0 \<mapsto> sample_zero, 1 \<mapsto> sample_root]"
proof
  fix i :: nat
  have "d_type ((sample_reserved # sample_root_slot # replicate 14 zero_dinode) ! i) = 0" if "1 < i" "i < 16"
    using that by (simp add: nth_Cons' zero_dinode_def)
  then show "resident ref_kernel sample_fs i = [0 \<mapsto> sample_zero, 1 \<mapsto> sample_root] i"
    by (cases "i = 0"; cases "i = 1") (auto simp: resident_def sample_reserved_def)
qed

lemma sample_whole_i:
  "xv6fs_i (whole ref_kernel sample_fs) 0 = sample_zero" "xv6fs_i (whole ref_kernel sample_fs) 1 = sample_root"
  by (simp_all add: xv6fs_i_def sample_resident)

lemma sample_root_sel [simp]:
  "i_addrs sample_root = 6 # replicate 12 0" "i_type sample_root = 1" "i_nlink sample_root = 2" "i_size sample_root = 32"
  by (simp_all add: sample_root_def sample_root_slot_def xv6fs_dinode_to_cpu_def)

lemma sample_zero_sel [simp]:
  "i_addrs sample_zero = replicate 13 0" "i_type sample_zero = 2" "i_nlink sample_zero = 0" "i_size sample_zero = 0"
  by (simp_all add: sample_reserved_def xv6fs_dinode_to_cpu_def zero_dinode_def)

lemma sample_512: "length (sample_disk b) = 512"
  by (simp add: sample_disk_def wf_dinode_def sample_reserved_def sample_root_slot_def zero_dinode_def
      new_dirent_facts xv6fs_sb_to_disk_def)

lemma sample_used: "b < 100 \<Longrightarrow> block_used sample_fs b \<longleftrightarrow> b = 6"
proof -
  assume b: "b < 100"
  have "bit (64 :: byte) n \<longleftrightarrow> n = 6" if "n < 8" for n
  proof -
    have "n \<in> {0, 1, 2, 3, 4, 5, 6, 7}" using that by auto
    then show ?thesis by (elim insertE) simp_all
  qed
  moreover have "(64 # replicate 511 0) ! (b div 8) = (if b < 8 then 64 else (0 :: byte))"
    using b by (cases "b < 8") (simp_all add: nth_Cons' div_eq_0_iff)
  moreover have "b mod 8 = b" if "b < 8" using that by simp
  ultimately show ?thesis
    using b by (cases "b < 8")
      (auto simp: block_used_def XV6FS_BBLOCK_def XV6FS_BOFFSET_def sample_disk_def test_bit_le_def)
qed

lemma sample_bmap_inv: "bmap_inv sample_fs"
  by (auto simp: bmap_inv_def blocks_512_def sample_512)

lemma sample_blocks:
  "inode_blocks (whole ref_kernel sample_fs) 0 = []" "inode_blocks (whole ref_kernel sample_fs) 1 = [6]"
  unfolding inode_blocks_def addr_list_def ind_entries_def sample_whole_i
  by (simp_all add: nz_blocks_def)

lemma sample_map: "file_map (whole ref_kernel sample_fs) 1 = [0 \<mapsto> 6]"
proof
  fix l
  have "(6 # replicate 12 0) ! l = (if l = 0 then 6 else (0 :: u32))" if "l < 13"
    using that by (cases l) simp_all
  then show "file_map (whole ref_kernel sample_fs) 1 l = [0 \<mapsto> 6] l"
    unfolding file_map_def ind_entries_def sample_whole_i by (auto simp: block_opt_def)
qed

lemma sample_imap: "imap_ok (whole ref_kernel sample_fs) 0" "imap_ok (whole ref_kernel sample_fs) 1"
  unfolding imap_ok_def sample_blocks sample_whole_i
  using sample_used [of 6] by (simp_all add: sample_resident data_blocks_def)

lemma sample_owned: "owned (whole ref_kernel sample_fs) i = (if i = 1 then {6} else {})"
proof -
  have "owned (whole ref_kernel sample_fs) i = {}" if "i \<notin> {0, 1}"
    using that by (simp add: owned_def sample_resident)
  then show ?thesis
    using owned_imap [OF sample_imap(1)] owned_imap [OF sample_imap(2)] sample_blocks
    by (cases "i = 0"; cases "i = 1") simp_all
qed

lemma sample_slots:
  "nslots (whole ref_kernel sample_fs) 1 = 2"
  "slot_at (whole ref_kernel sample_fs) 1 0 = Some (new_dirent dot 1)"
  "slot_at (whole ref_kernel sample_fs) 1 1 = Some (new_dirent dotdot 1)"
proof -
  show "nslots (whole ref_kernel sample_fs) 1 = 2" unfolding nslots_def sample_whole_i by simp
  show "slot_at (whole ref_kernel sample_fs) 1 0 = Some (new_dirent dot 1)"
    "slot_at (whole ref_kernel sample_fs) 1 1 = Some (new_dirent dotdot 1)"
    unfolding slot_at_def sample_map by (simp_all add: sample_disk_def new_dirent_facts dirent_at_put_other)
qed

lemma sample_entries: "dir_entries (whole ref_kernel sample_fs) 1 = [(dot, 1), (dotdot, 1)]"
proof -
  have "live_slots (whole ref_kernel sample_fs) 1 0 = [0, 1]"
    unfolding live_slots_def sample_slots(1)
    by (simp add: upt_conv_Cons live_def sample_slots(2,3) [unfolded One_nat_def] new_dirent_facts)
  then show ?thesis
    unfolding dir_entries_def by (simp add: slot_entry_def sample_slots(2,3) [unfolded One_nat_def] new_dirent_facts)
qed

lemma sample_dir: "dir_inv ref_kernel 1 (whole ref_kernel sample_fs)"
  unfolding dir_inv_def dir_ok_def sample_whole_i unique_names_def sample_entries
  using sample_imap(2) sample_bmap_inv by simp

lemma sample_names: "dir_names (whole ref_kernel sample_fs) 1 = [dot \<mapsto> 1, dotdot \<mapsto> 1]"
  unfolding dir_names_def [abs_def] dir_map_entries sample_entries by (auto simp: fun_eq_iff)

lemma sample_synced: "synced sample_fs"
proof -
  have sb: "xv6fs_sb_to_cpu (sample_disk 1) = demo_sb"
    by (simp add: sample_disk_def xv6fs_sb_to_cpu_def xv6fs_sb_to_disk_def le32_at_array_app)
  have wf: "wf_dinode sample_reserved" "wf_dinode sample_root_slot"
    by (simp_all add: wf_dinode_def sample_reserved_def sample_root_slot_def zero_dinode_def)
  have z: "d_type (dinode_at (replicate 512 0) j) = 0" if "j < 8" for j
    using that by (simp add: dinode_at_def bytes_dinode_def get_bytes_def le16_to_cpu_def)
  have dd: "disk_dinode sample_fs i = dinode_at (sample_disk (i div 8 + 2)) (i mod 8)" for i
    by (simp add: disk_dinode_def XV6FS_IBLOCK_def XV6FS_IOFFSET_def)
  have d2: "dinode_at (sample_disk 2) j =
      (if j = 0 then sample_reserved else if j = 1 then sample_root_slot else dinode_at (replicate 512 0) j)" if "j < 8" for j
    using that wf by (simp add: sample_disk_def dinode_at_put_other)
  have "slot_synced (disk_dinode sample_fs i) (dinodes sample_fs ! i)" if "i < 16" for i
  proof (cases "i < 8")
    case True
    then have "i div 8 + 2 = 2" "i mod 8 = i" by simp_all
    then have e: "disk_dinode sample_fs i =
        (if i = 0 then sample_reserved else if i = 1 then sample_root_slot else dinode_at (replicate 512 0) i)"
      unfolding dd using d2 [OF True] by presburger
    show ?thesis using z [OF True] True that unfolding e
      by (auto simp: slot_synced_def nth_Cons' zero_dinode_def sample_reserved_def sample_root_slot_def)
  next
    case False
    then have "i div 8 = 1" using that by simp
    then have "d_type (disk_dinode sample_fs i) = 0" using z [of "i mod 8"] unfolding dd by (simp add: sample_disk_def)
    then show ?thesis using False that by (simp add: slot_synced_def nth_Cons' zero_dinode_def)
  qed
  then show ?thesis using sb by (simp add: synced_def demo_sb_def)
qed

lemma sample_store: "store_inv ref_kernel sample_fs"
proof -
  let ?w = "whole ref_kernel sample_fs"
  have bm: "bmap_inv ?w" using sample_bmap_inv by simp
  have "own_inv ?w"
    using bm sample_imap by (auto simp: own_inv_def sample_owned sample_resident split: if_splits)
  moreover have "accounted ?w"
    using sample_used by (auto simp: accounted_def sample_owned data_blocks_def intro!: exI [of _ 1])
  moreover have "inodes_ok ref_kernel ?w"
    using sample_dir by (auto simp: inodes_ok_def sample_resident inode_wf_def split: if_splits)
  moreover have t: "d_type (dinodes sample_fs ! i) = 0" if "2 \<le> i" "i < 16" for i
    using that by (simp add: nth_Cons' zero_dinode_def)
  then have "ialloc_inv sample_fs"
    by (auto simp: ialloc_inv_def itable_ok_def)
  moreover have "no_lost_inode ref_kernel sample_fs"
    by (auto simp del: upt_rec_numeral simp: no_lost_inode_def sample_resident split: if_splits)
  moreover have "clean_ok ref_kernel sample_fs"
    by (auto simp: clean_ok_def same_persistent_def sample_root_def sample_root_slot_def xv6fs_dinode_to_cpu_def
        split: if_splits)
  moreover have "mode_ok sample_fs"
    by (auto simp: mode_ok_def tables_set_def sample_root_def sample_root_slot_def xv6fs_dinode_to_cpu_def S_ISDIR_def split: if_splits)
  ultimately show ?thesis using sample_synced by (simp add: store_inv_def)
qed

text \<open>Its name space: the root with its two entries, and the reserved inode.\<close>

lemma sample_tree:
  "kinds (tree_of ref_kernel sample_fs) = [0 \<mapsto> 2, 1 \<mapsto> 1]"
  "links (tree_of ref_kernel sample_fs) = (\<lambda>i. if i = 1 then 2 else 0)"
  "ents (tree_of ref_kernel sample_fs) = (\<lambda>_. Map.empty)(1 := [dot \<mapsto> 1, dotdot \<mapsto> 1])"
proof -
  have "inode_names (whole ref_kernel sample_fs) i = ((\<lambda>_. Map.empty)(1 := [dot \<mapsto> 1, dotdot \<mapsto> 1])) i" for i
    using sample_names by (cases "i = 1") (simp_all add: inode_names_def sample_resident live_dir_inode_def)
  then show "ents (tree_of ref_kernel sample_fs) = (\<lambda>_. Map.empty)(1 := [dot \<mapsto> 1, dotdot \<mapsto> 1])"
    unfolding links_of_resident by blast
qed (auto simp: links_of_resident sample_resident fun_eq_iff)

lemma sample_vol_inv: "vol_inv ref_kernel sample_fs"
proof -
  let ?A = "tree_of ref_kernel sample_fs"
  have refs: "refs ?A i = (if i = 1 then {(1, dot), (1, dotdot)} else {})" for i
    by (auto simp: refs_def sample_tree split: if_splits)
  have edges: "edges ?A = {(1, dot), (1, dotdot)}" by (auto simp: edges_def sample_tree split: if_splits)
  have e: "[dot \<mapsto> 1, dotdot \<mapsto> (1::nat)] \<noteq> Map.empty" by (auto simp: map_ne_iff)
  have "tree_inv ?A"
    unfolding tree_inv_def refs edges using e
    by (auto simp: sample_tree dir_wf_def split: if_splits)
  then show ?thesis using sample_store by (simp add: vol_inv_def sample_tree)
qed

lemma ref_setattr_copy_ok: "setattr_copy_ok ref_kernel"
  by (simp add: setattr_copy_ok_def ref_kernel_def)

end
