(* ===== verification/Xv6fs_File.thy ===== *)
theory Xv6fs_File
  imports Xv6fs_Sample
begin

text \<open>
  Regular files, from \<^verbatim>\<open>src/inode.c\<close> (the address-space operations) and
  \<^verbatim>\<open>src/file.c\<close> (the file operations).  The driver's functions hand
  \<open>xv6fs_get_block\<close> to the kernel's page cache; the functions of the page cache
  are the record \<open>page_cache\<close>, an argument, and what they are documented to do
  with the callback is the predicate \<open>page_cache_ok\<close>.  From it follows that a
  file is an array of bytes: \<open>write\<close> stores exactly its bytes, or a prefix when
  the volume is full, and \<open>read\<close> returns what was written.

  The pages of a file and the buffers of its blocks are one store here:
  \<open>disk s b\<close> is the current contents of block \<open>b\<close>.
\<close>

section \<open>The page cache\<close>

type_synonym get_block = "nat \<Rightarrow> nat \<Rightarrow> bool \<Rightarrow> fs \<Rightarrow> (errno + bh_result) \<times> fs"

text \<open>
  The methods the VFS calls.  An inode stands for its mapping and for an open
  file; a folio is a page of 4096 bytes, given by its index.
\<close>

record address_space_operations =
  read_folio :: "nat \<Rightarrow> nat \<Rightarrow> fs \<Rightarrow> (errno + byte list) \<times> fs"
  writepages :: "nat \<Rightarrow> nat list \<Rightarrow> fs \<Rightarrow> (errno + unit) \<times> fs"
  write_begin :: "nat \<Rightarrow> nat \<Rightarrow> nat \<Rightarrow> fs \<Rightarrow> (errno + unit) \<times> fs"
  write_end :: "nat \<Rightarrow> nat \<Rightarrow> nat \<Rightarrow> nat \<Rightarrow> fs \<Rightarrow> nat \<times> fs"
  a_bmap :: "nat \<Rightarrow> nat \<Rightarrow> fs \<Rightarrow> nat \<times> fs"

record file_operations =
  read_iter :: "nat \<Rightarrow> nat \<Rightarrow> nat \<Rightarrow> fs \<Rightarrow> (errno + byte list) \<times> fs"
  write_iter :: "nat \<Rightarrow> nat \<Rightarrow> byte list \<Rightarrow> fs \<Rightarrow> (errno + nat) \<times> fs"
  fsync :: "nat \<Rightarrow> fs \<Rightarrow> (errno + unit) \<times> fs"
  mmap :: "nat \<Rightarrow> fs \<Rightarrow> (errno + unit) \<times> fs"
  llseek :: "nat \<Rightarrow> int \<Rightarrow> fs \<Rightarrow> (errno + int) \<times> fs"

text \<open>
  The kernel's functions.  Those on open files find the methods of the inode;
  here they are passed to them.
\<close>

record page_cache =
  mpage_read_folio :: "get_block \<Rightarrow> nat \<Rightarrow> nat \<Rightarrow> fs \<Rightarrow> (errno + byte list) \<times> fs"
  mpage_writepages :: "get_block \<Rightarrow> nat \<Rightarrow> nat list \<Rightarrow> fs \<Rightarrow> (errno + unit) \<times> fs"
  block_write_begin :: "get_block \<Rightarrow> nat \<Rightarrow> nat \<Rightarrow> nat \<Rightarrow> fs \<Rightarrow> (errno + unit) \<times> fs"
  generic_write_end :: "nat \<Rightarrow> nat \<Rightarrow> nat \<Rightarrow> nat \<Rightarrow> fs \<Rightarrow> nat \<times> fs"
  generic_block_bmap :: "get_block \<Rightarrow> nat \<Rightarrow> nat \<Rightarrow> fs \<Rightarrow> nat \<times> fs"
  generic_file_read_iter ::
    "address_space_operations \<Rightarrow> nat \<Rightarrow> nat \<Rightarrow> nat \<Rightarrow> fs \<Rightarrow> (errno + byte list) \<times> fs"
  generic_file_write_iter ::
    "address_space_operations \<Rightarrow> nat \<Rightarrow> nat \<Rightarrow> byte list \<Rightarrow> fs \<Rightarrow> (errno + nat) \<times> fs"
  generic_file_fsync :: "address_space_operations \<Rightarrow> nat \<Rightarrow> fs \<Rightarrow> (errno + unit) \<times> fs"
  generic_file_mmap :: "address_space_operations \<Rightarrow> nat \<Rightarrow> fs \<Rightarrow> (errno + unit) \<times> fs"
  generic_file_llseek :: "nat \<Rightarrow> int \<Rightarrow> fs \<Rightarrow> (errno + int) \<times> fs"

section \<open>Address-space operations\<close>

definition xv6fs_read_folio ::
    "page_cache \<Rightarrow> kernel \<Rightarrow> nat \<Rightarrow> nat \<Rightarrow> fs \<Rightarrow> (errno + byte list) \<times> fs" where
  "xv6fs_read_folio P K file folio s = mpage_read_folio P (xv6fs_get_block K) file folio s"

definition xv6fs_bmap :: "page_cache \<Rightarrow> kernel \<Rightarrow> nat \<Rightarrow> nat \<Rightarrow> fs \<Rightarrow> nat \<times> fs" where
  "xv6fs_bmap P K mapping block s = generic_block_bmap P (xv6fs_get_block K) mapping block s"

definition xv6fs_writepages ::
    "page_cache \<Rightarrow> kernel \<Rightarrow> nat \<Rightarrow> nat list \<Rightarrow> fs \<Rightarrow> (errno + unit) \<times> fs" where
  "xv6fs_writepages P K mapping wbc s = mpage_writepages P (xv6fs_get_block K) mapping wbc s"

definition xv6fs_write_begin ::
    "page_cache \<Rightarrow> kernel \<Rightarrow> nat \<Rightarrow> nat \<Rightarrow> nat \<Rightarrow> fs \<Rightarrow> (errno + unit) \<times> fs" where
  "xv6fs_write_begin P K mapping pos len s =
     block_write_begin P (xv6fs_get_block K) mapping pos len s"

definition xv6fs_write_end :: "page_cache \<Rightarrow> nat \<Rightarrow> nat \<Rightarrow> nat \<Rightarrow> nat \<Rightarrow> fs \<Rightarrow> nat \<times> fs" where
  "xv6fs_write_end P mapping pos len copied s = generic_write_end P mapping pos len copied s"

definition xv6fs_aops :: "page_cache \<Rightarrow> kernel \<Rightarrow> address_space_operations" where
  "xv6fs_aops P K =
     \<lparr>read_folio = xv6fs_read_folio P K, writepages = xv6fs_writepages P K,
      write_begin = xv6fs_write_begin P K, write_end = xv6fs_write_end P, a_bmap = xv6fs_bmap P K\<rparr>"

section \<open>File operations\<close>

definition xv6fs_file_write_iter ::
    "page_cache \<Rightarrow> kernel \<Rightarrow> nat \<Rightarrow> nat \<Rightarrow> byte list \<Rightarrow> fs \<Rightarrow> (errno + nat) \<times> fs" where
  "xv6fs_file_write_iter P K file pos from_iter s =
     generic_file_write_iter P (xv6fs_aops P K) file pos from_iter s"

definition xv6fs_file_fops :: "page_cache \<Rightarrow> kernel \<Rightarrow> file_operations" where
  "xv6fs_file_fops P K =
     \<lparr>read_iter = generic_file_read_iter P (xv6fs_aops P K), write_iter = xv6fs_file_write_iter P K,
      fsync = generic_file_fsync P (xv6fs_aops P K), mmap = generic_file_mmap P (xv6fs_aops P K),
      llseek = generic_file_llseek P\<rparr>"

section \<open>What the page cache does\<close>

text \<open>
  Reading a page: every block that starts before the end of the file is looked
  up, without allocation; a hole, and what lies past the end, reads as zeros.
\<close>

fun read_blocks :: "get_block \<Rightarrow> nat \<Rightarrow> nat list \<Rightarrow> fs \<Rightarrow> (errno + byte list) \<times> fs" where
  "read_blocks gb ino [] s = (Inr [], s)"
| "read_blocks gb ino (l # ls) s =
     (case (if 512 * int l < i_size (xv6fs_i s ino) then gb ino l False s else (Inr Unmapped, s)) of
        (Inl e, s1) \<Rightarrow> (Inl e, s1)
      | (Inr r, s1) \<Rightarrow>
          (case read_blocks gb ino ls s1 of
             (Inl e, s2) \<Rightarrow> (Inl e, s2)
           | (Inr ds, s2) \<Rightarrow>
               (Inr ((case r of Unmapped \<Rightarrow> replicate 512 0 | Mapped b _ \<Rightarrow> disk s1 b) @ ds), s2)))"

text \<open>
  Preparing a write: the blocks of the range are looked up in order, with
  allocation, until one fails; a new block is zeroed.
\<close>

fun map_blocks :: "get_block \<Rightarrow> nat \<Rightarrow> nat list \<Rightarrow> fs \<Rightarrow> (errno + unit) \<times> fs" where
  "map_blocks gb ino [] s = (Inr (), s)"
| "map_blocks gb ino (l # ls) s =
     (case gb ino l True s of
        (Inl e, s1) \<Rightarrow> (Inl e, s1)
      | (Inr (Mapped b True), s1) \<Rightarrow>
          map_blocks gb ino ls (mark_buffer_dirty b (b_store b (replicate 512 0) s1))
      | (Inr _, s1) \<Rightarrow> map_blocks gb ino ls s1)"

text \<open>Copying the caller's bytes into the pages: block \<open>x div 512\<close> holds byte \<open>x\<close>.\<close>

definition set_byte :: "nat \<Rightarrow> nat \<Rightarrow> byte \<Rightarrow> fs \<Rightarrow> fs" where
  "set_byte ino x v s =
     (case file_map s ino (x div 512) of
        None \<Rightarrow> s
      | Some b \<Rightarrow> mark_buffer_dirty b (b_store b ((disk s b)[x mod 512 := v]) s))"

fun copy_in :: "nat \<Rightarrow> nat \<Rightarrow> byte list \<Rightarrow> fs \<Rightarrow> fs" where
  "copy_in ino pos [] s = s"
| "copy_in ino pos (v # vs) s = copy_in ino (Suc pos) vs (set_byte ino pos v s)"

text \<open>
  A write proceeds page by page: prepare, copy, finish; it stops at the first
  error, which is returned when nothing was written.
\<close>

function perform_write ::
    "address_space_operations \<Rightarrow> nat \<Rightarrow> nat \<Rightarrow> byte list \<Rightarrow> fs \<Rightarrow> (errno + nat) \<times> fs" where
  "perform_write ops ino pos data s =
     (if data = [] then (Inr 0, s)
      else
        let n = min (4096 - pos mod 4096) (length data)
        in case write_begin ops ino pos n s of
             (Inl e, s1) \<Rightarrow> (Inl e, s1)
           | (Inr _, s1) \<Rightarrow>
               let s3 = snd (write_end ops ino pos n n (copy_in ino pos (take n data) s1))
               in case perform_write ops ino (pos + n) (drop n data) s3 of
                    (Inl e, s4) \<Rightarrow> (Inr n, s4)
                  | (Inr m, s4) \<Rightarrow> (Inr (n + m), s4))"
  by pat_completeness auto

termination
  by (relation "measure (\<lambda>(ops, ino, pos, data, s). length data)") auto

declare perform_write.simps [simp del]

text \<open>A read returns the bytes of its pages up to the end of the file.\<close>

fun read_folios :: "address_space_operations \<Rightarrow> nat \<Rightarrow> nat list \<Rightarrow> fs \<Rightarrow> (errno + byte list) \<times> fs" where
  "read_folios ops ino [] s = (Inr [], s)"
| "read_folios ops ino (p # ps) s =
     (case read_folio ops ino p s of
        (Inl e, s1) \<Rightarrow> (Inl e, s1)
      | (Inr d, s1) \<Rightarrow>
          (case read_folios ops ino ps s1 of
             (Inl e, s2) \<Rightarrow> (Inl e, s2)
           | (Inr ds, s2) \<Rightarrow> (Inr (d @ ds), s2)))"

definition pages :: "nat \<Rightarrow> nat \<Rightarrow> nat list" where
  "pages pos n = [pos div 4096..<(pos + n + 4095) div 4096]"

definition page_cache_ok :: "page_cache \<Rightarrow> bool" where
  "page_cache_ok P \<longleftrightarrow>
     (\<forall>gb ino p s. mpage_read_folio P gb ino p s = read_blocks gb ino [8 * p..<8 * p + 8] s) \<and>
     (\<forall>gb ino pos len s. block_write_begin P gb ino pos len s =
        map_blocks gb ino [pos div 512..<(pos + len + 511) div 512] s) \<and>
     (\<forall>ino pos len s. generic_write_end P ino pos len len s =
        (len, if i_size (xv6fs_i s ino) < int (pos + len)
              then mark_inode_dirty ino (set_inode ino ((xv6fs_i s ino)\<lparr>i_size := int (pos + len)\<rparr>) s)
              else s)) \<and>
     (\<forall>gb ino l s. generic_block_bmap P gb ino l s =
        (case gb ino l False s of (Inr (Mapped b _), s1) \<Rightarrow> (b, s1) | (_, s1) \<Rightarrow> (0, s1))) \<and>
     (\<forall>ops ino pos data s. int (pos + length data) \<le> 71680 \<longrightarrow>
        generic_file_write_iter P ops ino pos data s = perform_write ops ino pos data s) \<and>
     (\<forall>ops ino pos len s ds n. n = min len (nat (i_size (xv6fs_i s ino)) - pos) \<longrightarrow>
        read_folios ops ino (pages pos n) s = (Inr ds, s) \<longrightarrow>
        generic_file_read_iter P ops ino pos len s = (Inr (take n (drop (pos mod 4096) ds)), s))"

section \<open>A file as bytes\<close>

definition file_byte :: "fs \<Rightarrow> nat \<Rightarrow> nat \<Rightarrow> byte" where
  "file_byte s ino x =
     (case file_map s ino (x div 512) of None \<Rightarrow> 0 | Some b \<Rightarrow> disk s b ! (x mod 512))"

text \<open>A step on behalf of one inode that keeps its attributes other than the addresses.\<close>

definition io_step :: "nat \<Rightarrow> fs \<Rightarrow> fs \<Rightarrow> bool" where
  "io_step ino s t \<longleftrightarrow> touches ino s t \<and> same_attrs ino s t"

lemma io_step_trans [trans]: "io_step i s t \<Longrightarrow> io_step i t u \<Longrightarrow> io_step i s u"
  unfolding io_step_def using touches_trans same_attrs_trans by blast

lemma io_step_refl: "bmap_inv s \<Longrightarrow> imap_ok s i \<Longrightarrow> io_step i s s"
  by (simp add: io_step_def touches_refl same_attrs_icache)

lemma io_stepD:
  assumes "io_step i s t"
  shows "bmap_inv t" "imap_ok t i" "i_size (xv6fs_i t i) = i_size (xv6fs_i s i)"
proof -
  show "bmap_inv t" "imap_ok t i" using assms by (simp_all add: io_step_def touches_def)
  have "\<exists>a. xv6fs_i t i = (xv6fs_i s i)\<lparr>i_addrs := a\<rparr>" using assms unfolding io_step_def same_attrs_def by blast
  then show "i_size (xv6fs_i t i) = i_size (xv6fs_i s i)" by auto
qed

lemma file_byte_other:
  assumes "file_map t i = file_map s i" "\<And>l b. file_map s i l = Some b \<Longrightarrow> disk t b = disk s b"
  shows "file_byte t i = file_byte s i"
  using assms by (auto simp: file_byte_def fun_eq_iff split: option.split)

text \<open>Storing into a mapped block of the file.\<close>

lemma store_step:
  assumes "bmap_inv s" "imap_ok s i" "file_map s i l = Some b" "length d = 512"
  defines "t \<equiv> mark_buffer_dirty b (b_store b d s)"
  shows "io_step i s t" "file_map t i = file_map s i" "xv6fs_i t i = xv6fs_i s i"
    "file_byte t i x = (if x div 512 = l then d ! (x mod 512) else file_byte s i x)"
proof -
  note f = file_store [OF assms(1-4)]
  show "io_step i s t"
    using touches_b_store [OF assms(1-4)] unfolding io_step_def t_def by (simp add: same_attrs_icache)
  show m: "file_map t i = file_map s i" using f(3) by (simp add: t_def)
  show "xv6fs_i t i = xv6fs_i s i" by (simp add: t_def)
  show "file_byte t i x = (if x div 512 = l then d ! (x mod 512) else file_byte s i x)"
  proof (cases "file_map s i (x div 512)")
    case None
    then show ?thesis using assms(3) by (auto simp: file_byte_def m)
  next
    case (Some c)
    then have "c = b \<longleftrightarrow> x div 512 = l" using file_map_inj [OF assms(2)] assms(3) by auto
    then show ?thesis using Some by (simp add: file_byte_def m) (simp add: t_def)
  qed
qed

text \<open>Mapping one block, with the zeroing of a new one: no byte changes.\<close>

definition zero_new :: "bh_result \<Rightarrow> fs \<Rightarrow> fs" where
  "zero_new r s = (case r of Mapped b True \<Rightarrow> mark_buffer_dirty b (b_store b (replicate 512 0) s) | _ \<Rightarrow> s)"

lemma map_block_step:
  assumes "kernel_bitops K" "io_ok K" "bmap_inv s" "imap_ok s i" "xv6fs_get_block K i l True s = (Inr r, u)"
  shows "io_step i s (zero_new r u)" "file_byte (zero_new r u) i = file_byte s i"
    "dom (file_map (zero_new r u) i) = insert l (dom (file_map s i))"
proof -
  have "create_post s i l r u" by (rule get_block_create [OF assms(1,3,4,5)])
  then obtain b new where r: "r = Mapped b new" and m: "maps_block s i l b u"
    and n: "new \<longleftrightarrow> file_map s i l = None" "\<not> new \<Longrightarrow> u = s" by (auto simp: create_post_def)
  have fm: "file_map u i = (file_map s i)(l \<mapsto> b)" and u: "bmap_inv u" "imap_ok u i"
    using m by (simp_all add: maps_block_def)
  have st: "io_step i s u"
    using touches_get_block [OF assms(1-5)] get_block_frame [of i s K l True] assms(5)
    by (simp add: io_step_def)
  have z: "io_step i s (zero_new r u) \<and> file_map (zero_new r u) i = file_map u i \<and>
      file_byte (zero_new r u) i = file_byte s i"
  proof (cases new)
    case False
    then show ?thesis using n(2) r st by (simp add: zero_new_def)
  next
    case True
    note z = store_step [OF u, of l b "replicate 512 0"]
    have zn: "zero_new r u = mark_buffer_dirty b (b_store b (replicate 512 0) u)" using r True by (simp add: zero_new_def)
    have fb: "file_map u i l = Some b" by (simp add: fm)
    have "file_byte (zero_new r u) i x = file_byte s i x" for x
    proof (cases "x div 512 = l")
      case True
      then have "file_byte s i x = 0" using n(1) \<open>new\<close> by (simp add: file_byte_def)
      then show ?thesis using z(4) [OF fb, of x] True by (simp add: zn)
    next
      case False
      have "disk u c = disk s c" if "file_map s i (x div 512) = Some c" for c
        using m file_map_data [OF assms(4) that] file_map_not_ind [OF u(2), of "x div 512" c] False that
        by (simp add: maps_block_def)
      then have "file_byte u i x = file_byte s i x" using False by (auto simp: file_byte_def fm split: option.split)
      then show ?thesis using z(4) [OF fb, of x] False by (simp add: zn)
    qed
    then show ?thesis using z(1,2) [OF fb] st io_step_trans unfolding zn by (auto simp: fun_eq_iff)
  qed
  then show "io_step i s (zero_new r u)" "file_byte (zero_new r u) i = file_byte s i"
    "dom (file_map (zero_new r u) i) = insert l (dom (file_map s i))" by (auto simp: fm)
qed

lemma map_block_fails:
  assumes "kernel_bitops K" "io_ok K" "bmap_inv s" "imap_ok s i" "l < 140"
    and "xv6fs_get_block K i l True s = (Inl e, u)"
  shows "io_step i s u" "file_byte u i = file_byte s i" "dom (file_map u i) = dom (file_map s i)" "e \<in> {ENOSPC, EIO}"
proof -
  have "\<forall>b. sb_getblk_ok K b" using assms(2) by (simp add: io_ok_def)
  from get_block_create_Inl [OF assms(1,3,4) this assms(6)]
  have m: "map_kept s i u" and "e \<in> {ENOSPC, EIO}" using assms(5) by auto
  then show "e \<in> {ENOSPC, EIO}" by simp
  show "io_step i s u"
    using touches_get_block [OF assms(1-4,6)] get_block_frame [of i s K l True] assms(6) by (simp add: io_step_def)
  have fm: "file_map u i = file_map s i" and u: "imap_ok u i" using m by (simp_all add: map_kept_def)
  show "dom (file_map u i) = dom (file_map s i)" by (simp add: fm)
  have "disk u c = disk s c" if "file_map s i k = Some c" for k c
    using m file_map_data [OF assms(4) that] file_map_not_ind [OF u, of k c] that fm by (simp add: map_kept_def)
  then show "file_byte u i = file_byte s i" by (rule file_byte_other [OF fm])
qed

lemma map_blocks_eq:
  "map_blocks gb i (l # ls) s =
     (case gb i l True s of (Inl e, u) \<Rightarrow> (Inl e, u) | (Inr r, u) \<Rightarrow> map_blocks gb i ls (zero_new r u))"
  by (auto simp: zero_new_def split: prod.split sum.split bh_result.split bool.split)

lemma map_blocks_post:
  assumes "kernel_bitops K" "io_ok K" "bmap_inv s" "imap_ok s i" "\<forall>l \<in> set ls. l < 140"
    and "map_blocks (xv6fs_get_block K) i ls s = (r, t)"
  shows "io_step i s t \<and> file_byte t i = file_byte s i \<and> dom (file_map s i) \<subseteq> dom (file_map t i) \<and>
    (case r of Inl e \<Rightarrow> e \<in> {ENOSPC, EIO} | Inr _ \<Rightarrow> set ls \<subseteq> dom (file_map t i))"
  using assms(3-6)
proof (induction ls arbitrary: s)
  case Nil
  then show ?case by (auto simp: io_step_refl)
next
  case (Cons l ls)
  obtain x u where call: "xv6fs_get_block K i l True s = (x, u)" by fastforce
  show ?case
  proof (cases x)
    case (Inl e)
    then have "r = Inl e" "t = u" using Cons.prems(4) call by (simp_all add: map_blocks_eq del: map_blocks.simps)
    then show ?thesis
      using map_block_fails [OF assms(1,2) Cons.prems(1,2) _ call [unfolded Inl]] Cons.prems(3) by simp
  next
    case (Inr y)
    note z = map_block_step [OF assms(1,2) Cons.prems(1,2) call [unfolded Inr]]
    have "map_blocks (xv6fs_get_block K) i ls (zero_new y u) = (r, t)"
      using Cons.prems(4) call Inr by (simp add: map_blocks_eq del: map_blocks.simps)
    from Cons.IH [OF io_stepD(1,2) [OF z(1)] _ this] Cons.prems(3) show ?thesis
      using z io_step_trans [OF z(1)] by (auto split: sum.splits)
  qed
qed

section \<open>Writing\<close>

text \<open>\<open>data\<close> written at position \<open>pos\<close> over the bytes \<open>f\<close>.\<close>

definition overwrite :: "nat \<Rightarrow> byte list \<Rightarrow> (nat \<Rightarrow> byte) \<Rightarrow> nat \<Rightarrow> byte" where
  "overwrite pos data f x = (if pos \<le> x \<and> x < pos + length data then data ! (x - pos) else f x)"

lemma overwrite_Nil [simp]: "overwrite pos [] f = f"
  by (auto simp: overwrite_def fun_eq_iff)

lemma overwrite_Cons: "overwrite pos (v # vs) f = overwrite (Suc pos) vs (f(pos := v))"
proof
  fix x
  have "pos < x \<Longrightarrow> x - pos = Suc (x - Suc pos)" by simp
  then show "overwrite pos (v # vs) f x = overwrite (Suc pos) vs (f(pos := v)) x"
    by (cases "x \<le> pos") (auto simp: overwrite_def)
qed

lemma overwrite_append:
  "overwrite (pos + length xs) ys (overwrite pos xs f) = overwrite pos (xs @ ys) f"
  by (auto simp: overwrite_def fun_eq_iff nth_append)

lemma set_byte_step:
  assumes "bmap_inv s" "imap_ok s i" "x div 512 \<in> dom (file_map s i)"
  shows "io_step i s (set_byte i x v s)" "file_map (set_byte i x v s) i = file_map s i"
    "file_byte (set_byte i x v s) i = (file_byte s i)(x := v)"
proof -
  obtain b where b: "file_map s i (x div 512) = Some b" using assms(3) by blast
  have l: "length (disk s b) = 512" using assms(1) by (simp add: bmap_inv_def blocks_512_def)
  then have "length ((disk s b)[x mod 512 := v]) = 512" by simp
  note st = store_step [OF assms(1,2) b this]
  have e: "set_byte i x v s = mark_buffer_dirty b (b_store b ((disk s b)[x mod 512 := v]) s)"
    by (simp add: set_byte_def b)
  show "io_step i s (set_byte i x v s)" "file_map (set_byte i x v s) i = file_map s i"
    unfolding e by (rule st(1), rule st(2))
  show "file_byte (set_byte i x v s) i = (file_byte s i)(x := v)"
  proof
    fix y
    have "y div 512 = x div 512 \<Longrightarrow> y mod 512 = x mod 512 \<longleftrightarrow> y = x" by (metis mult_div_mod_eq)
    then show "file_byte (set_byte i x v s) i y = ((file_byte s i)(x := v)) y"
      unfolding e st(4) using b l by (auto simp: nth_list_update file_byte_def)
  qed
qed

lemma copy_in_step:
  assumes "bmap_inv s" "imap_ok s i" "\<forall>x. pos \<le> x \<and> x < pos + length data \<longrightarrow> x div 512 \<in> dom (file_map s i)"
  shows "io_step i s (copy_in i pos data s) \<and>
    file_byte (copy_in i pos data s) i = overwrite pos data (file_byte s i)"
  using assms
proof (induction data arbitrary: pos s)
  case (Cons v vs)
  have "pos div 512 \<in> dom (file_map s i)" using Cons.prems(3) [rule_format, of pos] by simp
  note sb = set_byte_step [OF Cons.prems(1,2) this, of v]
  have "\<forall>x. Suc pos \<le> x \<and> x < Suc pos + length vs \<longrightarrow> x div 512 \<in> dom (file_map (set_byte i pos v s) i)"
    using Cons.prems(3) by (simp add: sb(2))
  from Cons.IH [OF io_stepD(1,2) [OF sb(1)] this] show ?case
    using io_step_trans [OF sb(1)] unfolding sb(3) overwrite_Cons copy_in.simps by blast
qed (simp add: io_step_refl)

text \<open>
  What a write has done when \<open>data\<close> is stored at \<open>pos\<close>: the bytes, the size,
  and nothing to any other inode.
\<close>

definition written :: "nat \<Rightarrow> nat \<Rightarrow> byte list \<Rightarrow> fs \<Rightarrow> fs \<Rightarrow> bool" where
  "written i pos data s t \<longleftrightarrow>
     touches i s t \<and> file_byte t i = overwrite pos data (file_byte s i) \<and>
     (\<exists>a. xv6fs_i t i = (xv6fs_i s i)\<lparr>i_addrs := a, i_size :=
        if data = [] then i_size (xv6fs_i s i) else max (i_size (xv6fs_i s i)) (int (pos + length data))\<rparr>)"

lemma written_none:
  assumes "io_step i s t" "file_byte t i = file_byte s i" shows "written i pos [] s t"
proof -
  obtain a where "xv6fs_i t i = (xv6fs_i s i)\<lparr>i_addrs := a\<rparr>"
    using assms(1) unfolding io_step_def same_attrs_def by blast
  then show ?thesis using assms by (auto simp: written_def io_step_def)
qed

lemma written_append:
  assumes "written i pos xs s t" "written i (pos + length xs) ys t u" "xs \<noteq> []"
  shows "written i pos (xs @ ys) s u"
proof -
  have "touches i s u" using assms(1,2) touches_trans unfolding written_def by blast
  moreover have "file_byte u i = overwrite pos (xs @ ys) (file_byte s i)"
    using assms(1,2) by (simp add: written_def overwrite_append)
  moreover obtain a b where "xv6fs_i t i = (xv6fs_i s i)\<lparr>i_addrs := a, i_size := max (i_size (xv6fs_i s i)) (int (pos + length xs))\<rparr>"
    "xv6fs_i u i = (xv6fs_i t i)\<lparr>i_addrs := b, i_size :=
        if ys = [] then i_size (xv6fs_i t i) else max (i_size (xv6fs_i t i)) (int (pos + length xs + length ys))\<rparr>"
    using assms(1-3) by (auto simp: written_def)
  then have "xv6fs_i u i = (xv6fs_i s i)\<lparr>i_addrs := b, i_size := max (i_size (xv6fs_i s i)) (int (pos + length (xs @ ys)))\<rparr>"
    by auto
  ultimately show ?thesis using assms(3) unfolding written_def by auto
qed

text \<open>One page of a write.\<close>

lemma block_range: "x \<in> {pos..<pos + n} \<Longrightarrow> x div 512 \<in> set [pos div 512..<(pos + n + 511) div 512]" for x :: nat
  by (auto simp: div_le_mono less_eq_div_iff_mult_less_eq Suc_le_eq [symmetric])

lemma write_chunk:
  assumes "kernel_bitops K" "io_ok K" "page_cache_ok P" "bmap_inv s" "imap_ok s i"
    and "data \<noteq> []" "pos + length data \<le> 71680"
    and "write_begin (xv6fs_aops P K) i pos (length data) s = (r, u)"
  defines "w \<equiv> snd (write_end (xv6fs_aops P K) i pos (length data) (length data) (copy_in i pos data u))"
  shows "case r of Inl e \<Rightarrow> written i pos [] s u \<and> e \<in> {ENOSPC, EIO} | Inr _ \<Rightarrow> written i pos data s w"
proof -
  let ?n = "length data" and ?ls = "[pos div 512..<(pos + length data + 511) div 512]"
  have "map_blocks (xv6fs_get_block K) i ?ls s = (r, u)"
    using assms(3,8) by (simp add: xv6fs_aops_def xv6fs_write_begin_def page_cache_ok_def)
  moreover have "(pos + ?n + 511) div 512 \<le> 140" using assms(7) by (simp add: div_le_mono [of _ 72191 512])
  ultimately have m: "io_step i s u" "file_byte u i = file_byte s i"
    "case r of Inl e \<Rightarrow> e \<in> {ENOSPC, EIO} | Inr _ \<Rightarrow> set ?ls \<subseteq> dom (file_map u i)"
    using map_blocks_post [OF assms(1,2,4,5), of ?ls r u] by auto
  show ?thesis
  proof (cases r)
    case (Inl e)
    then show ?thesis using m written_none [OF m(1,2)] by simp
  next
    case (Inr x)
    define v where "v = copy_in i pos data u"
    have "\<forall>x. pos \<le> x \<and> x < pos + ?n \<longrightarrow> x div 512 \<in> dom (file_map u i)"
      using m(3) Inr block_range [of _ pos ?n] by fastforce
    from copy_in_step [OF io_stepD(1,2) [OF m(1)] this]
    have v: "io_step i s v" "file_byte v i = overwrite pos data (file_byte s i)"
      using io_step_trans [OF m(1)] m(2) by (simp_all add: v_def)
    obtain a where a: "xv6fs_i v i = (xv6fs_i s i)\<lparr>i_addrs := a\<rparr>"
      using v(1) unfolding io_step_def same_attrs_def by blast
    have w: "w = (if i_size (xv6fs_i v i) < int (pos + ?n)
        then mark_inode_dirty i (set_inode i ((xv6fs_i v i)\<lparr>i_size := int (pos + ?n)\<rparr>) v) else v)"
      using assms(3) by (simp add: w_def xv6fs_aops_def xv6fs_write_end_def page_cache_ok_def v_def)
    let ?ei = "(xv6fs_i v i)\<lparr>i_size := int (pos + ?n)\<rparr>"
    have ad: "i_addrs ?ei = i_addrs (xv6fs_i v i)" by simp
    have "touches i v (mark_inode_dirty i (set_inode i ?ei v))"
      by (rule touches_set_inode [OF ad io_stepD(1,2) [OF v(1)]])
    moreover have "file_byte (mark_inode_dirty i (set_inode i ?ei v)) i = file_byte v i"
      using inode_views_set_inode(8) [OF ad] by (intro file_byte_other) (simp, simp add: inode_defs)
    ultimately have "touches i s w" "file_byte w i = overwrite pos data (file_byte s i)"
      using v touches_trans unfolding w io_step_def by auto
    moreover have "xv6fs_i w i = (xv6fs_i s i)\<lparr>i_addrs := a, i_size := max (i_size (xv6fs_i s i)) (int (pos + ?n))\<rparr>"
      by (auto simp: w a)
    ultimately show ?thesis using Inr assms(6) by (auto simp: written_def)
  qed
qed

lemma written_invD: "written i pos data s t \<Longrightarrow> bmap_inv t \<and> imap_ok t i"
  by (auto simp: written_def touches_def)

lemma perform_write_post:
  assumes "kernel_bitops K" "io_ok K" "page_cache_ok P" "bmap_inv s" "imap_ok s i"
    and "pos + length data \<le> 71680" "perform_write (xv6fs_aops P K) i pos data s = (r, t)"
  shows "case r of Inl e \<Rightarrow> written i pos [] s t \<and> e \<in> {ENOSPC, EIO}
    | Inr n \<Rightarrow> n \<le> length data \<and> written i pos (take n data) s t \<and> (n = 0 \<longrightarrow> data = [])"
  using assms(4-7)
proof (induction "length data" arbitrary: pos data s r rule: less_induct)
  case less
  show ?case
  proof (cases "data = []")
    case True
    then have "r = Inr 0" "t = s" using less.prems(4) by (simp_all add: perform_write.simps [of _ _ _ "[]"])
    then show ?thesis using True written_none [OF io_step_refl [OF less.prems(1,2)]] by simp
  next
    case False
    define n where "n = min (4096 - pos mod 4096) (length data)"
    have n: "0 < n" "n \<le> length data" using False by (simp_all add: n_def)
    let ?d = "take n data"
    have len: "length ?d = n" "?d \<noteq> []" using n by auto
    obtain x u where b: "write_begin (xv6fs_aops P K) i pos n s = (x, u)" by fastforce
    let ?w = "snd (write_end (xv6fs_aops P K) i pos n n (copy_in i pos ?d u))"
    have le: "pos + length ?d \<le> 71680" using less.prems(3) n by simp
    note c = write_chunk [OF assms(1-3) less.prems(1,2) len(2) le, of x u, unfolded len(1), OF b]
    have eq: "perform_write (xv6fs_aops P K) i pos data s = (case x of Inl e \<Rightarrow> (Inl e, u)
        | Inr _ \<Rightarrow> (case perform_write (xv6fs_aops P K) i (pos + n) (drop n data) ?w of
             (Inl e, s4) \<Rightarrow> (Inr n, s4) | (Inr m, s4) \<Rightarrow> (Inr (n + m), s4)))"
      by (subst perform_write.simps) (simp add: False b Let_def flip: n_def split: sum.split)
    show ?thesis
    proof (cases x)
      case (Inl e)
      then show ?thesis using c eq less.prems(4) by auto
    next
      case (Inr y)
      then have cw: "written i pos ?d s ?w" using c by simp
      obtain r' where rec: "perform_write (xv6fs_aops P K) i (pos + n) (drop n data) ?w = (r', t)"
        and r: "r = (case r' of Inl e \<Rightarrow> Inr n | Inr m \<Rightarrow> Inr (n + m))"
        using less.prems(4) eq Inr by (auto split: prod.splits sum.splits)
      have "length (drop n data) < length data" "pos + n + length (drop n data) \<le> 71680" using n less.prems(3) by simp_all
      from less.hyps [OF this(1) _ _ this(2) rec] written_invD [OF cw]
      have ih: "case r' of Inl e \<Rightarrow> written i (pos + n) [] ?w t \<and> e \<in> {ENOSPC, EIO}
        | Inr m \<Rightarrow> m \<le> length (drop n data) \<and> written i (pos + n) (take m (drop n data)) ?w t" by (auto split: sum.splits)
      have wa: "written i pos (?d @ ys) s t" if "written i (pos + n) ys ?w t" for ys
        using written_append [OF cw _ len(2), of ys t] that unfolding len(1) .
      show ?thesis
      proof (cases r')
        case (Inl e)
        then show ?thesis using ih wa [of "[]"] r n by simp
      next
        case (Inr m)
        then show ?thesis using ih wa [of "take m (drop n data)"] r n by (auto simp: take_add)
      qed
    qed
  qed
qed

section \<open>Reading\<close>

text \<open>The bytes of a page: zeros past the block that holds the end of the file.\<close>

definition page_byte :: "fs \<Rightarrow> nat \<Rightarrow> nat \<Rightarrow> byte" where
  "page_byte s i x = (if 512 * int (x div 512) < i_size (xv6fs_i s i) then file_byte s i x else 0)"

lemma page_byte_inside: "int x < i_size (xv6fs_i s i) \<Longrightarrow> page_byte s i x = file_byte s i x"
proof -
  assume "int x < i_size (xv6fs_i s i)"
  moreover have "512 * (x div 512) \<le> x" by simp
  ultimately have "512 * int (x div 512) < i_size (xv6fs_i s i)" by linarith
  then show ?thesis by (simp add: page_byte_def)
qed

lemma map_block_bytes:
  assumes "length d = 512" "\<And>k. k < 512 \<Longrightarrow> f (512 * l + k) = d ! k"
  shows "map f [512 * l..<512 * l + 512] = d"
  using assms by (intro nth_equalityI) simp_all

lemma read_blocks_post:
  assumes "io_ok K" "bmap_inv s" "\<forall>l \<in> set ls. l < 140 \<or> i_size (xv6fs_i s i) \<le> 512 * int l"
  shows "read_blocks (xv6fs_get_block K) i ls s =
    (Inr (concat (map (\<lambda>l. map (page_byte s i) [512 * l..<512 * l + 512]) ls)), s)"
  using assms(3)
proof (induction ls)
  case (Cons l ls)
  then have ih: "read_blocks (xv6fs_get_block K) i ls s =
    (Inr (concat (map (\<lambda>l. map (page_byte s i) [512 * l..<512 * l + 512]) ls)), s)" by simp
  show ?case
  proof (cases "512 * int l < i_size (xv6fs_i s i)")
    case False
    then have "map (page_byte s i) [512 * l..<512 * l + 512] = replicate 512 0"
      by (intro map_block_bytes) (simp_all add: page_byte_def)
    then show ?thesis using False ih by simp
  next
    case True
    then have l: "l < 140" using Cons.prems by simp
    let ?r = "case file_map s i l of None \<Rightarrow> Unmapped | Some b \<Rightarrow> Mapped b False"
    have "xv6fs_get_block K i l False s = (Inr ?r, s)"
      using get_block_lookup [of K i l s] l assms(1) by (simp add: opt_result_def io_ok_def)
    moreover have "map (page_byte s i) [512 * l..<512 * l + 512] =
        (case file_map s i l of None \<Rightarrow> replicate 512 0 | Some b \<Rightarrow> disk s b)"
      using True assms(2)
      by (intro map_block_bytes)
        (auto simp: page_byte_def file_byte_def bmap_inv_def blocks_512_def split: option.split)
    ultimately show ?thesis using True ih by (simp split: option.split)
  qed
qed simp

lemma concat_blocks:
  "concat (map (\<lambda>l. map f [512 * l..<512 * l + 512]) [a..<b]) = map f [512 * a..<512 * b]" if "a \<le> b" for a b :: nat
  using that
proof (induction b rule: dec_induct)
  case (step b)
  have "[512 * a..<512 * Suc b] = [512 * a..<512 * b] @ [512 * b..<512 * b + 512]"
    using upt_add_eq_append [of "512 * a" "512 * b" 512] step(1) by (simp add: add.commute)
  then show ?case using step by simp
qed simp

lemma read_folio_post:
  assumes "io_ok K" "page_cache_ok P" "bmap_inv s" "i_size (xv6fs_i s i) \<le> 71680"
  shows "read_folio (xv6fs_aops P K) i p s = (Inr (map (page_byte s i) [4096 * p..<4096 * p + 4096]), s)"
proof -
  have "l < 140 \<or> i_size (xv6fs_i s i) \<le> 512 * int l" for l using assms(4) by linarith
  then have "read_blocks (xv6fs_get_block K) i [8 * p..<8 * p + 8] s =
      (Inr (map (page_byte s i) [512 * (8 * p)..<512 * (8 * p + 8)]), s)"
    using read_blocks_post [OF assms(1,3), of "[8 * p..<8 * p + 8]" i]
      concat_blocks [of "8 * p" "8 * p + 8" "page_byte s i"] by simp
  then show ?thesis using assms(2)
    by (simp add: xv6fs_aops_def xv6fs_read_folio_def page_cache_ok_def add_mult_distrib2)
qed

lemma read_folios_post:
  assumes "io_ok K" "page_cache_ok P" "bmap_inv s" "i_size (xv6fs_i s i) \<le> 71680" "a \<le> b"
  shows "read_folios (xv6fs_aops P K) i [a..<b] s = (Inr (map (page_byte s i) [4096 * a..<4096 * b]), s)"
  using assms(5)
proof (induction rule: inc_induct)
  case (step a)
  have "[4096 * a..<4096 * b] = [4096 * a..<4096 * a + 4096] @ [4096 * Suc a..<4096 * b]"
    using upt_add_eq_append [of "4096 * a" "4096 * a + 4096" "4096 * b - (4096 * a + 4096)"] step(2)
    by (simp add: add.commute)
  then show ?case using step read_folio_post [OF assms(1-4), of a] upt_conv_Cons [of a b] by simp
qed simp

lemma read_file:
  assumes "io_ok K" "page_cache_ok P" "bmap_inv s" "i_size (xv6fs_i s i) \<le> 71680"
  shows "generic_file_read_iter P (xv6fs_aops P K) i pos len s =
    (Inr (map (file_byte s i) [pos..<pos + min len (nat (i_size (xv6fs_i s i)) - pos)]), s)"
proof -
  define n where "n = min len (nat (i_size (xv6fs_i s i)) - pos)"
  let ?a = "pos div 4096" and ?b = "(pos + n + 4095) div 4096"
  have ab: "?a \<le> ?b" by (rule div_le_mono) simp
  note rd = read_folios_post [OF assms ab, folded pages_def]
  have "generic_file_read_iter P (xv6fs_aops P K) i pos len s =
      (Inr (take n (drop (pos mod 4096) (map (page_byte s i) [4096 * ?a..<4096 * ?b]))), s)"
    using assms(2) rd n_def unfolding page_cache_ok_def by blast
  moreover have "take n (drop (pos mod 4096) (map (page_byte s i) [4096 * ?a..<4096 * ?b])) =
      map (page_byte s i) [pos..<pos + n]"
  proof -
    have "4096 * ?a + pos mod 4096 = pos" by simp
    moreover have "pos + n \<le> 4096 * ?b" by linarith
    ultimately show ?thesis by (simp add: drop_map take_map drop_upt take_upt)
  qed
  moreover have "map (page_byte s i) [pos..<pos + n] = map (file_byte s i) [pos..<pos + n]"
  proof (rule map_cong [OF refl], rule page_byte_inside)
    fix x assume "x \<in> set [pos..<pos + n]"
    then show "int x < i_size (xv6fs_i s i)" by (auto simp: n_def)
  qed
  ultimately show ?thesis by (simp add: n_def)
qed

lemma file_bmap:
  assumes "io_ok K" "page_cache_ok P"
  shows "a_bmap (xv6fs_aops P K) i l s = (case file_map s i l of None \<Rightarrow> 0 | Some b \<Rightarrow> b, s)"
proof -
  have "140 \<le> l \<Longrightarrow> file_map s i l = None" by (simp add: file_map_def)
  then show ?thesis
    using assms get_block_lookup [of K i l s]
    by (auto simp: xv6fs_aops_def xv6fs_bmap_def page_cache_ok_def opt_result_def io_ok_def split: option.split)
qed

section \<open>Properties\<close>

text \<open>A file whose blocks were not written has the bytes it had.\<close>

lemma frame_file_byte:
  assumes "own_inv s" "own_frame i s t" "j \<in> dom (icache s)" "j \<noteq> i"
  shows "file_byte t j = file_byte s j"
proof -
  have im: "imap_ok s j" and dj: "owned s j \<inter> owned s i = {}" using assms(1,3,4) by (simp_all add: own_inv_def)
  have "disk t b = disk s b" if "file_map s j l = Some b" for l b
  proof -
    have "b \<in> owned s j" using file_map_in_blocks [of s j l b] that im owned_imap [OF im] by (simp add: imap_ok_def)
    then have "b \<in> data_blocks s" "block_used s b" "b \<notin> owned s i" using im owned_imap [OF im] dj by (auto simp: imap_ok_def)
    then show ?thesis using assms(2) by (simp add: own_frame_def)
  qed
  then show ?thesis using other_kept(6) [OF assms(2,4) im dj] by (intro file_byte_other)
qed

text \<open>The other files do not see a write.\<close>

lemma written_own:
  assumes "own_inv s" "written i pos data s t"
  shows "own_inv t" "j \<in> dom (icache s) \<Longrightarrow> j \<noteq> i \<Longrightarrow> xv6fs_i t j = xv6fs_i s j \<and> file_byte t j = file_byte s j"
proof -
  have f: "own_frame i s t" "bmap_inv t" "imap_ok t i" using assms(2) by (simp_all add: written_def touches_def)
  show "own_inv t" by (rule own_inv_step [OF assms(1) f(1,2)]) (rule f(3))
  show "j \<in> dom (icache s) \<Longrightarrow> j \<noteq> i \<Longrightarrow> xv6fs_i t j = xv6fs_i s j \<and> file_byte t j = file_byte s j"
    using f(1) frame_file_byte [OF assms(1) f(1)] by (simp add: own_frame_def xv6fs_i_def)
qed

lemma file_write_written:
  assumes "kernel_bitops K" "io_ok K" "page_cache_ok P" "own_inv s" "i \<in> dom (icache s)"
    and "pos + length data \<le> XV6FS_MAXFILE * XV6FS_BSIZE"
    and "write_iter (xv6fs_file_fops P K) i pos data s = (r, t)"
  shows "case r of Inl e \<Rightarrow> written i pos [] s t \<and> e \<in> {ENOSPC, EIO}
    | Inr n \<Rightarrow> n \<le> length data \<and> written i pos (take n data) s t \<and> (n = 0 \<longrightarrow> data = [])"
proof (rule perform_write_post [OF assms(1-3)])
  show "bmap_inv s" "imap_ok s i" using assms(4,5) by (simp_all add: own_inv_def)
  show le: "pos + length data \<le> 71680" using assms(6) by simp
  then have "int (pos + length data) \<le> 71680" by linarith
  then show "perform_write (xv6fs_aops P K) i pos data s = (r, t)"
    using assms(3,7) unfolding page_cache_ok_def by (simp add: xv6fs_file_fops_def xv6fs_file_write_iter_def)
qed

text \<open>A write keeps the volume consistent and does not touch the name space.\<close>

lemma store_write:
  assumes "kernel_bitops K" "io_ok K" "page_cache_ok P" "store_inv K s" "i \<in> dom (icache s)"
    and "i_type (xv6fs_i s i) \<noteq> XV6FS_T_DIR" "pos + length data \<le> XV6FS_MAXFILE * XV6FS_BSIZE"
    and "write_iter (xv6fs_file_fops P K) i pos data s = (r, t)"
  shows "store_inv K t" "tree_of K t = tree_of K s"
proof -
  have own: "own_inv s" using store_vol_ok [OF assms(4)] by (simp add: vol_ok_def)
  have "\<exists>ys. written i pos ys s t \<and> length ys \<le> length data"
    using file_write_written [OF assms(1-3) own assms(5,7,8)] by (cases r) auto
  then obtain ys a where w: "written i pos ys s t" "length ys \<le> length data"
    and x: "xv6fs_i t i = (xv6fs_i s i)\<lparr>i_addrs := a, i_size :=
      if ys = [] then i_size (xv6fs_i s i) else max (i_size (xv6fs_i s i)) (int (pos + length ys))\<rparr>"
    unfolding written_def by blast
  have t: "touches i s t" using w(1) by (simp add: written_def)
  have "inode_wf (xv6fs_i s i)" by (rule cached_facts(1) [OF assms(4,5)])
  then have z: "0 \<le> i_size (xv6fs_i t i)" "i_size (xv6fs_i t i) < 4294967296"
    using assms(7) w(2) unfolding x inode_wf_def by (simp_all add: le_max_iff_disj)
  have e: "i_type (xv6fs_i t i) = i_type (xv6fs_i s i)" "i_nlink (xv6fs_i t i) = i_nlink (xv6fs_i s i)"
    "tables_set (xv6fs_i t i)" using cached_facts(2) [OF assms(4,5)] unfolding x by simp_all
  show "store_inv K t" "tree_of K t = tree_of K s" by (rule touch_file [OF assms(4-6) t e z])+
qed

text \<open>
  C4: A regular file is an array of bytes.  A write that ends at or before the
  largest size a file can have either stores a prefix of its bytes, the whole
  of them unless the volume is full or a read fails, and extends the size to
  their end, or stores nothing; every other byte of the file, every other file
  and the ownership of blocks stay as they were.
\<close>

theorem file_write_correct:
  assumes "kernel_bitops K" "io_ok K" "page_cache_ok P" "own_inv s" "i \<in> dom (icache s)"
    and "pos + length data \<le> XV6FS_MAXFILE * XV6FS_BSIZE"
    and "write_iter (xv6fs_file_fops P K) i pos data s = (r, t)"
  shows "own_inv t \<and>
    (\<forall>j \<in> dom (icache s) - {i}. xv6fs_i t j = xv6fs_i s j \<and> file_byte t j = file_byte s j) \<and>
    (case r of
       Inl e \<Rightarrow> e \<in> {ENOSPC, EIO} \<and> file_byte t i = file_byte s i \<and> i_size (xv6fs_i t i) = i_size (xv6fs_i s i)
     | Inr n \<Rightarrow> n \<le> length data \<and> (n = 0 \<longrightarrow> data = []) \<and>
         (\<forall>x. file_byte t i x = (if pos \<le> x \<and> x < pos + n then data ! (x - pos) else file_byte s i x)) \<and>
         i_size (xv6fs_i t i) = (if n = 0 then i_size (xv6fs_i s i) else max (i_size (xv6fs_i s i)) (int (pos + n))))"
proof -
  note w = file_write_written [OF assms]
  obtain ys where ys: "written i pos ys s t" using w by (auto split: sum.splits)
  show ?thesis
  proof (cases r)
    case (Inl e)
    then show ?thesis using w written_own [OF assms(4) ys] by (auto simp: written_def)
  next
    case (Inr n)
    then have n: "n \<le> length data" "written i pos (take n data) s t" "n = 0 \<longrightarrow> data = []" using w by simp_all
    then have "take n data = [] \<longleftrightarrow> n = 0" by auto
    then show ?thesis using n written_own [OF assms(4) ys] Inr by (auto simp: written_def overwrite_def min_def)
  qed
qed

text \<open>The page cache as documented, executable.\<close>

definition ref_page_cache :: page_cache where
  "ref_page_cache =
     \<lparr>mpage_read_folio = (\<lambda>gb ino p. read_blocks gb ino [8 * p..<8 * p + 8]),
      mpage_writepages = (\<lambda>gb ino ls. map_blocks gb ino ls),
      block_write_begin = (\<lambda>gb ino pos len. map_blocks gb ino [pos div 512..<(pos + len + 511) div 512]),
      generic_write_end = (\<lambda>ino pos len copied s.
        (copied, if i_size (xv6fs_i s ino) < int (pos + copied)
                 then mark_inode_dirty ino (set_inode ino ((xv6fs_i s ino)\<lparr>i_size := int (pos + copied)\<rparr>) s)
                 else s)),
      generic_block_bmap = (\<lambda>gb ino l s.
        (case gb ino l False s of (Inr (Mapped b _), s1) \<Rightarrow> (b, s1) | (_, s1) \<Rightarrow> (0, s1))),
      generic_file_read_iter = (\<lambda>ops ino pos len s.
        let n = min len (nat (i_size (xv6fs_i s ino)) - pos)
        in case read_folios ops ino (pages pos n) s of
             (Inl e, s1) \<Rightarrow> (Inl e, s1)
           | (Inr ds, s1) \<Rightarrow> (Inr (take n (drop (pos mod 4096) ds)), s1)),
      generic_file_write_iter = perform_write,
      generic_file_fsync = (\<lambda>_ _ s. (Inr (), s)), generic_file_mmap = (\<lambda>_ _ s. (Inr (), s)),
      generic_file_llseek = (\<lambda>_ off s. (Inr off, s))\<rparr>"

lemma ref_page_cache_ok: "page_cache_ok ref_page_cache"
  by (simp add: page_cache_ok_def ref_page_cache_def Let_def)

text \<open>The example volume with a new empty file.\<close>

definition demo_file :: fs where
  "demo_file = snd (xv6fs_new_inode ref_kernel 0x8000 demo_fs)"

lemma demo_file_ok: "own_inv demo_file" "2 \<in> dom (icache demo_file)" "i_size (xv6fs_i demo_file 2) = 0"
proof -
  have new: "xv6fs_new_inode ref_kernel 0x8000 demo_fs = (Inr 2, demo_file)"
    by (simp add: demo_file_def xv6fs_new_inode_def demo_fs_def upt_conv_Cons)
  note n = vol_new_inode [OF demo_vol_ok new]
  show "own_inv demo_file" using n(1) by (simp add: vol_ok_def)
  show "2 \<in> dom (icache demo_file)" using n(6) by (simp add: imap_ok_def)
  show "i_size (xv6fs_i demo_file 2) = 0"
    using new_inode_Inr(3) [OF new] by (simp add: new_inode_fields_def Let_def)
qed

theorem file_write_correct_witness:
  "\<exists>r t. write_iter (xv6fs_file_fops ref_page_cache ref_kernel) 2 510 [1, 2, 3] demo_file = (r, t) \<and> own_inv t \<and>
     file_byte t 1 = file_byte demo_file 1"
proof -
  obtain r t where w: "write_iter (xv6fs_file_fops ref_page_cache ref_kernel) 2 510 [1, 2, 3] demo_file = (r, t)"
    by fastforce
  have "1 \<in> dom (icache demo_file)"
    by (auto simp: demo_file_def xv6fs_new_inode_def demo_fs_def upt_conv_Cons inode_defs)
  then show ?thesis
    using file_write_correct [OF ref_kernel_bitops ref_io_ok ref_page_cache_ok demo_file_ok(1,2) _ w] w by auto
qed

text \<open>
  C6: What a write stored can be read back: reading as many bytes as the write
  reported, at the same position, returns them, and changes nothing.
\<close>

theorem write_read_roundtrip:
  assumes "kernel_bitops K" "io_ok K" "page_cache_ok P" "own_inv s" "i \<in> dom (icache s)"
    and "pos + length data \<le> XV6FS_MAXFILE * XV6FS_BSIZE" "i_size (xv6fs_i s i) \<le> 71680"
    and "write_iter (xv6fs_file_fops P K) i pos data s = (Inr n, t)"
  shows "read_iter (xv6fs_file_fops P K) i pos n t = (Inr (take n data), t)"
proof -
  have n: "n \<le> length data" "written i pos (take n data) s t" using file_write_written [OF assms(1-6,8)] by simp_all
  then have z: "i_size (xv6fs_i t i) = (if n = 0 then i_size (xv6fs_i s i) else max (i_size (xv6fs_i s i)) (int (pos + n)))"
    and f: "file_byte t i = overwrite pos (take n data) (file_byte s i)" by (auto simp: written_def min_def)
  have "bmap_inv t" using written_invD [OF n(2)] by simp
  moreover have "i_size (xv6fs_i t i) \<le> 71680" using z assms(6,7) n(1) by auto
  ultimately have "read_iter (xv6fs_file_fops P K) i pos n t =
      (Inr (map (file_byte t i) [pos..<pos + min n (nat (i_size (xv6fs_i t i)) - pos)]), t)"
    using read_file [OF assms(2,3)] by (simp add: xv6fs_file_fops_def)
  moreover have "min n (nat (i_size (xv6fs_i t i)) - pos) = n" using z by (cases "n = 0") auto
  moreover have "map (file_byte t i) [pos..<pos + n] = take n data"
    using n(1) by (intro nth_equalityI) (simp_all add: f overwrite_def)
  ultimately show ?thesis by simp
qed

lemma demo_file_write:
  "\<exists>t. write_iter (xv6fs_file_fops ref_page_cache ref_kernel) 2 0 [1, 2, 3] demo_file = (Inr 3, t)"
proof -
  have d: "disk demo_file = disk demo_fs" "raw_sb demo_file = demo_sb" "i_addrs (xv6fs_i demo_file 2) = replicate 13 0"
    by (auto simp: demo_file_def xv6fs_new_inode_def demo_fs_def upt_conv_Cons inode_defs new_inode_fields_def Let_def)
  have "ref_find_next_zero_bit_le (replicate 512 0) 100 6 = 6"
    by (simp add: ref_find_next_zero_bit_le_def upt_conv_Cons test_bit_le_def)
  then obtain u where bal: "xv6fs_balloc ref_kernel demo_file = (Inr 6, u)"
    by (simp add: xv6fs_balloc_def balloc_loop.simps Let_def buffer_defs ref_kernel_def
        XV6FS_BBLOCK_def XV6FS_BOFFSET_def d)
  have "\<exists>v. xv6fs_get_block ref_kernel 2 0 True demo_file = (Inr (Mapped 6 True), v)"
    by (simp add: xv6fs_get_block_def Let_def d(3) bal)
  then have "\<exists>v. write_begin (xv6fs_aops ref_page_cache ref_kernel) 2 0 3 demo_file = (Inr (), v)"
    by (auto simp: xv6fs_aops_def xv6fs_write_begin_def ref_page_cache_def)
  then obtain v where "write_begin (xv6fs_aops ref_page_cache ref_kernel) 2 0 3 demo_file = (Inr (), v)" ..
  then have "\<exists>t. perform_write (xv6fs_aops ref_page_cache ref_kernel) 2 0 [1, 2, 3] demo_file = (Inr 3, t)"
    by (subst perform_write.simps) (simp add: perform_write.simps [of _ _ _ "[]"] Let_def numeral_3_eq_3)
  then show ?thesis
    by (simp add: xv6fs_file_fops_def xv6fs_file_write_iter_def) (simp add: ref_page_cache_def)
qed

theorem write_read_roundtrip_witness:
  "\<exists>t. write_iter (xv6fs_file_fops ref_page_cache ref_kernel) 2 0 [1, 2, 3] demo_file = (Inr 3, t) \<and>
     read_iter (xv6fs_file_fops ref_page_cache ref_kernel) 2 0 3 t = (Inr [1, 2, 3], t)"
proof -
  obtain t where w: "write_iter (xv6fs_file_fops ref_page_cache ref_kernel) 2 0 [1, 2, 3] demo_file = (Inr 3, t)"
    using demo_file_write by blast
  show ?thesis
    using write_read_roundtrip [OF ref_kernel_bitops ref_io_ok ref_page_cache_ok demo_file_ok(1,2) _ _ w] w demo_file_ok(3)
    by auto
qed

end
