(* ===== verification/Xv6fs_Super.thy ===== *)
theory Xv6fs_Super
  imports Xv6fs_Itable
begin

text \<open>
  Mounting, unmounting and statistics, from \<^verbatim>\<open>src/super.c\<close>:
  \<open>xv6fs_fill_super\<close> with its cleanup path, \<open>xv6fs_release_sbi\<close>,
  \<open>xv6fs_put_super\<close> and \<open>xv6fs_statfs\<close>.

  The state of a mount is the VFS super block: the driver's part is the
  record \<open>fs\<close> of the other theories, to which the buffer \<open>sbi->bh\<close> and the
  number of \<open>xv6fs_sb_info\<close> structures that are allocated are added, so that
  what a failed mount leaves behind can be stated.
\<close>

section \<open>Mounting and unmounting\<close>

record super_block =
  sb_fs :: fs
  s_fs_info :: bool
  sbi_bh :: bool
  sbi_allocs :: int
  s_magic :: u32
  s_op :: bool
  s_maxbytes :: int
  s_time_gran :: nat
  s_root :: "nat option"

abbreviation zero_sb :: xv6fs_superblock where
  "zero_sb \<equiv> \<lparr>sb_magic = 0, sb_size = 0, sb_nblocks = 0, sb_ninodes = 0, sb_nlog = 0,
             sb_logstart = 0, sb_inodestart = 0, sb_bmapstart = 0\<rparr>"

text \<open>A structure fresh from \<open>kzalloc\<close>.\<close>

definition alloc_sbi :: "super_block \<Rightarrow> super_block" where
  "alloc_sbi m =
     m\<lparr>sb_fs := (sb_fs m)\<lparr>raw_sb := zero_sb, dinodes := [], free_inodes_list := [], free_inodes := 0\<rparr>,
       sbi_bh := False, sbi_allocs := sbi_allocs m + 1\<rparr>"

definition xv6fs_release_sbi :: "super_block \<Rightarrow> super_block" where
  "xv6fs_release_sbi m =
     (let m1 = (if sbi_bh m then m\<lparr>sb_fs := brelse (sb_fs m), sbi_bh := False\<rparr> else m)
      in m1\<lparr>sbi_allocs := sbi_allocs m1 - 1\<rparr>)"

definition xv6fs_put_super :: "super_block \<Rightarrow> super_block" where
  "xv6fs_put_super m =
     (xv6fs_release_sbi (m\<lparr>sb_fs := xv6fs_release_dinodes (sb_fs m)\<rparr>))\<lparr>s_fs_info := False\<rparr>"

definition cleanup_sbi :: "super_block \<Rightarrow> super_block" where
  "cleanup_sbi m =
     xv6fs_release_sbi (m\<lparr>sb_fs := xv6fs_release_dinodes (sb_fs m), s_fs_info := False\<rparr>)"

text \<open>Step 6 of the mount and what follows it.\<close>

definition fill_root :: "kernel \<Rightarrow> super_block \<Rightarrow> (errno + unit) \<times> super_block" where
  "fill_root K m =
     (let m1 = m\<lparr>s_magic := sb_magic (raw_sb (sb_fs m)), s_op := True,
                 s_maxbytes := int XV6FS_MAXFILE * int XV6FS_BSIZE, s_time_gran := 1\<rparr>
      in case xv6fs_load_dinodes K (sb_fs m1) of
           (Inl e, s2) \<Rightarrow> (Inl e, cleanup_sbi (m1\<lparr>sb_fs := s2\<rparr>))
         | (Inr _, s2) \<Rightarrow>
             (case xv6fs_iget K XV6FS_ROOTINO s2 of
                (Inl e, s3) \<Rightarrow> (Inl e, cleanup_sbi (m1\<lparr>sb_fs := s3\<rparr>))
              | (Inr rooti, s3) \<Rightarrow>
                  if \<not> d_make_root_ok K
                  then (Inl ENOMEM, cleanup_sbi (m1\<lparr>sb_fs := iput_last K rooti s3, s_root := None\<rparr>))
                  else (Inr (), m1\<lparr>sb_fs := s3, s_root := Some rooti\<rparr>)))"

definition xv6fs_fill_super :: "kernel \<Rightarrow> super_block \<Rightarrow> (errno + unit) \<times> super_block" where
  "xv6fs_fill_super K m =
     (if \<not> kzalloc_ok K then (Inl ENOMEM, m)
      else
        let m1 = alloc_sbi m
        in if \<not> set_blocksize_ok K then (Inl EINVAL, m1)
           else case sb_bread K (sb_fs m1) 1 of
                  None \<Rightarrow> (Inl EIO, m1)
                | Some s2 \<Rightarrow>
                    let raw = xv6fs_sb_to_cpu (disk s2 1);
                        m3 = m1\<lparr>sb_fs := s2\<lparr>raw_sb := raw\<rparr>, sbi_bh := True, s_fs_info := True\<rparr>
                    in if sb_magic raw \<noteq> XV6FS_MAGIC then (Inl EINVAL, cleanup_sbi m3)
                       else fill_root K m3)"

section \<open>Statistics\<close>

record kstatfs =
  f_type :: u64
  f_bsize :: nat
  f_blocks :: u64
  f_bfree :: u64
  f_bavail :: u64
  f_files :: u64
  f_ffree :: u64
  f_namelen :: nat
  f_flags :: nat

text \<open>The negative error number \<open>-EIO\<close> of a failed count is stored as it is.\<close>

fun stat_count :: "errno + u64 \<Rightarrow> u64" where
  "stat_count (Inr n) = n"
| "stat_count (Inl e) = - 5"

definition xv6fs_statfs :: "kernel \<Rightarrow> fs \<Rightarrow> kstatfs \<times> fs" where
  "xv6fs_statfs K s =
     (case xv6fs_b_count_free K s of
        (bfree, s1) \<Rightarrow>
          (case xv6fs_b_count_free K s1 of
             (bavail, s2) \<Rightarrow>
               (\<lparr>f_type = ucast (sb_magic (raw_sb s)), f_bsize = XV6FS_BSIZE,
                 f_blocks = ucast (sb_nblocks (raw_sb s)),
                 f_bfree = stat_count bfree, f_bavail = stat_count bavail,
                 f_files = ucast (sb_ninodes (raw_sb s)), f_ffree = ucast (free_inodes s2),
                 f_namelen = XV6FS_DIRSIZ, f_flags = 0x400 + 0x800 + 0x8 + 0x2\<rparr>, s2)))"

section \<open>What the steps keep\<close>

lemma iput_last_holds: "holds (iput_last K ino s) = holds s"
proof (cases "i_nlink (xv6fs_i s ino) = 0 \<and> 0 < ino")
  case True
  then show ?thesis using evict_unlinked(5) [where s = s and ino = ino and K = K]
    by (simp add: iput_last_def Let_def)
next
  case False
  then show ?thesis by (auto simp: iput_last_def evict_linked)
qed

lemma iget_holds: "holds (snd (xv6fs_iget K ino s)) = holds s"
  by (auto simp: xv6fs_iget_def Let_def iget_failed_def iput_last_holds set_inode_def split: option.splits)

lemma load_dinodes_holds: "holds (snd (xv6fs_load_dinodes K s)) = holds s"
  by (simp add: load_dinodes_eq)

text \<open>The inode table of the mount has been freed and its list is empty (\<open>[]\<close> is the null pointer).\<close>

definition no_dinodes :: "fs \<Rightarrow> bool" where
  "no_dinodes s \<longleftrightarrow> dinodes s = [] \<and> free_inodes_list s = [] \<and> free_inodes s = 0"

lemma cleanup_sbi_sel:
  "holds (sb_fs (cleanup_sbi m)) = holds (sb_fs m) - (if sbi_bh m then 1 else 0)"
  "sbi_allocs (cleanup_sbi m) = sbi_allocs m - 1" "s_fs_info (cleanup_sbi m) = False"
  "sbi_bh (cleanup_sbi m) = False" "no_dinodes (sb_fs (cleanup_sbi m))"
  by (simp_all add: no_dinodes_def cleanup_sbi_def xv6fs_release_sbi_def xv6fs_release_dinodes_def brelse_def)

lemma put_super_sel:
  "holds (sb_fs (xv6fs_put_super m)) = holds (sb_fs m) - (if sbi_bh m then 1 else 0)"
  "sbi_allocs (xv6fs_put_super m) = sbi_allocs m - 1" "s_fs_info (xv6fs_put_super m) = False"
  "sbi_bh (xv6fs_put_super m) = False" "no_dinodes (sb_fs (xv6fs_put_super m))"
  by (simp_all add: no_dinodes_def xv6fs_put_super_def xv6fs_release_sbi_def xv6fs_release_dinodes_def brelse_def)

text \<open>The part after the superblock has been read, on every path.\<close>

lemma fill_root_cases:
  assumes "sbi_bh m" "fill_root K m = (r, m')"
  shows "case r of
      Inl e \<Rightarrow> holds (sb_fs m') = holds (sb_fs m) - 1 \<and> sbi_allocs m' = sbi_allocs m - 1 \<and> \<not> s_fs_info m' \<and>
        no_dinodes (sb_fs m')
    | Inr _ \<Rightarrow> holds (sb_fs m') = holds (sb_fs m) \<and> sbi_allocs m' = sbi_allocs m \<and> sbi_bh m' \<and>
        s_fs_info m' = s_fs_info m"
proof -
  obtain x s2 where l: "xv6fs_load_dinodes K (sb_fs m) = (x, s2)" by fastforce
  obtain y s3 where g: "xv6fs_iget K 1 s2 = (y, s3)" by fastforce
  have h: "holds s2 = holds (sb_fs m)" "holds s3 = holds s2"
    using load_dinodes_holds [of K "sb_fs m"] iget_holds [of K 1 s2] l g by simp_all
  show ?thesis
  proof (cases x)
    case (Inl e)
    then show ?thesis using assms l h by (auto simp: fill_root_def Let_def cleanup_sbi_sel)
  next
    case (Inr u)
    then show ?thesis using assms l h g unfolding fill_root_def
      by (cases y) (auto simp: Let_def cleanup_sbi_sel iput_last_holds split: if_splits)
  qed
qed

text \<open>A mount whose inode table can be loaded and whose root inode can be read.\<close>

definition mount_start :: "super_block \<Rightarrow> xv6fs_superblock \<Rightarrow> fs" where
  "mount_start m raw =
     (sb_fs m)\<lparr>dinodes := [], free_inodes_list := [], free_inodes := 0, holds := holds (sb_fs m) + 1, raw_sb := raw\<rparr>"

lemma fill_super_state:
  fixes m :: super_block
  defines "raw \<equiv> xv6fs_sb_to_cpu (disk (sb_fs m) 1)"
  assumes "kzalloc_ok K" "set_blocksize_ok K" "sb_bread_ok K 1" "sb_magic raw = XV6FS_MAGIC" "d_make_root_ok K"
    and "xv6fs_load_dinodes K (mount_start m raw) = (Inr (), s2)" "xv6fs_iget K 1 s2 = (Inr 1, s3)"
  obtains m' where "xv6fs_fill_super K m = (Inr (), m')" "sb_fs m' = s3" "s_root m' = Some XV6FS_ROOTINO"
    "s_magic m' = XV6FS_MAGIC" "s_maxbytes m' = 71680"
proof -
  define m3 where "m3 = (alloc_sbi m)\<lparr>sb_fs := mount_start m raw, sbi_bh := True, s_fs_info := True\<rparr>"
  have "xv6fs_fill_super K m = fill_root K m3"
    using assms(2-5) by (simp add: xv6fs_fill_super_def alloc_sbi_def sb_bread_def Let_def m3_def mount_start_def raw_def)
  also have "\<dots> = (Inr (), m3\<lparr>s_magic := sb_magic raw, s_op := True, s_maxbytes := 71680, s_time_gran := 1,
      sb_fs := s3, s_root := Some 1\<rparr>)"
    using assms(6-8) by (simp add: fill_root_def m3_def Let_def) (simp add: mount_start_def)
  finally show ?thesis using that assms(5) by simp
qed

section \<open>Properties\<close>

text \<open>
  C18: A mount and its cleanup are balanced.  When \<open>xv6fs_fill_super\<close> fails, no
  buffer is held, the super block does not point to data of this mount, the
  inode table is freed, its list empty and its counter 0, and the structure it
  allocated has been freed, except in two cases: when the block size cannot be
  set or block 1 cannot be read the structure is leaked.  When there is no memory
  for the structure nothing changes.  When the mount succeeds,
  \<open>xv6fs_put_super\<close> gives back the buffer, the inode table and the structure.
\<close>

theorem fill_super_balanced:
  "case xv6fs_fill_super K m of
     (Inl e, m') \<Rightarrow>
       holds (sb_fs m') = holds (sb_fs m) \<and> s_fs_info m' = (s_fs_info m \<and> \<not> (kzalloc_ok K \<and> set_blocksize_ok K \<and> sb_bread_ok K 1)) \<and>
       sbi_allocs m' = sbi_allocs m +
         (if kzalloc_ok K \<and> \<not> (set_blocksize_ok K \<and> sb_bread_ok K 1) then 1 else 0) \<and>
       (if kzalloc_ok K
        then dinodes (sb_fs m') = [] \<and> free_inodes_list (sb_fs m') = [] \<and> free_inodes (sb_fs m') = 0
        else m' = m)
   | (Inr _, m') \<Rightarrow>
       s_fs_info m' \<and> holds (sb_fs (xv6fs_put_super m')) = holds (sb_fs m) \<and>
       sbi_allocs (xv6fs_put_super m') = sbi_allocs m \<and> \<not> s_fs_info (xv6fs_put_super m') \<and>
       \<not> sbi_bh (xv6fs_put_super m') \<and> dinodes (sb_fs (xv6fs_put_super m')) = [] \<and>
       free_inodes_list (sb_fs (xv6fs_put_super m')) = [] \<and> free_inodes (sb_fs (xv6fs_put_super m')) = 0"
proof (cases "kzalloc_ok K \<and> set_blocksize_ok K \<and> sb_bread_ok K 1")
  case False
  then show ?thesis
    by (auto simp: xv6fs_fill_super_def Let_def alloc_sbi_def sb_bread_def)
next
  case True
  let ?s2 = "(sb_fs (alloc_sbi m))\<lparr>holds := holds (sb_fs m) + 1\<rparr>"
  let ?raw = "xv6fs_sb_to_cpu (disk (sb_fs m) 1)"
  let ?m3 = "(alloc_sbi m)\<lparr>sb_fs := ?s2\<lparr>raw_sb := ?raw\<rparr>, sbi_bh := True, s_fs_info := True\<rparr>"
  have b: "sb_bread K (sb_fs (alloc_sbi m)) 1 = Some ?s2"
    using True by (simp add: sb_bread_def alloc_sbi_def)
  have d: "disk ?s2 1 = disk (sb_fs m) 1" by (simp add: alloc_sbi_def)
  have fs: "xv6fs_fill_super K m =
      (if sb_magic ?raw \<noteq> XV6FS_MAGIC then (Inl EINVAL, cleanup_sbi ?m3) else fill_root K ?m3)"
    unfolding xv6fs_fill_super_def Let_def b option.case d using True by simp
  obtain r m' where r: "fill_root K ?m3 = (r, m')" by fastforce
  have a: "sbi_allocs ?m3 = sbi_allocs m + 1" "holds (sb_fs ?m3) = holds (sb_fs m) + 1" "sbi_bh ?m3"
    by (simp_all add: alloc_sbi_def)
  show ?thesis
    using True fill_root_cases [OF a(3) r] a cleanup_sbi_sel(5) [of ?m3] put_super_sel(5) [of m'] unfolding fs r
    by (cases r) (auto simp: cleanup_sbi_sel put_super_sel no_dinodes_def)
qed

text \<open>An image: the superblock of the example file system and a root directory slot.\<close>

definition demo_image :: "nat \<Rightarrow> block" where
  "demo_image = (\<lambda>_. replicate 512 0)
     (1 := xv6fs_sb_to_disk demo_sb @ replicate 480 0,
      2 := put_dinode 1 (zero_dinode\<lparr>d_type := XV6FS_T_DIR, d_nlink := 1\<rparr>) (replicate 512 0))"

definition demo_device :: super_block where
  "demo_device =
     \<lparr>sb_fs = demo_fs\<lparr>disk := demo_image, icache := Map.empty\<rparr>, s_fs_info = False, sbi_bh = False,
      sbi_allocs = 0, s_magic = 0, s_op = False, s_maxbytes = 0, s_time_gran = 0, s_root = None\<rparr>"

text \<open>
  C23: Mounting a good image succeeds.  With memory, a readable superblock that
  carries the magic number, readable inode blocks and a root slot of a known
  type, \<open>xv6fs_fill_super\<close> returns 0; the superblock is the one on the
  device, the inode table satisfies its invariant, the root inode is cached
  with the fields of its slot, the largest file has 71680 bytes, and one
  buffer (the superblock's) stays referenced.
\<close>

theorem fill_super_mounts:
  fixes m :: super_block
  defines "raw \<equiv> xv6fs_sb_to_cpu (disk (sb_fs m) 1)"
  defines "root \<equiv> dinode_at (disk (sb_fs m) (XV6FS_IBLOCK 1 raw)) (XV6FS_IOFFSET 1)"
  assumes "kzalloc_ok K" "set_blocksize_ok K" "sb_bread_ok K 1" "sb_magic raw = XV6FS_MAGIC"
    and "kvmalloc_ok K (unat (sb_ninodes raw))"
    and "\<forall>i < unat (sb_ninodes raw). sb_bread_ok K (XV6FS_IBLOCK i raw)"
    and "1 < unat (sb_ninodes raw)" "d_type root \<in> {XV6FS_T_DIR, XV6FS_T_FILE, XV6FS_T_DEV}"
    and "inode_alloc_ok K 1" "d_make_root_ok K" "icache (sb_fs m) = Map.empty"
  shows "\<exists>m' ei. xv6fs_fill_super K m = (Inr (), m') \<and> raw_sb (sb_fs m') = raw \<and> itable_ok (sb_fs m') \<and>
    icache (sb_fs m') = [1 \<mapsto> ei] \<and> same_persistent ei (xv6fs_dinode_to_cpu root (fresh_inode K)) \<and>
    disk (sb_fs m') = disk (sb_fs m) \<and> holds (sb_fs m') = holds (sb_fs m) + 1 \<and>
    s_root m' = Some XV6FS_ROOTINO \<and> s_magic m' = XV6FS_MAGIC \<and> s_maxbytes m' = 71680"
proof -
  define s0 where "s0 = mount_start m raw"
  have s0: "raw_sb s0 = raw" "icache s0 = Map.empty" "disk s0 = disk (sb_fs m)"
    by (simp_all add: s0_def mount_start_def assms(13))
  obtain s2 where l: "xv6fs_load_dinodes K s0 = (Inr (), s2)" using assms(7,8) s0(1)
    by (simp add: load_dinodes_eq inode_block_ok_def)
  have it: "itable_ok s2" by (rule load_dinodes_itable [OF s0(2) l])
  have s2: "raw_sb s2 = raw" "icache s2 = Map.empty" "disk s2 = disk (sb_fs m)"
      "holds s2 = holds (sb_fs m) + 1" and di: "dinodes s2 ! 1 = root"
    using l assms(7-10) s0
    by (auto simp: load_dinodes_eq inode_block_ok_def disk_dinode_def root_def s0_def mount_start_def split: if_splits)
  have c: "icache s2 1 = None" using s2(2) by simp
  obtain ei where g: "xv6fs_iget K 1 s2 = (Inr 1, set_inode 1 ei s2)"
    and ei: "same_persistent ei (xv6fs_dinode_to_cpu (dinodes s2 ! 1) (fresh_inode K))"
    using iget_read [of 1 s2 K] assms(9-11) s2(1) c di by auto
  have ok: "itable_ok (set_inode 1 ei s2)" by (rule iget_Inr_itable [OF it g])
  obtain m' where "xv6fs_fill_super K m = (Inr (), m')" "sb_fs m' = set_inode 1 ei s2" "s_root m' = Some XV6FS_ROOTINO"
    "s_magic m' = XV6FS_MAGIC" "s_maxbytes m' = 71680"
    by (rule fill_super_state [OF assms(3-5), of m, folded raw_def, OF assms(6,12) l [unfolded s0_def] g])
  then show ?thesis using ok ei s2 di by (auto simp: set_inode_def)
qed

theorem fill_super_mounts_witness:
  "\<exists>m' ei. xv6fs_fill_super ref_kernel demo_device = (Inr (), m') \<and> raw_sb (sb_fs m') = demo_sb \<and>
    itable_ok (sb_fs m') \<and> icache (sb_fs m') = [1 \<mapsto> ei] \<and> s_root m' = Some 1 \<and> holds (sb_fs m') = 1"
proof -
  have raw: "xv6fs_sb_to_cpu (disk (sb_fs demo_device) 1) = demo_sb"
    by (simp add: demo_device_def demo_image_def xv6fs_sb_to_cpu_def xv6fs_sb_to_disk_def le32_at_array_app)
  have root: "d_type (dinode_at (disk (sb_fs demo_device) (XV6FS_IBLOCK 1 demo_sb)) (XV6FS_IOFFSET 1)) = 1"
    by (simp add: demo_device_def demo_image_def XV6FS_IBLOCK_def XV6FS_IOFFSET_def wf_dinode_def zero_dinode_def)
  have k: "kzalloc_ok ref_kernel" "set_blocksize_ok ref_kernel" "d_make_root_ok ref_kernel"
    by (simp_all add: ref_kernel_def)
  have d: "icache (sb_fs demo_device) = Map.empty" "holds (sb_fs demo_device) = 0" "sb_magic demo_sb = XV6FS_MAGIC"
    by (simp_all add: demo_device_def demo_sb_def)
  show ?thesis
    using fill_super_mounts [of ref_kernel demo_device, unfolded raw] k root d by auto
qed

lemma free_list_count:
  assumes "itable_ok s" shows "unat (ucast (free_inodes s) :: u64) = length (free_inodes_list s)"
proof -
  have "set (free_inodes_list s) \<subseteq> {..<unat (sb_ninodes (raw_sb s))}" "distinct (free_inodes_list s)"
    using assms by (auto simp: itable_ok_def)
  then have "length (free_inodes_list s) \<le> unat (sb_ninodes (raw_sb s))"
    using card_mono [of "{..<unat (sb_ninodes (raw_sb s))}" "set (free_inodes_list s)"]
    by (simp add: distinct_card)
  also have "\<dots> < 2 ^ 32" using unsigned_less [of "sb_ninodes (raw_sb s)"] by simp
  finally show ?thesis using assms
    by (simp add: itable_ok_def unsigned_ucast_eq unat_of_nat take_bit_nat_eq_self)
qed

text \<open>
  C38: \<open>xv6fs_statfs\<close> reports the exact number of free blocks and free inodes:
  with a readable bitmap \<open>f_bfree\<close> and \<open>f_bavail\<close> are the number of clear bits
  of the data area, and \<open>f_ffree\<close> is the length of the free list; nothing is
  changed.  When the bitmap block of the start of the data area cannot be read
  the error number is reported as a count: \<open>2 ^ 64 - 5\<close> free blocks.
\<close>

theorem statfs_correct:
  assumes "kernel_bitops K" "blocks_512 s" "itable_ok s"
    and "XV6FS_DSTART (raw_sb s) < unat (sb_size (raw_sb s))" "unat (sb_size (raw_sb s)) < 2147483648"
    and "xv6fs_statfs K s = (buf, s')"
  shows "(bitmap_readable K s \<longrightarrow> s' = s \<and> unat (f_ffree buf) = length (free_inodes_list s) \<and>
      f_bavail buf = f_bfree buf \<and> f_bfree buf = of_nat (card {b \<in> data_blocks s. \<not> block_used s b})) \<and>
    (\<not> sb_bread_ok K (XV6FS_BBLOCK (XV6FS_DSTART (raw_sb s)) (raw_sb s)) \<longrightarrow>
      s' = s \<and> unat (f_bfree buf) = 2 ^ 64 - 5)"
proof -
  obtain x s1 where c1: "xv6fs_b_count_free K s = (x, s1)" by fastforce
  obtain y s2 where c2: "xv6fs_b_count_free K s1 = (y, s2)" by fastforce
  have buf: "f_ffree buf = ucast (free_inodes s2)" "f_bfree buf = stat_count x" "f_bavail buf = stat_count y"
    "s' = s2" using assms(6) c1 c2 by (auto simp: xv6fs_statfs_def)
  have good: "s' = s \<and> unat (f_ffree buf) = length (free_inodes_list s) \<and> f_bavail buf = f_bfree buf \<and>
      f_bfree buf = of_nat (card {b \<in> data_blocks s. \<not> block_used s b})" if "bitmap_readable K s"
  proof -
    have e: "s1 = s" "x = Inr (of_nat (card {b \<in> data_blocks s. \<not> block_used s b}))"
      using b_count_free_eq [OF assms(1,2) that assms(4,5)] c1 by simp_all
    have "(y, s2) = (x, s1)" using c1 c2 e(1) by metis
    then show ?thesis using e buf free_list_count [OF assms(3)] by simp
  qed
  have bad: "s' = s \<and> unat (f_bfree buf) = 2 ^ 64 - 5"
    if "\<not> sb_bread_ok K (XV6FS_BBLOCK (XV6FS_DSTART (raw_sb s)) (raw_sb s))"
  proof -
    let ?d = "XV6FS_DSTART (raw_sb s)" and ?b = "XV6FS_DSTART (raw_sb s) - XV6FS_DSTART (raw_sb s) mod 4096"
    have "?b div 4096 = ?d div 4096" by (metis minus_mod_eq_div_mult nonzero_mult_div_cancel_right zero_neq_numeral)
    then have "XV6FS_BBLOCK ?b (raw_sb s) = XV6FS_BBLOCK ?d (raw_sb s)" by (simp add: XV6FS_BBLOCK_def)
    moreover have "?b < unat (sb_size (raw_sb s))" using assms(4) by simp
    ultimately have "xv6fs_b_count_free K s = (Inl EIO, s)"
      using that by (auto simp: xv6fs_b_count_free_def Let_def sb_bread_def count_used_loop.simps [of K _ False])
    then have "x = Inl EIO" "s1 = s" "y = Inl EIO" "s2 = s" using c1 c2 by auto
    then show ?thesis using buf by simp
  qed
  show ?thesis using good bad by blast
qed

theorem statfs_correct_witness:
  "unat (f_bfree (fst (xv6fs_statfs ref_kernel demo_fs))) = card {b \<in> data_blocks demo_fs. \<not> block_used demo_fs b} \<and>
   unat (f_ffree (fst (xv6fs_statfs ref_kernel demo_fs))) = 14"
proof -
  have "blocks_512 demo_fs" by (simp add: blocks_512_def)
  note s = statfs_correct [OF ref_kernel_bitops this demo_itable_ok, of
      "fst (xv6fs_statfs ref_kernel demo_fs)" "snd (xv6fs_statfs ref_kernel demo_fs)"]
  have "card {b \<in> data_blocks demo_fs. \<not> block_used demo_fs b} \<le> card {..<(100::nat)}"
    by (rule card_mono) (auto simp: data_blocks_def)
  then have "unat (of_nat (card {b \<in> data_blocks demo_fs. \<not> block_used demo_fs b}) :: u64) =
      card {b \<in> data_blocks demo_fs. \<not> block_used demo_fs b}"
    by (simp add: unat_of_nat take_bit_nat_eq_self)
  then show ?thesis using s demo_bitmap_readable by (simp add: demo_fs_def)
qed

end
