(* ===== verification/Xv6fs_Module.thy ===== *)
theory Xv6fs_Module
  imports Xv6fs_Super
begin

text \<open>
  The life of the module, from \<^verbatim>\<open>src/xv6fs_main.c\<close> and the inode slab cache of
  \<^verbatim>\<open>src/inode.c\<close>: creation and destruction of the cache, registration of the
  file system, allocation and release of inode objects, and the mount entry
  point.

  The kernel decides whether the cache can be created, whether registration
  succeeds and whether an object can be allocated; these are arguments.  The
  kernel does not unload a module while a mounted file system or an inode of
  it is in use, and it mounts only registered file systems; the step relation
  states these guarantees as the guards of its rules, and the invariant shows
  that under them the cache is live whenever the driver touches it.
\<close>

section \<open>The inode cache\<close>

text \<open>
  \<open>cachep\<close>: the slab cache exists; \<open>objs\<close>: objects allocated from it;
  \<open>registered\<close>: \<open>xv6fs_fs_type\<close> is known to the VFS; \<open>mounts\<close>: mounted super
  blocks.  Using a cache that does not exist is the result \<open>Bad\<close>.
\<close>

record module_state =
  cachep :: bool
  objs :: nat
  registered :: bool
  mounts :: nat

datatype 'a use = Ok 'a | Bad

definition xv6fs_init_inode_cache :: "bool \<Rightarrow> module_state \<Rightarrow> errno option \<times> module_state" where
  "xv6fs_init_inode_cache create_ok m =
     (let m1 = m\<lparr>cachep := create_ok\<rparr> in (if cachep m1 then None else Some ENOMEM, m1))"

definition xv6fs_destroy_inode_cache :: "module_state \<Rightarrow> module_state use" where
  "xv6fs_destroy_inode_cache m =
     (if cachep m \<and> objs m = 0 then Ok (m\<lparr>cachep := False\<rparr>) else Bad)"

definition xv6fs_alloc_inode :: "bool \<Rightarrow> module_state \<Rightarrow> (bool \<times> module_state) use" where
  "xv6fs_alloc_inode alloc_ok m =
     (if \<not> cachep m then Bad
      else if \<not> alloc_ok then Ok (False, m)
      else Ok (True, m\<lparr>objs := objs m + 1\<rparr>))"

definition xv6fs_free_inode :: "module_state \<Rightarrow> module_state use" where
  "xv6fs_free_inode m = (if cachep m \<and> 0 < objs m then Ok (m\<lparr>objs := objs m - 1\<rparr>) else Bad)"

section \<open>Initialisation and exit\<close>

definition xv6fs_init :: "bool \<Rightarrow> errno option \<Rightarrow> module_state \<Rightarrow> (errno option \<times> module_state) use" where
  "xv6fs_init create_ok register_err m =
     (case xv6fs_init_inode_cache create_ok m of
        (Some e, m1) \<Rightarrow> Ok (Some e, m1)
      | (None, m1) \<Rightarrow>
          (case register_err of
             Some e \<Rightarrow>
               (case xv6fs_destroy_inode_cache m1 of
                  Ok m2 \<Rightarrow> Ok (Some e, m2)
                | Bad \<Rightarrow> Bad)
           | None \<Rightarrow> Ok (None, m1\<lparr>registered := True\<rparr>)))"

definition xv6fs_exit :: "module_state \<Rightarrow> module_state use" where
  "xv6fs_exit m = xv6fs_destroy_inode_cache (m\<lparr>registered := False\<rparr>)"

text \<open>\<open>mount_bdev\<close> calls \<open>xv6fs_fill_super\<close> on a fresh super block and counts the mount when it succeeds.\<close>

definition xv6fs_mount ::
    "kernel \<Rightarrow> super_block \<Rightarrow> module_state \<Rightarrow> (errno + super_block) \<times> module_state" where
  "xv6fs_mount K sb m =
     (case xv6fs_fill_super K sb of
        (Inl e, _) \<Rightarrow> (Inl e, m)
      | (Inr _, sb') \<Rightarrow> (Inr sb', m\<lparr>mounts := mounts m + 1\<rparr>))"

text \<open>Unmounting is the kernel's \<open>kill_block_super\<close>, a parameter.\<close>

definition xv6fs_kill_sb :: "(super_block \<Rightarrow> super_block) \<Rightarrow> super_block \<Rightarrow> super_block" where
  "xv6fs_kill_sb kill_block_super sb = kill_block_super sb"

record file_system_type =
  fs_name :: string
  fs_mount :: "super_block \<Rightarrow> module_state \<Rightarrow> (errno + super_block) \<times> module_state"
  fs_kill_sb :: "super_block \<Rightarrow> super_block"
  fs_requires_dev :: bool

definition xv6fs_fs_type :: "kernel \<Rightarrow> (super_block \<Rightarrow> super_block) \<Rightarrow> file_system_type" where
  "xv6fs_fs_type K kill_block_super =
     \<lparr>fs_name = ''xv6fs'', fs_mount = xv6fs_mount K, fs_kill_sb = xv6fs_kill_sb kill_block_super,
      fs_requires_dev = True\<rparr>"

section \<open>The life cycle\<close>

inductive module_step :: "module_state \<Rightarrow> module_state use \<Rightarrow> bool" where
  load: "\<not> registered m \<Longrightarrow> \<not> cachep m \<Longrightarrow>
    xv6fs_init create_ok register_err m = Ok (r, m') \<Longrightarrow> module_step m (Ok m')"
| load_bad: "\<not> registered m \<Longrightarrow> \<not> cachep m \<Longrightarrow>
    xv6fs_init create_ok register_err m = Bad \<Longrightarrow> module_step m Bad"
| unload: "registered m \<Longrightarrow> mounts m = 0 \<Longrightarrow> objs m = 0 \<Longrightarrow> module_step m (xv6fs_exit m)"
| mount: "registered m \<Longrightarrow> xv6fs_mount K sb m = (r, m') \<Longrightarrow> module_step m (Ok m')"
| umount: "0 < mounts m \<Longrightarrow> module_step m (Ok (m\<lparr>mounts := mounts m - 1\<rparr>))"
| alloc: "0 < mounts m \<Longrightarrow> xv6fs_alloc_inode alloc_ok m = Ok (b, m') \<Longrightarrow> module_step m (Ok m')"
| alloc_bad: "0 < mounts m \<Longrightarrow> xv6fs_alloc_inode alloc_ok m = Bad \<Longrightarrow> module_step m Bad"
| free: "0 < objs m \<Longrightarrow> module_step m (xv6fs_free_inode m)"

inductive_cases module_stepE: "module_step m r"

definition unloaded :: module_state where
  "unloaded = \<lparr>cachep = False, objs = 0, registered = False, mounts = 0\<rparr>"

inductive reachable :: "module_state use \<Rightarrow> bool" where
  start: "reachable (Ok unloaded)"
| step: "reachable (Ok m) \<Longrightarrow> module_step m r \<Longrightarrow> reachable r"

definition module_ok :: "module_state \<Rightarrow> bool" where
  "module_ok m \<longleftrightarrow> cachep m = registered m \<and> (0 < objs m \<or> 0 < mounts m \<longrightarrow> registered m)"

lemma init_ok:
  assumes "module_ok m" "\<not> registered m" "\<not> cachep m"
  shows "xv6fs_init create_ok register_err m =
    Ok (if \<not> create_ok then Some ENOMEM else register_err,
        if create_ok \<and> register_err = None then m\<lparr>cachep := True, registered := True\<rparr> else m)"
  using assms
  by (cases m) (auto simp: module_ok_def xv6fs_init_def xv6fs_init_inode_cache_def
      xv6fs_destroy_inode_cache_def split: option.splits)

lemma step_ok:
  assumes "module_ok m" "module_step m r"
  shows "\<exists>m'. r = Ok m' \<and> module_ok m'"
  using assms(2)
proof cases
  case (load create_ok register_err r' m')
  then show ?thesis using init_ok [OF assms(1) load(2,3)] assms(1)
    by (auto simp: module_ok_def split: if_splits)
next
  case (load_bad create_ok register_err)
  then show ?thesis using init_ok [OF assms(1) load_bad(2,3)] by simp
next
  case (mount K sb r' m')
  then show ?thesis using assms(1)
    by (auto simp: module_ok_def xv6fs_mount_def split: prod.splits sum.splits)
qed (use assms(1) in \<open>auto simp: module_ok_def xv6fs_exit_def xv6fs_destroy_inode_cache_def
      xv6fs_alloc_inode_def xv6fs_free_inode_def split: if_splits\<close>)

section \<open>Properties\<close>

text \<open>
  C39: In every state the module can reach, the inode cache exists exactly
  while the file system is registered, inodes and mounts exist only then, and
  no step has used a cache that does not exist; initialisation that fails
  leaves the module as it was.
\<close>

theorem module_life_cycle:
  assumes "reachable r"
  shows "\<exists>m. r = Ok m \<and> cachep m = registered m \<and> (0 < objs m \<or> 0 < mounts m \<longrightarrow> registered m) \<and>
    (\<not> registered m \<longrightarrow> xv6fs_init False e m = Ok (Some ENOMEM, m) \<and>
       xv6fs_init True (Some e') m = Ok (Some e', m))"
proof -
  have "\<exists>m. r = Ok m \<and> module_ok m"
    using assms
  proof induction
    case start
    then show ?case by (simp add: module_ok_def unloaded_def)
  next
    case (step m r)
    then show ?case using step_ok by auto
  qed
  then show ?thesis using init_ok by (auto simp: module_ok_def)
qed

theorem module_life_cycle_witness:
  "\<exists>m. Ok (unloaded\<lparr>cachep := True, registered := True\<rparr>) = Ok m \<and> cachep m = registered m \<and>
    (registered m \<or> \<not> 0 < objs m \<and> \<not> 0 < mounts m)"
proof -
  have "xv6fs_init True None unloaded = Ok (None, unloaded\<lparr>cachep := True, registered := True\<rparr>)"
    by (simp add: xv6fs_init_def xv6fs_init_inode_cache_def unloaded_def)
  then have "reachable (Ok (unloaded\<lparr>cachep := True, registered := True\<rparr>))"
    by (intro reachable.step [OF reachable.start] module_step.load) (simp_all add: unloaded_def)
  from module_life_cycle [OF this] show ?thesis by auto
qed

end
