(* ===== verification/Xv6fs_Ops.thy ===== *)
theory Xv6fs_Ops
  imports Xv6fs_File Xv6fs_Module
begin

text \<open>
  The operation tables, through which the VFS reaches the driver: those of
  directories (\<^verbatim>\<open>src/dir.c\<close>), regular files (\<^verbatim>\<open>src/inode.c\<close>), super blocks
  (\<^verbatim>\<open>src/super.c\<close>) and the file-system type (\<^verbatim>\<open>src/xv6fs_main.c\<close>).  A method
  that is not set is \<open>None\<close>.  An inode carries the names of its tables in
  \<open>i_op\<close> and \<open>i_fop\<close>; the lemmas of this theory show that on a consistent
  volume every inode carries the tables of its type, so that a call on a
  directory reaches the function of \<^verbatim>\<open>dir.c\<close> it should.
\<close>

section \<open>The tables\<close>

record inode_operations =
  op_lookup :: "(nat \<Rightarrow> byte list \<Rightarrow> fs \<Rightarrow> (nat option dir_ret \<times> fs) option) option"
  op_create :: "(nat \<Rightarrow> byte list \<Rightarrow> u16 \<Rightarrow> fs \<Rightarrow> (nat dir_ret \<times> fs) option) option"
  op_mkdir :: "(nat \<Rightarrow> byte list \<Rightarrow> u16 \<Rightarrow> fs \<Rightarrow> (nat dir_ret \<times> fs) option) option"
  op_unlink :: "(nat \<Rightarrow> byte list \<Rightarrow> nat \<Rightarrow> fs \<Rightarrow> (unit dir_ret \<times> fs) option) option"
  op_rmdir :: "(nat \<Rightarrow> byte list \<Rightarrow> nat \<Rightarrow> fs \<Rightarrow> (unit dir_ret \<times> fs) option) option"
  op_link :: "(nat \<Rightarrow> nat \<Rightarrow> byte list \<Rightarrow> fs \<Rightarrow> (unit dir_ret \<times> fs) option) option"
  op_setattr :: "(nat \<Rightarrow> iattr \<Rightarrow> fs \<Rightarrow> (errno + unit) \<times> fs) option"

definition no_inode_ops :: inode_operations where
  "no_inode_ops =
     \<lparr>op_lookup = None, op_create = None, op_mkdir = None, op_unlink = None, op_rmdir = None,
      op_link = None, op_setattr = None\<rparr>"

definition xv6fs_dir_inode_ops :: "kernel \<Rightarrow> inode_operations" where
  "xv6fs_dir_inode_ops K = no_inode_ops
     \<lparr>op_lookup := Some (xv6fs_lookup K), op_create := Some (xv6fs_create K),
      op_mkdir := Some (xv6fs_mkdir K), op_unlink := Some (xv6fs_unlink K),
      op_rmdir := Some (xv6fs_rmdir K), op_link := Some (xv6fs_link K)\<rparr>"

definition xv6fs_file_inode_ops :: "kernel \<Rightarrow> inode_operations" where
  "xv6fs_file_inode_ops K = no_inode_ops\<lparr>op_setattr := Some (xv6fs_setattr K)\<rparr>"

text \<open>The methods of \<open>struct file_operations\<close> a directory sets.\<close>

record dir_file_operations =
  iterate_shared :: "nat \<Rightarrow> emitter \<Rightarrow> int \<Rightarrow> fs \<Rightarrow>
    (unit dir_ret \<times> (byte list \<times> u16) list \<times> int \<times> fs) option"
  dir_llseek :: "nat \<Rightarrow> int \<Rightarrow> fs \<Rightarrow> (errno + int) \<times> fs"

definition xv6fs_dir_fops :: "page_cache \<Rightarrow> kernel \<Rightarrow> dir_file_operations" where
  "xv6fs_dir_fops P K = \<lparr>iterate_shared = xv6fs_readdir K, dir_llseek = generic_file_llseek P\<rparr>"

record super_operations =
  alloc_inode :: "bool \<Rightarrow> module_state \<Rightarrow> (bool \<times> module_state) use"
  free_inode :: "module_state \<Rightarrow> module_state use"
  write_inode :: "nat \<Rightarrow> bool \<Rightarrow> fs \<Rightarrow> (errno + unit) \<times> fs"
  evict_inode :: "nat \<Rightarrow> fs \<Rightarrow> fs"
  put_super :: "super_block \<Rightarrow> super_block"
  statfs :: "fs \<Rightarrow> kstatfs \<times> fs"

definition xv6fs_super_ops :: "kernel \<Rightarrow> super_operations" where
  "xv6fs_super_ops K =
     \<lparr>alloc_inode = xv6fs_alloc_inode, free_inode = xv6fs_free_inode,
      write_inode = xv6fs_write_inode K, evict_inode = xv6fs_evict_inode K,
      put_super = xv6fs_put_super, statfs = xv6fs_statfs K\<rparr>"

section \<open>Dispatch\<close>

text \<open>The table an inode carries; those of the kernel have none of the methods below.\<close>

definition inode_ops :: "kernel \<Rightarrow> xv6fs_inode_info \<Rightarrow> inode_operations" where
  "inode_ops K ei =
     (case i_op ei of Ops_dir \<Rightarrow> xv6fs_dir_inode_ops K | Ops_file \<Rightarrow> xv6fs_file_inode_ops K | _ \<Rightarrow> no_inode_ops)"

definition file_ops :: "page_cache \<Rightarrow> kernel \<Rightarrow> xv6fs_inode_info \<Rightarrow> file_operations option" where
  "file_ops P K ei = (if i_fop ei = Ops_file then Some (xv6fs_file_fops P K) else None)"

text \<open>A method that is not set is not called: the VFS returns an error, and nothing happens.\<close>

definition via_op :: "'a option \<Rightarrow> ('a \<Rightarrow> fs option) \<Rightarrow> fs \<Rightarrow> fs option" where
  "via_op f call s = (case f of None \<Rightarrow> Some s | Some g \<Rightarrow> call g)"

lemma via_op_simps [simp]: "via_op None call s = Some s" "via_op (Some g) call s = call g"
  by (simp_all add: via_op_def)

lemma dir_ops_sel [simp]:
  "op_lookup (xv6fs_dir_inode_ops K) = Some (xv6fs_lookup K)"
  "op_create (xv6fs_dir_inode_ops K) = Some (xv6fs_create K)"
  "op_mkdir (xv6fs_dir_inode_ops K) = Some (xv6fs_mkdir K)"
  "op_unlink (xv6fs_dir_inode_ops K) = Some (xv6fs_unlink K)"
  "op_rmdir (xv6fs_dir_inode_ops K) = Some (xv6fs_rmdir K)"
  "op_link (xv6fs_dir_inode_ops K) = Some (xv6fs_link K)"
  by (simp_all add: xv6fs_dir_inode_ops_def)

text \<open>On a consistent volume an inode carries the tables of its type.\<close>

lemma store_dir_ops:
  assumes "store_inv K s" "i \<in> dom (icache s)" "i_type (xv6fs_i s i) = XV6FS_T_DIR"
  shows "inode_ops K (xv6fs_i s i) = xv6fs_dir_inode_ops K" "file_ops P K (xv6fs_i s i) = None"
  using cached_facts(2) [OF assms(1,2)] assms(3) by (simp_all add: tables_set_def inode_ops_def file_ops_def)

lemma store_file_ops:
  assumes "store_inv K s" "i \<in> dom (icache s)" "i_type (xv6fs_i s i) = XV6FS_T_FILE"
  shows "inode_ops K (xv6fs_i s i) = xv6fs_file_inode_ops K" "file_ops P K (xv6fs_i s i) = Some (xv6fs_file_fops P K)"
  using cached_facts(2) [OF assms(1,2)] assms(3) by (simp_all add: tables_set_def inode_ops_def file_ops_def)

text \<open>An attribute change reaches \<open>xv6fs_setattr\<close> or no function of the driver.\<close>

lemma setattr_op: "op_setattr (inode_ops K ei) \<in> {None, Some (xv6fs_setattr K)}"
  by (cases "i_op ei")
    (simp_all add: inode_ops_def xv6fs_dir_inode_ops_def xv6fs_file_inode_ops_def no_inode_ops_def)

end
