(* ===== verification/Xv6fs_Vfs.thy ===== *)
theory Xv6fs_Vfs
  imports Xv6fs_Ops
begin

text \<open>
  The driver under the VFS.  \<open>vfs_call\<close> lists the calls the kernel makes
  into the driver on a mounted volume, \<open>vfs_allowed\<close> the conditions under
  which the VFS makes them, and \<open>vfs_run\<close> a whole history of calls.  Every
  call on a consistent volume returns, keeps the volume consistent, and does
  to its name space what the operation of \<^verbatim>\<open>Xv6fs_Tree\<close> does.
\<close>

section \<open>Calls\<close>

datatype vfs_call =
    Lookup nat "byte list"
  | Create nat "byte list" u16
  | Mkdir nat "byte list" u16
  | Unlink nat "byte list" nat
  | Rmdir nat "byte list" nat
  | Link nat nat "byte list"
  | Map_block nat nat
  | Page_write nat nat block
  | Write nat nat "byte list"
  | Setattr nat iattr
  | Write_back nat bool
  | Iput nat

definition live_dir :: "fs \<Rightarrow> nat \<Rightarrow> bool" where
  "live_dir s d \<longleftrightarrow> (case icache s d of None \<Rightarrow> False | Some ei \<Rightarrow> live_dir_inode ei)"

definition is_file :: "fs \<Rightarrow> nat \<Rightarrow> bool" where
  "is_file s i \<longleftrightarrow> (case icache s i of None \<Rightarrow> False | Some ei \<Rightarrow> i_type ei \<noteq> XV6FS_T_DIR)"

definition new_name :: "fs \<Rightarrow> nat \<Rightarrow> byte list \<Rightarrow> bool" where
  "new_name s d n \<longleftrightarrow> length n \<le> XV6FS_DIRSIZ \<and> 0 \<notin> set n \<and> n \<notin> dots \<and> dir_map s d n = None"

text \<open>
  What the VFS checks before it makes the call: the directory is not dead, a
  name to be made is not there, a name to be removed names the inode of the
  dentry, \<open>.\<close> and \<open>..\<close> are refused, directories are removed with \<open>rmdir\<close>,
  a directory's attributes are set by the kernel itself, as it has no
  \<open>setattr\<close> method, and an inode is dropped from the cache when
  it has no links or has been written back.  The root is always in use.
\<close>

fun vfs_allowed :: "fs \<Rightarrow> vfs_call \<Rightarrow> bool" where
  "vfs_allowed s (Lookup d n) = live_dir s d"
| "vfs_allowed s (Create d n m) = (live_dir s d \<and> new_name s d n \<and> \<not> S_ISDIR m)"
| "vfs_allowed s (Mkdir d n m) = (live_dir s d \<and> new_name s d n \<and> m AND S_IFMT = 0)"
| "vfs_allowed s (Unlink d n i) = (live_dir s d \<and> is_file s i \<and> n \<notin> dots \<and> dir_names s d n = Some i)"
| "vfs_allowed s (Rmdir d n i) =
     (live_dir s d \<and> live_dir s i \<and> i \<noteq> d \<and> n \<notin> dots \<and> dir_names s d n = Some i)"
| "vfs_allowed s (Link i d n) = (live_dir s d \<and> is_file s i \<and> i_nlink (xv6fs_i s i) \<noteq> 0 \<and> new_name s d n)"
| "vfs_allowed s (Map_block i l) = is_file s i"
| "vfs_allowed s (Page_write i l d) = (is_file s i \<and> length d = XV6FS_BSIZE)"
| "vfs_allowed s (Write i pos data) = (is_file s i \<and> pos + length data \<le> XV6FS_MAXFILE * XV6FS_BSIZE)"
| "vfs_allowed s (Setattr i ia) =
     (is_file s i \<and> (ia_valid_size ia \<longrightarrow> 0 \<le> ia_size ia \<and> ia_size ia < 4294967296))"
| "vfs_allowed s (Write_back i sync) = (icache s i \<noteq> None)"
| "vfs_allowed s (Iput i) =
     (icache s i \<noteq> None \<and> i \<noteq> XV6FS_ROOTINO \<and> (i_nlink (xv6fs_i s i) = 0 \<or> i \<notin> idirty s))"

text \<open>The state after a directory call, if it returns.\<close>

definition returned :: "('a dir_ret \<times> fs) option \<Rightarrow> fs option" where
  "returned x = (case x of None \<Rightarrow> None | Some (Oops, s) \<Rightarrow> None | Some (_, s) \<Rightarrow> Some s)"

text \<open>
  A call goes to the method in the operation table the inode carries; the
  page cache calls \<open>xv6fs_get_block\<close> back, and a mapped page is stored to
  without a call.
\<close>

fun vfs_exec :: "page_cache \<Rightarrow> kernel \<Rightarrow> vfs_call \<Rightarrow> fs \<Rightarrow> fs option" where
  "vfs_exec P K (Lookup d n) s =
     via_op (op_lookup (inode_ops K (xv6fs_i s d))) (\<lambda>f. returned (f d n s)) s"
| "vfs_exec P K (Create d n m) s =
     via_op (op_create (inode_ops K (xv6fs_i s d))) (\<lambda>f. returned (f d n m s)) s"
| "vfs_exec P K (Mkdir d n m) s =
     via_op (op_mkdir (inode_ops K (xv6fs_i s d))) (\<lambda>f. returned (f d n m s)) s"
| "vfs_exec P K (Unlink d n i) s =
     via_op (op_unlink (inode_ops K (xv6fs_i s d))) (\<lambda>f. returned (f d n i s)) s"
| "vfs_exec P K (Rmdir d n i) s =
     via_op (op_rmdir (inode_ops K (xv6fs_i s d))) (\<lambda>f. returned (f d n i s)) s"
| "vfs_exec P K (Link i d n) s =
     via_op (op_link (inode_ops K (xv6fs_i s d))) (\<lambda>f. returned (f i d n s)) s"
| "vfs_exec P K (Map_block i l) s = Some (snd (xv6fs_get_block K i l True s))"
| "vfs_exec P K (Page_write i l d) s = Some (page_write i l d s)"
| "vfs_exec P K (Write i pos data) s =
     via_op (file_ops P K (xv6fs_i s i)) (\<lambda>f. Some (snd (write_iter f i pos data s))) s"
| "vfs_exec P K (Setattr i ia) s =
     via_op (op_setattr (inode_ops K (xv6fs_i s i))) (\<lambda>f. Some (snd (f i ia s))) s"
| "vfs_exec P K (Write_back i sync) s =
     Some (snd (write_inode (xv6fs_super_ops K) i sync (s\<lparr>idirty := idirty s - {i}\<rparr>)))"
| "vfs_exec P K (Iput i) s = Some (iput_last K i s)"

text \<open>A history: calls the VFS would not make are skipped.\<close>

fun vfs_run :: "page_cache \<Rightarrow> kernel \<Rightarrow> vfs_call list \<Rightarrow> fs \<Rightarrow> fs option" where
  "vfs_run P K [] s = Some s"
| "vfs_run P K (c # cs) s =
     (if vfs_allowed s c then Option.bind (vfs_exec P K c s) (vfs_run P K cs) else vfs_run P K cs s)"

section \<open>The invariant of the volume\<close>

lemma vol_invD:
  assumes "vol_inv K s"
  shows "store_inv K s" "tree_inv (tree_of K s)" "links (tree_of K s) i < 65536"
  using assms by (simp_all add: vol_inv_def)

lemma dir_names_card:
  assumes "dir_inv K d s" shows "card (dom (dir_names s d)) \<le> 4480"
proof -
  have "dom (dir_names s d) \<subseteq> set (map fst (dir_entries s d))"
    by (force simp: dir_names_def dir_map_entries dest: map_of_SomeD)
  then have "card (dom (dir_names s d)) \<le> card (set (map fst (dir_entries s d)))"
    by (intro card_mono) simp_all
  also have "\<dots> \<le> length (map fst (dir_entries s d))" by (rule card_length)
  also have "\<dots> \<le> nslots s d"
    unfolding dir_entries_def live_slots_def by (simp add: length_filter_le [THEN order_trans])
  also have "\<dots> \<le> 4480" using assms by (auto simp: dir_inv_def dest: dir_ok_size(3))
  finally show ?thesis .
qed

text \<open>The link counts of directories fit because directories have a bounded size.\<close>

lemma vol_invI:
  assumes "store_inv K s" "tree_inv (tree_of K s)"
    and "\<And>i. kinds (tree_of K s) i \<noteq> Some XV6FS_T_DIR \<Longrightarrow> links (tree_of K s) i < 65536"
  shows "vol_inv K s"
proof -
  have "links (tree_of K s) i < 65536" if k: "kinds (tree_of K s) i = Some XV6FS_T_DIR" for i
  proof -
    obtain ei where ei: "resident K s i = Some ei" "i_type ei = XV6FS_T_DIR"
      using k by (auto simp: links_of_resident)
    then have d: "dir_inv K i (whole K s)" using assms(1) by (simp add: store_inv_def inodes_ok_def)
    have "card (dom (ents (tree_of K s) i)) \<le> 4480"
      using dir_names_card [OF d] ei(1) by (simp add: links_of_resident inode_names_def)
    then show ?thesis using dir_links_bound [OF assms(2) k] by simp
  qed
  then show ?thesis using assms unfolding vol_inv_def by blast
qed

lemma live_dirD:
  assumes "vol_inv K s" "live_dir s d"
  shows "d \<in> dom (icache s)" "i_type (xv6fs_i s d) = XV6FS_T_DIR" "i_nlink (xv6fs_i s d) \<noteq> 0"
    "ents (tree_of K s) d = dir_names s d" "ents (tree_of K s) d \<noteq> Map.empty"
    "kinds (tree_of K s) d = Some XV6FS_T_DIR" "dir_inv K d s" "0 < d" "d < 65536"
    "inode_ops K (xv6fs_i s d) = xv6fs_dir_inode_ops K"
proof -
  note v = vol_invD [OF assms(1)]
  show c: "d \<in> dom (icache s)" and t: "i_type (xv6fs_i s d) = XV6FS_T_DIR" and n: "i_nlink (xv6fs_i s d) \<noteq> 0"
    using assms(2) by (auto simp: live_dir_def live_dir_inode_def xv6fs_i_def split: option.splits)
  show "ents (tree_of K s) d = dir_names s d" using tree_names [OF c, of K] t n by (simp add: live_dir_inode_def)
  note f = cached_facts [OF v(1) c]
  show k: "kinds (tree_of K s) d = Some XV6FS_T_DIR" and "0 < d" "d < 65536" using f(5,6,8) t by simp_all
  show "ents (tree_of K s) d \<noteq> Map.empty"
    using f(9) n by (intro tree_invD(5) [OF v(2) k]) (simp add: unat_eq_0)
  show "dir_inv K d s" by (rule store_dir [OF v(1) c t])
  show "inode_ops K (xv6fs_i s d) = xv6fs_dir_inode_ops K" by (rule store_dir_ops(1) [OF v(1) c t])
qed

lemma is_fileD:
  assumes "is_file s i" shows "i \<in> dom (icache s)" "i_type (xv6fs_i s i) \<noteq> XV6FS_T_DIR"
  using assms by (auto simp: is_file_def xv6fs_i_def split: option.splits)

text \<open>Steps that leave the name space alone.\<close>

lemma vol_inv_same: "vol_inv K s \<Longrightarrow> store_inv K t \<Longrightarrow> tree_of K t = tree_of K s \<Longrightarrow> vol_inv K t"
  by (simp add: vol_inv_def)

section \<open>Create, link and unlink\<close>

lemma new_nameD:
  assumes "new_name s d n"
  shows "length n \<le> 14" "0 \<notin> set n" "n \<notin> dots" "dir_map s d n = None" "dir_names s d n = None"
  using assms by (simp_all add: new_name_def dir_names_def)

text \<open>The name space without the inode that was just made and could not be named.\<close>

lemma discard_back:
  assumes "kernel_bitops K" "io_ok K" "tree_inv (tree_of K s)" "kinds (tree_of K s) i = None"
    and "store_inv K u" "i \<in> dom (icache u)" "i \<in> idirty u"
    and "\<And>j. j \<noteq> i \<Longrightarrow> kinds (tree_of K u) j = kinds (tree_of K s) j \<and> links (tree_of K u) j = links (tree_of K s) j \<and>
      ents (tree_of K u) j = ents (tree_of K s) j"
  shows "store_inv K (discard_inode K i u)" "tree_of K (discard_inode K i u) = tree_of K s"
proof -
  note d = store_discard [OF assms(1,2,5-7)]
  show "store_inv K (discard_inode K i u)" by (rule d(1))
  have "links (tree_of K s) i = 0" "ents (tree_of K s) i = Map.empty"
    using tree_invD(3) [OF assms(3,4)] unused_dir [OF assms(3,4)] by auto
  then show "tree_of K (discard_inode K i u) = tree_of K s"
    unfolding d(2) using assms(4,8) by (intro tree_eqI ext) (simp_all add: fun_eq_iff)
qed

text \<open>A new inode next to a live directory.\<close>

lemma new_inode_dir:
  assumes "vol_inv K s" "live_dir s d" "xv6fs_new_inode K mode s = (Inr i, t)"
  shows "d \<noteq> i" "d \<in> dom (icache t)" "xv6fs_i t d = xv6fs_i s d" "dir_map t d = dir_map s d"
    "i \<in> idirty t" "0 < i" "i < 65536"
    "xv6fs_i t i = new_inode_fields mode (fresh_inode K)" "dir_map t i = Map.empty"
proof -
  note v = vol_invD [OF assms(1)] and l = live_dirD [OF assms(1,2)] and n = new_inode_Inr [OF assms(3)]
  have vo: "vol_ok s" by (rule store_vol_ok [OF v(1)])
  note vn = vol_new_inode [OF vo assms(3)]
  show di: "d \<noteq> i" using l(1) vn(7) by auto
  show "d \<in> dom (icache t)" "xv6fs_i t d = xv6fs_i s d" using l(1) di by (simp_all add: n(4) xv6fs_i_def)
  have "own_inv s" using vo by (simp add: vol_ok_def)
  from vol_dir_other(2) [OF this vn(4,5) di l(7)] show "dir_map t d = dir_map s d" .
  show "i \<in> idirty t" using n(5) by simp
  show "0 < i" "i < 65536" by (rule vn(2,3))+
  show "xv6fs_i t i = new_inode_fields mode (fresh_inode K)" "dir_map t i = Map.empty"
    using new_dir [OF vo assms(3)] by simp_all
qed

lemma vfs_create:
  assumes "kernel_bitops K" "io_ok K" "vol_inv K s" "live_dir s d" "new_name s d n" "\<not> S_ISDIR m"
  shows "\<exists>r t. xv6fs_create K d n m s = Some (r, t) \<and> r \<noteq> Oops \<and> vol_inv K t \<and>
    (\<forall>i. r = Ret i \<longrightarrow> kinds (tree_of K s) i = None) \<and>
    tree_of K t = (case r of Ret i \<Rightarrow> tree_create d n i XV6FS_T_FILE (tree_of K s) | _ \<Rightarrow> tree_of K s)"
proof -
  note v = vol_invD [OF assms(3)] and l = live_dirD [OF assms(3,4)] and nn = new_nameD [OF assms(5)]
  obtain x t1 where new: "xv6fs_new_inode K m s = (x, t1)" by fastforce
  show ?thesis
  proof (cases x)
    case (Inl e)
    then have "t1 = s" using new_inode_Inl(1) new by blast
    then have "xv6fs_create K d n m s = Some (Err e, s)" using new Inl by (simp add: xv6fs_create_def)
    then show ?thesis using assms(3) by (intro exI [of _ "Err e"] exI [of _ s]) simp
  next
    case (Inr i)
    note n1 = store_new_inode [OF v(1) new [unfolded Inr]] and d1 = new_inode_dir [OF assms(3,4) new [unfolded Inr]]
    have ki: "kinds (tree_of K s) i = None" using n1(3) by (simp add: links_of_resident)
    obtain r t a z where add: "xv6fs_dir_add_entry K d n i t1 = Some (r, t)"
      "r \<in> {Ret (), Err ENOSPC, Err EIO, Err EFBIG}" "store_inv K t" "touches d t1 t"
      "tree_of K t = (if r = Ret () \<and> i_nlink (xv6fs_i t1 d) \<noteq> 0
       then (tree_of K t1)\<lparr>ents := (ents (tree_of K t1))(d := (ents (tree_of K t1) d)(n \<mapsto> i))\<rparr>
       else tree_of K t1)"
      "xv6fs_i t d = (xv6fs_i t1 d)\<lparr>i_addrs := a, i_size := z\<rparr>"
      using store_add_entry [OF assms(1,2) n1(1) d1(2) _ nn(1,2) d1(6,7)] d1(3,4) l(2) nn(4) by metis
    show ?thesis
    proof (cases "r = Ret ()")
      case True
      then have call: "xv6fs_create K d n m s = Some (Ret i, t)"
        using new Inr add(1) by (simp add: xv6fs_create_def)
      have tr: "tree_of K t = tree_create d n i XV6FS_T_FILE (tree_of K s)"
        unfolding add(5) n1(4) using True d1(3) l(3) assms(6)
        by (intro tree_eqI) (simp_all add: tree_create_def)
      have "tree_inv (tree_of K t)"
        unfolding tr using l(4) nn(5) by (intro tree_create_inv [OF v(2) l(5) _ nn(3) ki]) simp_all
      then have "vol_inv K t"
        using v(3) by (intro vol_invI [OF add(3)]) (simp_all add: tr tree_create_def)
      then show ?thesis using call tr ki by (intro exI [of _ "Ret i"] exI [of _ t]) simp
    next
      case False
      then obtain e where e: "r = Err e" using add(2) by auto
      have call: "xv6fs_create K d n m s = Some (Err e, discard_inode K i t)"
        using new Inr add(1) e by (simp add: xv6fs_create_def)
      have st: "same_tables d t1 t" using add(4) by (simp add: touches_def)
      then have it: "i \<in> dom (icache t)" "i \<in> idirty t"
        using n1(2) d1(1,5) by (auto simp: same_tables_def domIff)
      have "store_inv K (discard_inode K i t)" "tree_of K (discard_inode K i t) = tree_of K s"
        by (rule discard_back [OF assms(1,2) v(2) ki add(3) it]; simp add: add(5) False n1(4))+
      then show ?thesis using call vol_inv_same [OF assms(3)]
        by (intro exI [of _ "Err e"] exI [of _ "discard_inode K i t"]) simp
    qed
  qed
qed

section \<open>Making directories\<close>

text \<open>
  One insertion of \<open>xv6fs_mkdir\<close>, into a live directory, in a state where
  inode \<open>i\<close> is cached and dirty.
\<close>

definition building :: "kernel \<Rightarrow> nat \<Rightarrow> fs \<Rightarrow> bool" where
  "building K i s \<longleftrightarrow> store_inv K s \<and> i \<in> dom (icache s) \<and> i \<in> idirty s"

lemma building_add:
  assumes "kernel_bitops K" "io_ok K" "building K i s" "live_dir s d" "length n \<le> 14" "0 \<notin> set n"
    and "0 < v" "v < 65536" "ents (tree_of K s) d n = None"
  obtains r t where "xv6fs_dir_add_entry K d n v s = Some (r, t)"
    "r \<in> {Ret (), Err ENOSPC, Err EIO, Err EFBIG}" "building K i t"
    "tree_of K t = (if r = Ret ()
       then (tree_of K s)\<lparr>ents := (ents (tree_of K s))(d := (ents (tree_of K s) d)(n \<mapsto> v))\<rparr>
       else tree_of K s)"
    "live_dir t d" "i_nlink (xv6fs_i t d) = i_nlink (xv6fs_i s d)" "\<And>j. j \<noteq> d \<Longrightarrow> icache t j = icache s j"
proof -
  have b: "store_inv K s" "i \<in> dom (icache s)" "i \<in> idirty s" using assms(3) by (simp_all add: building_def)
  have d: "d \<in> dom (icache s)" "i_type (xv6fs_i s d) = XV6FS_T_DIR" "i_nlink (xv6fs_i s d) \<noteq> 0"
    using assms(4) by (auto simp: live_dir_def live_dir_inode_def xv6fs_i_def split: option.splits)
  have "dir_map s d n = None"
    using assms(9) tree_names [OF d(1), of K] d(2,3) by (simp add: live_dir_inode_def dir_names_def)
  from store_add_entry [OF assms(1,2) b(1) d(1,2) assms(5-8) this]
  obtain r t a z where add: "xv6fs_dir_add_entry K d n v s = Some (r, t)"
    "r \<in> {Ret (), Err ENOSPC, Err EIO, Err EFBIG}" "store_inv K t" "touches d s t"
    "tree_of K t = (if r = Ret () \<and> i_nlink (xv6fs_i s d) \<noteq> 0
       then (tree_of K s)\<lparr>ents := (ents (tree_of K s))(d := (ents (tree_of K s) d)(n \<mapsto> v))\<rparr>
       else tree_of K s)"
    "xv6fs_i t d = (xv6fs_i s d)\<lparr>i_addrs := a, i_size := z\<rparr>" by metis
  have st: "same_tables d s t" and dt: "d \<in> dom (icache t)"
    using add(4) touch_cached by (auto simp: touches_def)
  have oth: "icache t j = icache s j" if "j \<noteq> d" for j using st that by (simp add: same_tables_def)
  have "building K i t"
    using add(3) b(2,3) st dt oth [of i] by (cases "i = d") (auto simp: building_def same_tables_def)
  moreover have "live_dir t d"
    using cached_i [OF dt] d(2,3) by (simp add: live_dir_def live_dir_inode_def add(6))
  ultimately show ?thesis using add d(3) oth that by simp
qed

lemma mkdir_entries:
  assumes "kernel_bitops K" "io_ok K" "building K i s" "live_dir s i" "live_dir s d" "d \<noteq> i"
    and "0 < i" "i < 65536" "0 < d" "d < 65536" "ents (tree_of K s) i = Map.empty"
    and "length n \<le> 14" "0 \<notin> set n" "ents (tree_of K s) d n = None"
  obtains r t where "add_entries K [(i, dot, i), (i, dotdot, d), (d, n, i)] s = Some (r, t)" "r \<noteq> Oops"
    "building K i t"
    "\<forall>j. j \<noteq> i \<longrightarrow> r \<noteq> Ret () \<longrightarrow> ents (tree_of K t) j = ents (tree_of K s) j"
    "r = Ret () \<longrightarrow> ents (tree_of K t) = (ents (tree_of K s))
       (i := [dot \<mapsto> i, dotdot \<mapsto> d], d := (ents (tree_of K s) d)(n \<mapsto> i))"
    "kinds (tree_of K t) = kinds (tree_of K s)" "links (tree_of K t) = links (tree_of K s)"
    "live_dir t d"
proof -
  have "\<exists>r t. add_entries K [(i, dot, i), (i, dotdot, d), (d, n, i)] s = Some (r, t) \<and> r \<noteq> Oops \<and>
    building K i t \<and> (\<forall>j. j \<noteq> i \<longrightarrow> r \<noteq> Ret () \<longrightarrow> ents (tree_of K t) j = ents (tree_of K s) j) \<and>
    (r = Ret () \<longrightarrow> ents (tree_of K t) = (ents (tree_of K s))
       (i := [dot \<mapsto> i, dotdot \<mapsto> d], d := (ents (tree_of K s) d)(n \<mapsto> i))) \<and>
    kinds (tree_of K t) = kinds (tree_of K s) \<and> links (tree_of K t) = links (tree_of K s) \<and> live_dir t d"
  proof -
    obtain r1 t1 where a1: "xv6fs_dir_add_entry K i dot i s = Some (r1, t1)"
      "r1 \<in> {Ret (), Err ENOSPC, Err EIO, Err EFBIG}" "building K i t1"
      "tree_of K t1 = (if r1 = Ret () then (tree_of K s)\<lparr>ents := (ents (tree_of K s))(i := (ents (tree_of K s) i)(dot \<mapsto> i))\<rparr>
         else tree_of K s)"
      "live_dir t1 i" "i_nlink (xv6fs_i t1 i) = i_nlink (xv6fs_i s i)" "\<And>j. j \<noteq> i \<Longrightarrow> icache t1 j = icache s j"
      by (rule building_add [OF assms(1-4) _ _ assms(7,8), of dot]) (simp_all add: assms(11))
    have l1: "live_dir t1 d" using assms(5) a1(7) [OF assms(6)] by (simp add: live_dir_def)
    show ?thesis
    proof (cases "r1 = Ret ()")
      case False
      then show ?thesis using a1 l1 by (intro exI [of _ r1] exI [of _ t1]) auto
    next
      case r1: True
      have e1: "ents (tree_of K t1) i dotdot = None" "ents (tree_of K t1) d n = None"
        using a1(4) r1 assms(6,11,14) by simp_all
      obtain r2 t2 where a2: "xv6fs_dir_add_entry K i dotdot d t1 = Some (r2, t2)"
        "r2 \<in> {Ret (), Err ENOSPC, Err EIO, Err EFBIG}" "building K i t2"
        "tree_of K t2 = (if r2 = Ret ()
          then (tree_of K t1)\<lparr>ents := (ents (tree_of K t1))(i := (ents (tree_of K t1) i)(dotdot \<mapsto> d))\<rparr> else tree_of K t1)"
        "live_dir t2 i" "i_nlink (xv6fs_i t2 i) = i_nlink (xv6fs_i t1 i)" "\<And>j. j \<noteq> i \<Longrightarrow> icache t2 j = icache t1 j"
        by (rule building_add [OF assms(1,2) a1(3,5) _ _ assms(9,10), of dotdot]) (simp_all add: e1(1))
      have l2: "live_dir t2 d" using l1 a2(7) [OF assms(6)] by (simp add: live_dir_def)
      show ?thesis
      proof (cases "r2 = Ret ()")
        case False
        then show ?thesis using a1 a2 l2 r1 by (intro exI [of _ r2] exI [of _ t2]) auto
      next
        case r2: True
        have e2: "ents (tree_of K t2) d n = None" using a2(4) r2 assms(6) e1(2) by simp
        obtain r3 t3 where a3: "xv6fs_dir_add_entry K d n i t2 = Some (r3, t3)"
          "r3 \<in> {Ret (), Err ENOSPC, Err EIO, Err EFBIG}" "building K i t3"
          "tree_of K t3 = (if r3 = Ret ()
            then (tree_of K t2)\<lparr>ents := (ents (tree_of K t2))(d := (ents (tree_of K t2) d)(n \<mapsto> i))\<rparr> else tree_of K t2)"
          "live_dir t3 d"
          by (rule building_add [OF assms(1,2) a2(3) l2 assms(12,13,7,8) e2])
        show ?thesis using a1 a2 a3 r1 r2 assms(6,11)
          by (intro exI [of _ r3] exI [of _ t3]) (auto simp: fun_upd_twist)
      qed
    qed
  qed
  then show ?thesis using that by blast
qed

lemma S_ISDIR_mkdir: "m AND S_IFMT = 0 \<Longrightarrow> S_ISDIR (S_IFDIR OR m)"
proof -
  assume "m AND S_IFMT = 0"
  then have "(S_IFDIR OR m) AND S_IFMT = S_IFDIR AND S_IFMT" by (simp add: bit.conj_disj_distrib2)
  then show ?thesis by (simp add: S_ISDIR_def)
qed

lemma unat_nlink_inc:
  fixes n :: u32
  assumes "unat n < 65536" shows "unat (n + 1) = unat n + 1"
  using assms by (simp add: unat_word_ariths)

lemma unat_nlink_dec:
  fixes n :: u32
  assumes "n \<noteq> 0" shows "unat (n - 1) = unat n - 1"
  using assms by (simp add: unat_minus_one)

lemma vfs_mkdir:
  assumes "kernel_bitops K" "io_ok K" "vol_inv K s" "live_dir s d" "new_name s d n" "m AND S_IFMT = 0"
  shows "\<exists>r t. xv6fs_mkdir K d n m s = Some (r, t) \<and> r \<noteq> Oops \<and> vol_inv K t \<and>
    (\<forall>i. r = Ret i \<longrightarrow> kinds (tree_of K s) i = None) \<and>
    tree_of K t = (case r of Ret i \<Rightarrow> tree_mkdir d n i (tree_of K s) | _ \<Rightarrow> tree_of K s)"
proof -
  note v = vol_invD [OF assms(3)] and l = live_dirD [OF assms(3,4)] and nn = new_nameD [OF assms(5)]
  let ?m = "S_IFDIR OR m"
  have dir: "S_ISDIR ?m" by (rule S_ISDIR_mkdir [OF assms(6)])
  obtain x t1 where new: "xv6fs_new_inode K ?m s = (x, t1)" by fastforce
  show ?thesis
  proof (cases x)
    case (Inl e)
    then have "t1 = s" using new_inode_Inl(1) new by blast
    then have "xv6fs_mkdir K d n m s = Some (Err e, s)" using new Inl by (simp add: xv6fs_mkdir_def)
    then show ?thesis using assms(3) by (intro exI [of _ "Err e"] exI [of _ s]) simp
  next
    case (Inr i)
    note n1 = store_new_inode [OF v(1) new [unfolded Inr]] and d1 = new_inode_dir [OF assms(3,4) new [unfolded Inr]]
    have ki: "kinds (tree_of K s) i = None" using n1(3) by (simp add: links_of_resident)
    have b1: "building K i t1" using n1(1,2) d1(5) by (simp add: building_def)
    have live: "live_dir t1 i" "live_dir t1 d"
      using cached_i [OF n1(2)] cached_i [OF d1(2)] d1(3,8) dir l(2,3)
      by (simp_all add: live_dir_def live_dir_inode_def new_inode_fields_facts)
    have ei: "ents (tree_of K t1) = ents (tree_of K s)" "ents (tree_of K t1) i = Map.empty"
      using unused_dir [OF v(2) ki] by (simp_all add: n1(4))
    have ed: "ents (tree_of K t1) d n = None" using nn(5) l(4) ei(1) by simp
    obtain r t where add: "add_entries K [(i, dot, i), (i, dotdot, d), (d, n, i)] t1 = Some (r, t)" "r \<noteq> Oops"
      "building K i t" "\<forall>j. j \<noteq> i \<longrightarrow> r \<noteq> Ret () \<longrightarrow> ents (tree_of K t) j = ents (tree_of K t1) j"
      "r = Ret () \<longrightarrow> ents (tree_of K t) = (ents (tree_of K t1))
         (i := [dot \<mapsto> i, dotdot \<mapsto> d], d := (ents (tree_of K t1) d)(n \<mapsto> i))"
      "kinds (tree_of K t) = kinds (tree_of K t1)" "links (tree_of K t) = links (tree_of K t1)" "live_dir t d"
      by (rule mkdir_entries [OF assms(1,2) b1 live d1(1,6,7) l(8,9) ei(2) nn(1,2) ed])
    have bt: "store_inv K t" "i \<in> dom (icache t)" "i \<in> idirty t" using add(3) by (simp_all add: building_def)
    have kl: "kinds (tree_of K t) = (kinds (tree_of K s))(i \<mapsto> XV6FS_T_DIR)"
      "links (tree_of K t) = (links (tree_of K s))(i := 2)"
      using add(6,7) dir by (simp_all add: n1(4))
    show ?thesis
    proof (cases "r = Ret ()")
      case True
      let ?w = "inode_inc_link_count d t"
      have call: "xv6fs_mkdir K d n m s = Some (Ret i, ?w)"
        unfolding xv6fs_mkdir_def new Inr prod.case sum.case add(1) True by simp
      have dt: "d \<in> dom (icache t)" "i_type (xv6fs_i t d) = XV6FS_T_DIR" "i_nlink (xv6fs_i t d) \<noteq> 0"
        using add(8) by (auto simp: live_dir_def live_dir_inode_def xv6fs_i_def split: option.splits)
      have "links (tree_of K t) d = unat (i_nlink (xv6fs_i t d))" by (rule cached_facts(9) [OF bt(1) dt(1)])
      then have nl: "unat (i_nlink (xv6fs_i t d)) = links (tree_of K s) d" using kl(2) d1(1) by simp
      then have n': "unat (i_nlink (xv6fs_i t d) + 1) = links (tree_of K s) d + 1" using v(3) [of d] unat_nlink_inc by metis
      then have nz: "i_nlink (xv6fs_i t d) + 1 \<noteq> 0" by (metis unat_0 add_eq_0_iff_both_eq_0 zero_neq_one)
      note w = store_link_count [OF bt(1) dt(1), of "i_nlink (xv6fs_i t d) + 1", folded inode_inc_link_count_def]
      have "ents (tree_of K t) d = dir_names t d"
        using tree_names [OF dt(1), of K] dt(2,3) by (simp add: live_dir_inode_def)
      then have tr: "tree_of K ?w = tree_mkdir d n i (tree_of K s)"
        unfolding w(2) using add(5) True ei(1) kl n' nz dt(2)
        by (intro tree_eqI) (simp_all add: tree_mkdir_def)
      have "tree_inv (tree_of K ?w)"
        unfolding tr using l(4) nn(5) by (intro tree_mkdir_inv [OF v(2) l(5) _ nn(3) ki]) simp
      then have "vol_inv K ?w"
        using v(3) l(6) by (intro vol_invI [OF w(1)]) (auto simp: tr tree_mkdir_def split: if_splits)
      then show ?thesis using call tr ki by (intro exI [of _ "Ret i"] exI [of _ ?w]) simp
    next
      case False
      then obtain e where e: "r = Err e" using add(2) by (cases r) auto
      have call: "xv6fs_mkdir K d n m s = Some (Err e, discard_inode K i t)"
        unfolding xv6fs_mkdir_def new Inr prod.case sum.case add(1) e by simp
      have "store_inv K (discard_inode K i t)" "tree_of K (discard_inode K i t) = tree_of K s"
        by (rule discard_back [OF assms(1,2) v(2) ki bt]; use add(4) False ei(1) kl in simp)+
      then show ?thesis using call vol_inv_same [OF assms(3)]
        by (intro exI [of _ "Err e"] exI [of _ "discard_inode K i t"]) simp
    qed
  qed
qed

section \<open>Links and removal\<close>

lemma vfs_link:
  assumes "kernel_bitops K" "io_ok K" "vol_inv K s" "live_dir s d" "is_file s i"
    and "i_nlink (xv6fs_i s i) \<noteq> 0" "new_name s d n"
  shows "\<exists>r t. xv6fs_link K i d n s = Some (r, t) \<and> r \<noteq> Oops \<and> vol_inv K t \<and>
    tree_of K t = (if r = Ret () then tree_link d n i (tree_of K s) else tree_of K s)"
proof -
  note v = vol_invD [OF assms(3)] and l = live_dirD [OF assms(3,4)] and f = is_fileD [OF assms(5)]
    and nn = new_nameD [OF assms(7)]
  note c = cached_facts [OF v(1) f(1)]
  have di: "d \<noteq> i" using l(2) f(2) by auto
  have mode: "\<not> S_ISDIR (i_mode (xv6fs_i s i))" using c(2) f(2) by (simp add: tables_set_def)
  show ?thesis
  proof (cases "65535 \<le> i_nlink (xv6fs_i s i)")
    case True
    then have "xv6fs_link K i d n s = Some (Err EMLINK, s)" using mode by (simp add: xv6fs_link_def)
    then show ?thesis using assms(3) by (intro exI [of _ "Err EMLINK"] exI [of _ s]) simp
  next
    case False
    then have lt: "unat (i_nlink (xv6fs_i s i)) < 65535" by (simp add: word_le_nat_alt)
    obtain r t a z where add: "xv6fs_dir_add_entry K d n i s = Some (r, t)"
      "r \<in> {Ret (), Err ENOSPC, Err EIO, Err EFBIG}" "store_inv K t" "touches d s t"
      "tree_of K t = (if r = Ret () \<and> i_nlink (xv6fs_i s d) \<noteq> 0
         then (tree_of K s)\<lparr>ents := (ents (tree_of K s))(d := (ents (tree_of K s) d)(n \<mapsto> i))\<rparr>
         else tree_of K s)"
      using store_add_entry [OF assms(1,2) v(1) l(1,2) nn(1,2) c(5,6) nn(4)] by metis
    show ?thesis
    proof (cases "r = Ret ()")
      case False
      then have "xv6fs_link K i d n s = Some (r, t)"
        using add(1,2) mode \<open>\<not> 65535 \<le> i_nlink (xv6fs_i s i)\<close> by (auto simp: xv6fs_link_def)
      then show ?thesis using add False vol_inv_same [OF assms(3)] by (intro exI [of _ r] exI [of _ t]) auto
    next
      case True
      let ?w = "inode_inc_link_count i t"
      have ic: "icache t i = icache s i" using add(4) di by (simp add: touches_def same_tables_def)
      then have it: "i \<in> dom (icache t)" "xv6fs_i t i = xv6fs_i s i" using f(1) by (simp_all add: domIff xv6fs_i_def)
      have call: "xv6fs_link K i d n s = Some (Ret (), ?w)"
        using add(1) True mode \<open>\<not> 65535 \<le> i_nlink (xv6fs_i s i)\<close> by (simp add: xv6fs_link_def)
      note w = store_link_count [OF add(3) it(1), of "i_nlink (xv6fs_i t i) + 1", folded inode_inc_link_count_def]
      have "ents (tree_of K s) i = Map.empty"
        using tree_names [OF f(1), of K] f(2) by (simp add: live_dir_inode_def)
      moreover have "unat (i_nlink (xv6fs_i s i) + 1) = links (tree_of K s) i + 1"
        using unat_nlink_inc lt c(9) by simp
      ultimately have tr: "tree_of K ?w = tree_link d n i (tree_of K s)"
        unfolding w(2) add(5) using True l(3) f(2) it(2) di
        by (intro tree_eqI) (simp_all add: tree_link_def fun_eq_iff)
      have "tree_inv (tree_of K ?w)"
        unfolding tr using l(4) nn(5) f(2) by (intro tree_link_inv [OF v(2) l(5) _ nn(3) c(8)]) simp_all
      then have "vol_inv K ?w"
        using v(3) lt c(9) by (intro vol_invI [OF w(1)]) (simp_all add: tr tree_link_def)
      then show ?thesis using call tr by (intro exI [of _ "Ret ()"] exI [of _ ?w]) simp
    qed
  qed
qed

text \<open>A link count that is not yet 0 goes down by one; a directory without links has no names left.\<close>

lemma store_dec_link:
  assumes "store_inv K s" "i \<in> dom (icache s)" "links (tree_of K s) i \<noteq> 0"
  shows "store_inv K (inode_dec_link_count i s)" "dom (icache (inode_dec_link_count i s)) = dom (icache s)"
    "tree_of K (inode_dec_link_count i s) = (tree_of K s)
       \<lparr>links := (links (tree_of K s))(i := links (tree_of K s) i - 1),
        ents := (ents (tree_of K s))(i := if links (tree_of K s) i = 1 then Map.empty else ents (tree_of K s) i)\<rparr>"
proof -
  let ?n = "i_nlink (xv6fs_i s i)"
  note c = cached_facts [OF assms(1,2)]
  note w = store_link_count [OF assms(1,2), of "?n - 1", folded inode_dec_link_count_def]
  show "store_inv K (inode_dec_link_count i s)" by (rule w(1))
  show "dom (icache (inode_dec_link_count i s)) = dom (icache s)"
    using assms(2) by (auto simp: inode_dec_link_count_def set_nlink_def set_inode_def)
  have nz: "?n \<noteq> 0" using assms(3) c(9) by auto
  then have u: "unat (?n - 1) = links (tree_of K s) i - 1" using unat_nlink_dec c(9) by metis
  then have "?n - 1 = 0 \<longleftrightarrow> links (tree_of K s) i = 1" using assms(3) unat_eq_0 [of "?n - 1"] by auto
  then have "(if i_type (xv6fs_i s i) = XV6FS_T_DIR \<and> ?n - 1 \<noteq> 0 then dir_names s i else Map.empty) =
      (if links (tree_of K s) i = 1 then Map.empty else ents (tree_of K s) i)"
    using tree_names [OF assms(2), of K] nz by (simp add: live_dir_inode_def)
  then show "tree_of K (inode_dec_link_count i s) = (tree_of K s)
       \<lparr>links := (links (tree_of K s))(i := links (tree_of K s) i - 1),
        ents := (ents (tree_of K s))(i := if links (tree_of K s) i = 1 then Map.empty else ents (tree_of K s) i)\<rparr>"
    unfolding w(2) u by presburger
qed

lemma vfs_unlink:
  assumes "vol_inv K s" "live_dir s d" "is_file s i" "n \<notin> dots" "dir_names s d n = Some i"
  shows "\<exists>t. xv6fs_unlink K d n i s = Some (Ret (), t) \<and> vol_inv K t \<and> i \<in> dom (icache t) \<and>
    tree_of K t = tree_unlink d n i (tree_of K s)"
proof -
  note v = vol_invD [OF assms(1)] and l = live_dirD [OF assms(1,2)] and f = is_fileD [OF assms(3)]
  have di: "d \<noteq> i" using l(2) f(2) by auto
  have "dir_map s d n \<noteq> None" using assms(5) by (auto simp: dir_names_def)
  then obtain t where t: "xv6fs_unlink K d n i s = Some (Ret (), inode_dec_link_count i t)"
    "store_inv K t" "icache t = icache s"
    "tree_of K t = (tree_of K s)\<lparr>ents := (ents (tree_of K s))(d := (ents (tree_of K s) d)(n := None))\<rparr>"
    using store_drop_entry [OF v(1) l(1,2), of n i] by metis
  let ?w = "inode_dec_link_count i t"
  have e: "ents (tree_of K s) d n = Some i" using l(4) assms(5) by simp
  have "links (tree_of K t) i \<noteq> 0" using entry_exists(2) [OF v(2) e] by (simp add: t(4))
  note w = store_dec_link [OF t(2) _ this]
  have it: "i \<in> dom (icache t)" using f(1) t(3) by simp
  have "ents (tree_of K s) i = Map.empty"
    using tree_names [OF f(1), of K] f(2) by (simp add: live_dir_inode_def)
  then have tr: "tree_of K ?w = tree_unlink d n i (tree_of K s)"
    unfolding w(3) [OF it] t(4) using di by (intro tree_eqI) (simp_all add: tree_unlink_def fun_eq_iff)
  have "tree_inv (tree_of K ?w)"
    unfolding tr using f(2) cached_facts(8) [OF v(1) f(1)] by (intro tree_unlink_inv [OF v(2) e assms(4)]) simp
  then have "vol_inv K ?w"
    using v(3) by (intro vol_invI [OF w(1) [OF it]]) (auto simp: tr tree_unlink_def intro: le_less_trans [OF diff_le_self])
  moreover have "i \<in> dom (icache ?w)" by (simp add: inode_dec_link_count_def set_nlink_def set_inode_def)
  ultimately show ?thesis using t(1) tr by blast
qed

text \<open>\<open>xv6fs_dir_is_empty\<close> accepts exactly the directories with \<open>.\<close> and \<open>..\<close> and nothing else.\<close>

lemma empty_dir_names:
  assumes "vol_inv K s" "live_dir s i"
  shows "length (dir_entries s i) \<le> 2 \<longleftrightarrow> dom (dir_names s i) \<subseteq> dots"
proof -
  note v = vol_invD [OF assms(1)] and l = live_dirD [OF assms(1,2)]
  have w: "dir_wf (tree_of K s) i" by (rule tree_invD(4) [OF v(2) l(5)])
  have dm: "dom (dir_names s i) = set (map fst (dir_entries s i))"
    by (auto simp: dir_names_def dir_map_entries dom_map_of_conv_image_fst [symmetric])
  have "distinct (map fst (dir_entries s i))" using l(7) by (simp add: dir_inv_def unique_names_def)
  then have c: "card (dom (dir_names s i)) = length (dir_entries s i)"
    using distinct_card [of "map fst (dir_entries s i)"] dm by simp
  have sub: "dots \<subseteq> dom (dir_names s i)" using w l(4) by (auto simp: dir_wf_def)
  show ?thesis
  proof
    assume "length (dir_entries s i) \<le> 2"
    then have "dots = dom (dir_names s i)" using sub c dm by (intro card_seteq) simp_all
    then show "dom (dir_names s i) \<subseteq> dots" by simp
  next
    assume "dom (dir_names s i) \<subseteq> dots"
    then have "card (dom (dir_names s i)) \<le> card dots" by (intro card_mono) simp_all
    then show "length (dir_entries s i) \<le> 2" using c by simp
  qed
qed

lemma vfs_rmdir:
  assumes "vol_inv K s" "live_dir s d" "live_dir s i" "i \<noteq> d" "n \<notin> dots" "dir_names s d n = Some i"
  shows "\<exists>r t. xv6fs_rmdir K d n i s = Some (r, t) \<and> r \<noteq> Oops \<and> vol_inv K t \<and>
    (if dom (dir_names s i) \<subseteq> dots
     then r = Ret () \<and> tree_of K t = tree_rmdir d n i (tree_of K s) else r = Err ENOTEMPTY \<and> t = s)"
proof -
  note v = vol_invD [OF assms(1)] and l = live_dirD [OF assms(1,2)] and li = live_dirD [OF assms(1,3)]
  have "dir_ok K s i" using li(7) by (simp add: dir_inv_def)
  from is_empty_eq [OF this]
  have e: "xv6fs_dir_is_empty K i s = Some (Ret (dom (dir_names s i) \<subseteq> dots), s)"
    using empty_dir_names [OF assms(1,3)] by (simp add: dir_entries_def)
  show ?thesis
  proof (cases "dom (dir_names s i) \<subseteq> dots")
    case False
    then show ?thesis using e assms(1) by (intro exI [of _ "Err ENOTEMPTY"] exI [of _ s]) (simp add: xv6fs_rmdir_def)
  next
    case True
    have en: "ents (tree_of K s) d n = Some i" "dom (ents (tree_of K s) i) \<subseteq> dots" using l(4) li(4) assms(6) True by simp_all
    note rm = tree_rmdir_inv [OF v(2) en(1) assms(5) li(6) en(2) not_sym [OF assms(4)]]
    have "dir_map s d n \<noteq> None" using assms(6) by (auto simp: dir_names_def)
    then obtain t where t: "xv6fs_unlink K d n i s = Some (Ret (), inode_dec_link_count i t)"
      "store_inv K t" "icache t = icache s"
      "tree_of K t = (tree_of K s)\<lparr>ents := (ents (tree_of K s))(d := (ents (tree_of K s) d)(n := None))\<rparr>"
      using store_drop_entry [OF v(1) l(1,2), of n i] by metis
    let ?w1 = "inode_dec_link_count i t"
    let ?w2 = "inode_dec_link_count i ?w1"
    let ?w3 = "inode_dec_link_count d ?w2"
    have call: "xv6fs_rmdir K d n i s = Some (Ret (), ?w3)" using e t(1) True by (simp add: xv6fs_rmdir_def)
    have dm: "i \<in> dom (icache t)" "d \<in> dom (icache t)" using li(1) l(1) t(3) by simp_all
    have "links (tree_of K t) i \<noteq> 0" using rm(2) by (simp add: t(4))
    note w1 = store_dec_link [OF t(2) dm(1) this]
    have "i \<in> dom (icache ?w1)" "links (tree_of K ?w1) i \<noteq> 0" using w1(2) dm(1) rm(2) by (simp_all add: w1(3) t(4))
    note w2 = store_dec_link [OF w1(1) this]
    have "d \<in> dom (icache ?w2)" "links (tree_of K ?w2) d \<noteq> 0"
      using w1(2) w2(2) dm(2) rm(3) assms(4) by (simp_all add: w2(3) w1(3) t(4))
    note w3 = store_dec_link [OF w2(1) this]
    have tr: "tree_of K ?w3 = tree_rmdir d n i (tree_of K s)"
      using rm(2,3) assms(4) by (intro tree_eqI) (simp_all add: w3(3) w2(3) w1(3) t(4) tree_rmdir_def fun_eq_iff)
    have "vol_inv K ?w3"
      using v(3) rm(1) by (intro vol_invI [OF w3(1)])
        (auto simp: tr tree_rmdir_def intro: le_less_trans [OF diff_le_self])
    then show ?thesis using call tr True by (intro exI [of _ "Ret ()"] exI [of _ ?w3]) simp
  qed
qed

section \<open>Lookup\<close>

text \<open>References to buffers are not part of what the volume holds.\<close>

lemma store_holds:
  assumes "store_inv K s"
  shows "store_inv K (s\<lparr>holds := h\<rparr>)" "tree_of K (s\<lparr>holds := h\<rparr>) = tree_of K s"
proof -
  let ?t = "s\<lparr>holds := h\<rparr>"
  note inv = store_invD [OF assms]
  have "resident K ?t = resident K s" by (intro ext resident_cong) simp_all
  then have same: "same_contents K s ?t" by (simp add: same_contents_def same_data_def)
  have "ialloc_inv ?t" using inv(4) by (auto simp: ialloc_inv_def itable_ok_def)
  moreover have "clean_ok K ?t" "mode_ok ?t" "0 \<notin> dom (icache ?t)"
    using inv(6,8,9) by (simp_all add: clean_ok_def mode_ok_def)
  ultimately show "store_inv K ?t" "tree_of K ?t = tree_of K s" using same_contents_store [OF assms same] by blast+
qed

lemmas store_brelse = store_holds [of K s "holds s - 1" for K s, folded brelse_def]

lemma vfs_lookup:
  assumes "vol_inv K s" "live_dir s d"
  shows "\<exists>r t. xv6fs_lookup K d n s = Some (r, t) \<and> vol_inv K t \<and> tree_of K t = tree_of K s \<and>
    (if XV6FS_DIRSIZ < length n then r = Err ENAMETOOLONG
     else case dir_names s d n of None \<Rightarrow> r = Ret None | Some i \<Rightarrow> r \<in> {Ret (Some i), Err ENOMEM})"
proof (cases "XV6FS_DIRSIZ < length n \<or> dir_map s d n = None")
  case True
  then show ?thesis
    using lookup_correct [OF live_dirD(7) [OF assms], of n] assms(1) by (auto simp: dir_names_def)
next
  case False
  note v = vol_invD [OF assms(1)] and l = live_dirD [OF assms]
  obtain w where w: "dir_map s d n = Some w" using False by auto
  let ?u = "s\<lparr>holds := holds s + 1\<rparr>"
  have call: "xv6fs_lookup K d n s = Some (case xv6fs_iget K (unat w) ?u of
      (Inr ino, s') \<Rightarrow> (Ret (Some ino), brelse s') | (Inl e, s') \<Rightarrow> (Err e, brelse s'))"
    using lookup_correct [OF l(7), of n] False w by simp
  have n: "dir_names s d n = Some (unat w)" using w by (simp add: dir_names_def)
  then have e: "ents (tree_of K s) d n = Some (unat w)" using l(4) by simp
  have u: "store_inv K ?u" "tree_of K ?u = tree_of K s" by (rule store_holds [OF v(1)])+
  have "resident K ?u (unat w) \<noteq> None"
    using entry_exists(1) [OF v(2) e] u(2) links_of_resident(2) [of K ?u "unat w"] by auto
  moreover have "unique_names s d" using l(7) by (simp add: dir_inv_def)
  then have "0 < unat w" using w by (auto simp: dir_map_iff live_def unat_gt_0 split: option.splits)
  ultimately consider "xv6fs_iget K (unat w) ?u = (Inl ENOMEM, ?u)"
    | t where "xv6fs_iget K (unat w) ?u = (Inr (unat w), t)" "store_inv K t" "tree_of K t = tree_of K ?u"
    using store_iget [OF u(1)] by metis
  then show ?thesis
  proof cases
    case 1
    have "vol_inv K (brelse ?u)" "tree_of K (brelse ?u) = tree_of K s"
      using store_brelse [OF u(1)] u(2) vol_inv_same [OF assms(1)] by simp_all
    then show ?thesis using call 1 n False by (intro exI [of _ "Err ENOMEM"] exI [of _ "brelse ?u"]) simp
  next
    case (2 t)
    have "vol_inv K (brelse t)" "tree_of K (brelse t) = tree_of K s"
      using store_brelse [OF 2(2)] 2(3) u(2) vol_inv_same [OF assms(1)] by simp_all
    then show ?thesis using call 2(1) n False
      by (intro exI [of _ "Ret (Some (unat w))"] exI [of _ "brelse t"]) simp
  qed
qed

section \<open>Every call\<close>

text \<open>
  The name spaces a call may leave: what its operation does to the one
  before, or, when the call fails, the one before.
\<close>

fun tree_results :: "vfs_call \<Rightarrow> tree \<Rightarrow> tree set" where
  "tree_results (Create d n m) A = {A} \<union> {tree_create d n i XV6FS_T_FILE A | i. kinds A i = None}"
| "tree_results (Mkdir d n m) A = {A} \<union> {tree_mkdir d n i A | i. kinds A i = None}"
| "tree_results (Unlink d n i) A = {tree_unlink d n i A}"
| "tree_results (Rmdir d n i) A = {if dom (ents A i) \<subseteq> dots then tree_rmdir d n i A else A}"
| "tree_results (Link i d n) A = {A, tree_link d n i A}"
| "tree_results (Iput i) A = {if links A i = 0 then tree_forget i A else A}"
| "tree_results _ A = {A}"

lemma vfs_iput:
  assumes "kernel_bitops K" "io_ok K" "vol_inv K s" "vfs_allowed s (Iput i)"
  shows "vol_inv K (iput_last K i s) \<and> tree_of K (iput_last K i s) \<in> tree_results (Iput i) (tree_of K s)"
proof -
  note v = vol_invD [OF assms(3)]
  have c: "i \<in> dom (icache s)" "i \<noteq> 1" "i_nlink (xv6fs_i s i) = 0 \<or> i \<notin> idirty s" using assms(4) by auto
  have l: "links (tree_of K s) i = unat (i_nlink (xv6fs_i s i))" by (rule cached_facts(9) [OF v(1) c(1)])
  show ?thesis
  proof (cases "i_nlink (xv6fs_i s i) = 0")
    case True
    note r = store_iput_unlinked [OF assms(1,2) v(1) c(1) True]
    have l0: "links (tree_of K s) i = 0" using l True by simp
    then have "tree_inv (tree_forget i (tree_of K s))" using tree_forget_inv [OF v(2)] c(2) by simp
    then have "vol_inv K (iput_last K i s)"
      using v(3) by (intro vol_invI [OF r(1)]) (simp_all add: r(2) tree_forget_def)
    then show ?thesis using r(2) l0 by simp
  next
    case False
    then have d: "i \<notin> idirty s" using c(3) by simp
    note r = store_iput_clean [OF v(1) c(1) d False]
    have "links (tree_of K s) i \<noteq> 0" using l False by (simp add: unat_eq_0)
    then show ?thesis using vol_inv_same [OF assms(3) r] r(2) by simp
  qed
qed

text \<open>Calls on regular files and attributes leave the name space alone.\<close>

lemma vfs_file_calls:
  assumes "kernel_bitops K" "io_ok K" "setattr_copy_ok K" "page_cache_ok P" "vol_inv K s" "vfs_allowed s c"
    and "c \<in> {Map_block i l, Page_write i l dt, Write i pos dw, Setattr i ia, Write_back i w}"
  shows "\<exists>t. vfs_exec P K c s = Some t \<and> vol_inv K t \<and> tree_of K t = tree_of K s"
proof -
  note v = vol_invD [OF assms(5)]
  have "\<exists>t. vfs_exec P K c s = Some t \<and> store_inv K t \<and> tree_of K t = tree_of K s"
  proof -
    consider "c = Map_block i l" | "c = Page_write i l dt" | "c = Write i pos dw" | "c = Setattr i ia" | "c = Write_back i w"
      using assms(7) by blast
    then show ?thesis
    proof cases
      case 1
      then have f: "is_file s i" using assms(6) by simp
      obtain r t where call: "xv6fs_get_block K i l True s = (r, t)" by fastforce
      show ?thesis using 1 call store_get_block [OF assms(1,2) v(1) is_fileD [OF f] call] by simp
    next
      case 2
      then have f: "is_file s i" "length dt = 512" using assms(6) by simp_all
      show ?thesis using 2 store_page_write [OF v(1) is_fileD [OF f(1)] f(2)] by simp
    next
      case 3
      then have f: "is_file s i" "pos + length dw \<le> XV6FS_MAXFILE * XV6FS_BSIZE" using assms(6) by simp_all
      obtain r t where call: "write_iter (xv6fs_file_fops P K) i pos dw s = (r, t)" by fastforce
      show ?thesis
        using 3 call v(1) store_write [OF assms(1,2,4) v(1) is_fileD [OF f(1)] f(2) call]
        by (cases "i_fop (xv6fs_i s i) = Ops_file") (simp_all add: file_ops_def)
    next
      case 4
      then have f: "is_file s i" "ia_valid_size ia \<Longrightarrow> 0 \<le> ia_size ia \<and> ia_size ia < 4294967296"
        using assms(6) by simp_all
      obtain r t where call: "xv6fs_setattr K i ia s = (r, t)" by fastforce
      have "store_inv K t \<and> tree_of K t = tree_of K s"
      proof (cases r)
        case (Inl e)
        then have "t = s" using call by (auto simp: xv6fs_setattr_def Let_def split: option.splits if_splits)
        then show ?thesis using v(1) by simp
      next
        case (Inr u)
        then show ?thesis
          using store_setattr [OF assms(1-3) v(1) is_fileD(1) [OF f(1)] call [unfolded Inr]] f is_fileD [OF f(1)] by simp
      qed
      then show ?thesis using 4 call v(1) setattr_op [of K "xv6fs_i s i"] by auto
    next
      case 5
      then have c: "i \<in> dom (icache s)" using assms(6) by auto
      show ?thesis using 5 store_write_back [OF assms(2) v(1) c v(3)] by (simp add: xv6fs_super_ops_def write_back_def)
    qed
  qed
  then show ?thesis using vol_inv_same [OF assms(5)] by blast
qed

lemma returned_Some: "x = Some (r, t) \<Longrightarrow> r \<noteq> Oops \<Longrightarrow> returned x = Some t"
  by (cases r) (simp_all add: returned_def)

lemma vfs_exec_ok:
  assumes "kernel_bitops K" "io_ok K" "setattr_copy_ok K" "page_cache_ok P" "vol_inv K s" "vfs_allowed s c"
  shows "\<exists>t. vfs_exec P K c s = Some t \<and> vol_inv K t \<and> tree_of K t \<in> tree_results c (tree_of K s)"
proof (cases c)
  case (Lookup d n)
  then obtain r t where "xv6fs_lookup K d n s = Some (r, t)" "vol_inv K t" "tree_of K t = tree_of K s" "r \<noteq> Oops"
    using vfs_lookup [OF assms(5), of d n] assms(6) by (auto split: if_splits option.splits)
  then show ?thesis using Lookup returned_Some live_dirD(10) [OF assms(5)] assms(6) by fastforce
next
  case (Create d n m)
  then obtain r t where "xv6fs_create K d n m s = Some (r, t)" "vol_inv K t" "r \<noteq> Oops"
    "\<forall>i. r = Ret i \<longrightarrow> kinds (tree_of K s) i = None"
    "tree_of K t = (case r of Ret i \<Rightarrow> tree_create d n i XV6FS_T_FILE (tree_of K s) | _ \<Rightarrow> tree_of K s)"
    using vfs_create [OF assms(1,2,5), of d n m] assms(6) by auto
  then show ?thesis using Create live_dirD(10) [OF assms(5), of d] assms(6) by (cases r) (auto simp: returned_def)
next
  case (Mkdir d n m)
  then obtain r t where "xv6fs_mkdir K d n m s = Some (r, t)" "vol_inv K t" "r \<noteq> Oops"
    "\<forall>i. r = Ret i \<longrightarrow> kinds (tree_of K s) i = None"
    "tree_of K t = (case r of Ret i \<Rightarrow> tree_mkdir d n i (tree_of K s) | _ \<Rightarrow> tree_of K s)"
    using vfs_mkdir [OF assms(1,2,5), of d n m] assms(6) by auto
  then show ?thesis using Mkdir live_dirD(10) [OF assms(5), of d] assms(6) by (cases r) (auto simp: returned_def)
next
  case (Unlink d n i)
  then obtain t where "xv6fs_unlink K d n i s = Some (Ret (), t)" "vol_inv K t"
    "tree_of K t = tree_unlink d n i (tree_of K s)"
    using vfs_unlink [OF assms(5), of d i n] assms(6) by auto
  then show ?thesis using Unlink live_dirD(10) [OF assms(5), of d] assms(6) by (simp add: returned_def)
next
  case (Rmdir d n i)
  then have li: "live_dir s i" using assms(6) by simp
  obtain r t where r: "xv6fs_rmdir K d n i s = Some (r, t)" "vol_inv K t" "r \<noteq> Oops"
    "if dom (dir_names s i) \<subseteq> dots then r = Ret () \<and> tree_of K t = tree_rmdir d n i (tree_of K s)
     else r = Err ENOTEMPTY \<and> t = s"
    using vfs_rmdir [OF assms(5), of d i n] assms(6) Rmdir by auto
  have "tree_of K t = (if dom (ents (tree_of K s) i) \<subseteq> dots then tree_rmdir d n i (tree_of K s) else tree_of K s)"
    using r(4) live_dirD(4) [OF assms(5) li] by (simp split: if_splits)
  then show ?thesis using Rmdir returned_Some [OF r(1,3)] r(2) live_dirD(10) [OF assms(5), of d] assms(6) by simp
next
  case (Link i d n)
  then obtain r t where r: "xv6fs_link K i d n s = Some (r, t)" "vol_inv K t" "r \<noteq> Oops"
    "tree_of K t = (if r = Ret () then tree_link d n i (tree_of K s) else tree_of K s)"
    using vfs_link [OF assms(1,2,5), of d i n] assms(6) by auto
  then show ?thesis using Link returned_Some [OF r(1,3)] live_dirD(10) [OF assms(5), of d] assms(6) by simp
next
  case (Iput i)
  then show ?thesis using vfs_iput [OF assms(1,2,5), of i] assms(6) by simp
qed (use vfs_file_calls [OF assms] in \<open>fastforce\<close>)+

section \<open>Histories\<close>

fun tree_run :: "vfs_call list \<Rightarrow> tree \<Rightarrow> tree set" where
  "tree_run [] A = {A}"
| "tree_run (c # cs) A = (\<Union>B \<in> tree_results c A. tree_run cs B)"

text \<open>The calls of a history that are made, because the VFS allows them when their turn comes.\<close>

fun vfs_made :: "page_cache \<Rightarrow> kernel \<Rightarrow> vfs_call list \<Rightarrow> fs \<Rightarrow> vfs_call list" where
  "vfs_made P K [] s = []"
| "vfs_made P K (c # cs) s =
     (if vfs_allowed s c
      then c # (case vfs_exec P K c s of None \<Rightarrow> [] | Some t \<Rightarrow> vfs_made P K cs t)
      else vfs_made P K cs s)"

lemma vfs_run_ok:
  assumes "kernel_bitops K" "io_ok K" "setattr_copy_ok K" "page_cache_ok P" "vol_inv K s"
  shows "\<exists>t. vfs_run P K cs s = Some t \<and> vol_inv K t \<and>
    tree_of K t \<in> tree_run (vfs_made P K cs s) (tree_of K s)"
  using assms(5)
proof (induction cs arbitrary: s)
  case (Cons c cs)
  show ?case
  proof (cases "vfs_allowed s c")
    case True
    then show ?thesis using vfs_exec_ok [OF assms(1-4) Cons.prems True] Cons.IH by fastforce
  next
    case False
    then show ?thesis using Cons.IH [OF Cons.prems] by auto
  qed
qed simp

text \<open>What the invariant says of blocks, entries and link counts.\<close>

lemma vol_inv_blocks:
  assumes "vol_inv K s" "b \<in> data_blocks s"
  shows "block_used s b \<longleftrightarrow> (\<exists>!i. b \<in> owned (whole K s) i)"
proof -
  note inv = store_invD [OF vol_invD(1) [OF assms(1)]]
  have "block_used s b" if "b \<in> owned (whole K s) i" for i
    using that inv(1) by (auto simp: own_inv_def owned_def imap_ok_def split: option.splits)
  moreover have "\<exists>i. b \<in> owned (whole K s) i" if "block_used s b"
    using that inv(2) assms(2) by (simp add: accounted_def)
  moreover have "i = j" if "b \<in> owned (whole K s) i" "b \<in> owned (whole K s) j" for i j
    using that inv(1) unfolding own_inv_def by blast
  ultimately show ?thesis by blast
qed

lemma vol_inv_entry:
  assumes "vol_inv K s" "ents (tree_of K s) d n = Some i" shows "resident K s i \<noteq> None"
  using entry_exists(1) [OF vol_invD(2) [OF assms(1)] assms(2)] by (auto simp: links_of_resident)

text \<open>What it says of the fields of an inode.\<close>

lemma vol_inv_fits:
  assumes "vol_inv K s" "resident K s i = Some ei" shows "inode_wf ei" "fits_dinode ei"
proof -
  note inv = store_invD [OF vol_invD(1) [OF assms(1)]]
  show wf: "inode_wf ei" using inv(3) assms(2) by (simp add: inodes_ok_def)
  have "imap_ok (whole K s) i" using inv(1) assms(2) by (simp add: own_inv_def domIff)
  then have "length (i_addrs ei) = 13" using assms(2) by (simp add: imap_ok_def xv6fs_i_def)
  moreover have "unat (i_nlink ei) < 65536"
    using vol_invD(3) [OF assms(1), of i] assms(2) by (simp add: links_of_resident)
  ultimately show "fits_dinode ei" using wf by (simp add: fits_dinode_def inode_wf_def)
qed

lemma sample_create: "vfs_allowed sample_fs (Create 1 [97] 0x8000)"
proof -
  have "dir_map (whole ref_kernel sample_fs) 1 [97] = None" unfolding dir_map_entries sample_entries by simp
  then have "dir_map sample_fs 1 [97] = None" using whole_views(4) [of 1 sample_fs ref_kernel] by simp
  then show ?thesis by (simp add: live_dir_def live_dir_inode_def new_name_def S_ISDIR_def)
qed

text \<open>
  C1: Whatever the VFS asks of the driver: from a consistent volume every
  history of calls returns, and at its end the volume is consistent: every
  data block is marked in use exactly when one inode owns it, and then no
  other does, every directory entry names an inode in use, and every link
  count is the number of entries that name the inode.
\<close>

theorem vfs_run_consistent:
  assumes "kernel_bitops K" "io_ok K" "setattr_copy_ok K" "page_cache_ok P" "vol_inv K s"
  shows "\<exists>t. vfs_run P K cs s = Some t \<and> vol_inv K t \<and>
    (\<forall>b \<in> data_blocks t. block_used t b \<longleftrightarrow> (\<exists>!i. b \<in> owned (whole K t) i)) \<and>
    (\<forall>d n i. ents (tree_of K t) d n = Some i \<longrightarrow> resident K t i \<noteq> None) \<and>
    (\<forall>i. links (tree_of K t) i = card (refs (tree_of K t) i))"
proof -
  obtain t where t: "vfs_run P K cs s = Some t" "vol_inv K t" using vfs_run_ok [OF assms] by blast
  then show ?thesis
    using vol_inv_blocks [OF t(2)] vol_inv_entry [OF t(2)] tree_invD(2) [OF vol_invD(2) [OF t(2)]] by blast
qed

theorem vfs_run_consistent_witness:
  "vfs_allowed sample_fs (Create 1 [97] 0x8000) \<and> (\<exists>t. vfs_run ref_page_cache ref_kernel [Create 1 [97] 0x8000, Mkdir 1 [98] 0x1ED, Write 2 0 [1, 2, 3], Unlink 1 [97] 2, Iput 2] sample_fs =
     Some t \<and> vol_inv ref_kernel t)"
  using sample_create vfs_run_consistent [OF ref_kernel_bitops ref_io_ok ref_setattr_copy_ok ref_page_cache_ok sample_vol_inv] by blast

text \<open>
  C2: The driver implements a tree of names.  The name space at the end of a
  history of calls is one that the operations of the specification, one for
  each call that was made and in their order, lead to.  A creation or a link
  does what its operation does or leaves the name space alone, an allowed
  removal of a name always does what its operation does, and a directory is
  removed exactly when it is empty.
\<close>

theorem vfs_run_refines:
  assumes "kernel_bitops K" "io_ok K" "setattr_copy_ok K" "page_cache_ok P" "vol_inv K s"
  shows "\<exists>t. vfs_run P K cs s = Some t \<and> tree_of K t \<in> tree_run (vfs_made P K cs s) (tree_of K s)"
  using vfs_run_ok [OF assms] by blast

theorem vfs_run_refines_witness:
  "\<exists>t. vfs_run ref_page_cache ref_kernel [Create 1 [97] 0x8000, Link 2 1 [98], Unlink 1 [97] 2] sample_fs = Some t \<and>
     tree_of ref_kernel t \<in> tree_run
       (vfs_made ref_page_cache ref_kernel [Create 1 [97] 0x8000, Link 2 1 [98], Unlink 1 [97] 2] sample_fs)
       (tree_of ref_kernel sample_fs)"
  by (rule vfs_run_refines [OF ref_kernel_bitops ref_io_ok ref_setattr_copy_ok ref_page_cache_ok sample_vol_inv])

text \<open>
  C10: The in-memory inode has wider fields than the dinode on disk: 32 bits of
  link count for 16, a signed 64-bit size for 32 bits.  Whatever the history,
  every inode of the volume has values that fit, one of the three types and
  13 addresses, so that \<open>xv6fs_dinode_to_disk\<close> truncates nothing and
  \<open>xv6fs_dinode_to_cpu\<close> gives the inode back.  Every cached inode has the mode
  and the operation tables of its type.
\<close>

theorem vfs_run_fits:
  assumes "kernel_bitops K" "io_ok K" "setattr_copy_ok K" "page_cache_ok P" "vol_inv K s"
  shows "\<exists>t. vfs_run P K cs s = Some t \<and>
    (\<forall>i ei. resident K t i = Some ei \<longrightarrow>
       i_type ei \<in> {XV6FS_T_DIR, XV6FS_T_FILE, XV6FS_T_DEV} \<and> unat (i_nlink ei) < 2 ^ 16 \<and>
       0 \<le> i_size ei \<and> i_size ei < 2 ^ 32 \<and> length (i_addrs ei) = XV6FS_NDIRECT + 1 \<and>
       same_persistent (xv6fs_dinode_to_cpu (xv6fs_dinode_to_disk ei) ej) ei) \<and>
    (\<forall>i ei. icache t i = Some ei \<longrightarrow>
       S_ISDIR (i_mode ei) = (i_type ei = XV6FS_T_DIR) \<and>
       (i_type ei = XV6FS_T_DIR \<longrightarrow> inode_ops K ei = xv6fs_dir_inode_ops K) \<and>
       (i_type ei = XV6FS_T_FILE \<longrightarrow>
          inode_ops K ei = xv6fs_file_inode_ops K \<and> file_ops P K ei = Some (xv6fs_file_fops P K)))"
proof -
  obtain t where t: "vfs_run P K cs s = Some t" "vol_inv K t" using vfs_run_ok [OF assms] by blast
  have "i_type ei \<in> {1, 2, 3} \<and> unat (i_nlink ei) < 2 ^ 16 \<and> 0 \<le> i_size ei \<and> i_size ei < 2 ^ 32 \<and>
      length (i_addrs ei) = 13 \<and> same_persistent (xv6fs_dinode_to_cpu (xv6fs_dinode_to_disk ei) ej) ei"
    if "resident K t i = Some ei" for i ei
    using vol_inv_fits [OF t(2) that] dinode_disk_roundtrip by (simp add: inode_wf_def fits_dinode_def)
  moreover have "tables_set ei" if "icache t i = Some ei" for i ei
    using store_invD(9) [OF vol_invD(1) [OF t(2)]] that by (simp add: mode_ok_def)
  ultimately show ?thesis using t(1) by (auto simp: tables_set_def inode_ops_def file_ops_def)
qed

theorem vfs_run_fits_witness:
  "\<exists>t. vfs_run ref_page_cache ref_kernel [Mkdir 1 [98] 0x1ED, Create 1 [97] 0x8000, Write 3 600 [7]] sample_fs = Some t \<and>
     (\<forall>i ei. resident ref_kernel t i = Some ei \<longrightarrow> unat (i_nlink ei) < 2 ^ 16)"
  using vfs_run_fits [OF ref_kernel_bitops ref_io_ok ref_setattr_copy_ok ref_page_cache_ok sample_vol_inv] by blast

end
