(* ===== verification/Xv6fs_Space.thy ===== *)
theory Xv6fs_Space
  imports Xv6fs_Vfs
begin

text \<open>
  Room on the volume.  Blocks are neither lost nor made: what an operation
  takes from the free blocks it gives to its inode, and the other way round.
  From this law it follows when the calls that need blocks succeed: a write
  for which there are blocks stores all its bytes, a create in a directory with
  room makes its file, and only a full volume makes them fail.  The last
  section gives the bytes of a file that is resized.
\<close>

section \<open>Free blocks and owned blocks\<close>

lemma finite_data [simp]: "finite (data_blocks s)"
  by (simp add: data_blocks_def)

lemma own_conserved:
  assumes "bmap_inv s" "bmap_inv t" "imap_ok s i" "imap_ok t i" "own_frame i s t"
  shows "card (free_blocks t) + card (owned t i) = card (free_blocks s) + card (owned s i)"
proof -
  define R where "R u = {b \<in> data_blocks u. block_used u b \<and> b \<notin> owned u i}" for u
  have d: "data_blocks t = data_blocks s" using assms(5) by (intro data_blocks_cong) (simp add: own_frame_def)
  have c: "card (data_blocks u) = card (free_blocks u) + card (owned u i) + card (R u)"
    if "bmap_inv u" "imap_ok u i" for u
  proof -
    have o: "owned u i \<subseteq> {b \<in> data_blocks u. block_used u b}"
      using that(2) owned_imap [OF that(2)] by (auto simp: imap_ok_def)
    have "data_blocks u = free_blocks u \<union> owned u i \<union> R u"
      using o unfolding free_blocks_eq_data [OF that(1)] R_def by blast
    moreover have "finite (owned u i)" by (rule finite_subset [OF o]) simp
    moreover have "finite (free_blocks u)" "finite (R u)" by (simp_all add: free_blocks_eq_data [OF that(1)] R_def)
    moreover have "free_blocks u \<inter> owned u i = {}" "(free_blocks u \<union> owned u i) \<inter> R u = {}"
      using o unfolding free_blocks_eq_data [OF that(1)] R_def by blast+
    ultimately show ?thesis by (simp add: card_Un_disjoint)
  qed
  have "R t = R s" using assms(5) unfolding R_def own_frame_def d by blast
  then show ?thesis using c [OF assms(1,3)] c [OF assms(2,4)] d by simp
qed

text \<open>An inode owns the blocks of its map and at most one more, the indirect block.\<close>

lemma finite_dom_map [simp]: "finite (dom (file_map s i))"
  by (rule finite_subset [of _ "{..<140}"]) (auto simp: file_map_def split: if_splits)

lemma owned_card:
  assumes "imap_ok s i"
  shows "card (dom (file_map s i)) \<le> card (owned s i)" "card (owned s i) \<le> Suc (card (dom (file_map s i)))"
proof -
  let ?f = "\<lambda>l. the (file_map s i l)"
  have len: "length (i_addrs (xv6fs_i s i)) = 13" using assms by (simp add: imap_ok_def)
  have o: "owned s i = set (inode_blocks s i)" by (rule owned_imap [OF assms])
  have r: "ran (file_map s i) = ?f ` dom (file_map s i)" by (force simp: ran_def)
  have "inj_on ?f (dom (file_map s i))" using file_map_inj [OF assms] by (fastforce simp: inj_on_def)
  then have "card (dom (file_map s i)) = card (ran (file_map s i))" by (simp add: r card_image)
  also have "\<dots> \<le> card (owned s i)"
    using file_map_in_blocks [OF len] unfolding o by (intro card_mono) (auto simp: ran_def)
  finally show "card (dom (file_map s i)) \<le> card (owned s i)" .
  have "card (owned s i) \<le> card (insert (unat (addr_list s i ! 12)) (ran (file_map s i)))"
    unfolding o by (intro card_mono inode_blocks_cover [OF len]) (simp add: r)
  also have "\<dots> \<le> Suc (card (?f ` dom (file_map s i)))" unfolding r by (simp add: card_insert_le_m1 card_insert_if)
  also have "\<dots> \<le> Suc (card (dom (file_map s i)))" by (simp add: card_image_le)
  finally show "card (owned s i) \<le> Suc (card (dom (file_map s i)))" .
qed

text \<open>
  When an operation for one inode has used the last free block and has left a
  block of \<open>ls\<close> unmapped, there were no more free blocks than blocks to map.
\<close>

lemma full_too_small:
  assumes "bmap_inv s" "imap_ok s i" "touches i s t" "free_blocks t = {}"
    and "dom (file_map t i) \<subseteq> dom (file_map s i) \<union> ls" "\<not> ls \<subseteq> dom (file_map t i)" "finite ls"
  shows "card (free_blocks s) \<le> card (ls - dom (file_map s i))"
proof -
  let ?S = "dom (file_map s i)" and ?T = "dom (file_map t i)"
  have t: "own_frame i s t" "bmap_inv t" "imap_ok t i" using assms(3) by (simp_all add: touches_def)
  have "?T \<subset> ?S \<union> ls" using assms(5,6) by blast
  then have "card ?T < card (?S \<union> ls)" using assms(7) by (intro psubset_card_mono) simp_all
  also have "card (?S \<union> ls) = card ?S + card (ls - ?S)"
    using assms(7) card_Un_disjoint [of ?S "ls - ?S"] by (simp add: Un_Diff_cancel)
  finally have "card ?T < card ?S + card (ls - ?S)" .
  moreover have "card (owned t i) = card (free_blocks s) + card (owned s i)"
    using own_conserved [OF assms(1) t(2) assms(2) t(3,1)] assms(4) by simp
  ultimately show ?thesis using owned_card(1) [OF assms(2)] owned_card(2) [OF t(3)] by linarith
qed

section \<open>Mapping blocks\<close>

lemma get_block_mapped:
  assumes "io_ok K" "file_map s i l = Some b"
  shows "xv6fs_get_block K i l True s = (Inr (Mapped b False), s)"
  using assms
  by (auto simp: xv6fs_get_block_def get_block_indirect_def file_map_def ind_entries_def block_opt_def Let_def
      sb_bread_def brelse_def io_ok_def split: if_splits)

lemma get_block_indirect_full:
  assumes "kernel_bitops K" "io_ok K" "bmap_inv t" "get_block_indirect K i l True b t = (Inl e, u)"
  shows "u = brelse t" "e = ENOSPC" "free_blocks t = {}"
proof -
  have bl: "blocks_512 t" using assms(3) by (simp add: bmap_inv_def)
  obtain s1 where al: "xv6fs_balloc K t = (Inl e, s1)" and u: "u = brelse s1"
    using assms(4) by (auto simp: get_block_indirect_def Let_def split: if_splits prod.splits sum.splits)
  note f = balloc_Inl [OF assms(1) bl al]
  show "u = brelse t" "e = ENOSPC" "free_blocks t = {}" using f u assms(2) by (auto simp: io_ok_def)
qed

lemma free_blocks_ghost [simp]: "free_blocks (brelse t) = free_blocks t" "free_blocks (t\<lparr>holds := h\<rparr>) = free_blocks t"
  by (simp_all add: free_blocks_def balloc_range_def block_used_def brelse_def)

lemma get_block_full:
  assumes "kernel_bitops K" "io_ok K" "bmap_inv s" "imap_ok s i" "l < 140"
    and "xv6fs_get_block K i l True s = (Inl e, u)"
  shows "e = ENOSPC" "free_blocks u = {}" "file_map s i l = None"
proof -
  have bl: "blocks_512 s" using assms(3) by (simp add: bmap_inv_def)
  show "file_map s i l = None"
    using get_block_mapped [OF assms(2)] assms(6) by (cases "file_map s i l") auto
  have "e = ENOSPC \<and> free_blocks u = {}"
  proof (cases "l < 12 \<or> i_addrs (xv6fs_i s i) ! 12 \<noteq> 0")
    case True
    then consider "xv6fs_balloc K s = (Inl e, u)"
      | b where "get_block_indirect K i l True b (s\<lparr>holds := holds s + 1\<rparr>) = (Inl e, u)"
      using assms(2,5,6)
      by (auto simp: xv6fs_get_block_def Let_def sb_bread_def io_ok_def split: if_splits prod.splits sum.splits)
    then show ?thesis
    proof cases
      case 1
      then show ?thesis using balloc_Inl [OF assms(1) bl 1] assms(2) by (auto simp: io_ok_def)
    next
      case 2
      have "bmap_inv (s\<lparr>holds := holds s + 1\<rparr>)" using assms(3) by simp
      from get_block_indirect_full [OF assms(1,2) this 2] show ?thesis by simp
    qed
  next
    case False
    then have z: "i_addrs (xv6fs_i s i) ! 12 = 0" "12 \<le> l" by simp_all
    show ?thesis
    proof (cases "fst (xv6fs_balloc K s)")
      case (Inl e')
      then have "xv6fs_balloc K s = (Inl e, u)"
        using z assms(5,6) by (cases "xv6fs_balloc K s") (simp add: xv6fs_get_block_def)
      then show ?thesis using balloc_Inl [OF assms(1) bl] assms(2) by (auto simp: io_ok_def)
    next
      case (Inr nb)
      then obtain s1 where al: "xv6fs_balloc K s = (Inr nb, s1)" by (cases "xv6fs_balloc K s") simp
      let ?t = "b_store nb (replicate 512 0) (set_addr i 12 (of_nat nb) s1)"
      have st: "alloc_step s i 12 nb ?t" by (rule alloc_indirect [OF assms(1,3,4) al z(1)])
      define t where "t = mark_buffer_dirty nb (mark_inode_dirty i (?t\<lparr>holds := holds s1 + 1\<rparr>))"
      have t_eq: "t = mark_buffer_dirty nb (b_store nb (replicate 512 0)
          ((mark_inode_dirty i (set_addr i 12 (of_nat nb) s1))\<lparr>holds := holds s1 + 1\<rparr>))"
        by (simp add: t_def buffer_defs inode_defs set_addr_def)
      have call: "get_block_indirect K i l True nb t = (Inl e, u)"
        using assms(2,5,6) al z
        by (auto simp: xv6fs_get_block_def Let_def t_eq sb_getblk_def io_ok_def split: if_splits)
      have "bmap_inv t" using st by (simp add: t_def alloc_step_def)
      from get_block_indirect_full [OF assms(1,2) this call] show ?thesis by simp
    qed
  qed
  then show "e = ENOSPC" "free_blocks u = {}" by simp_all
qed

lemma map_blocks_room:
  assumes "kernel_bitops K" "io_ok K" "bmap_inv s" "imap_ok s i" "\<forall>l \<in> set ls. l < 140"
    and "map_blocks (xv6fs_get_block K) i ls s = (r, t)"
  shows "dom (file_map t i) \<subseteq> dom (file_map s i) \<union> set ls \<and>
    (\<forall>e. r = Inl e \<longrightarrow> free_blocks t = {} \<and> \<not> set ls \<subseteq> dom (file_map t i))"
  using assms(3-6)
proof (induction ls arbitrary: s)
  case Nil
  then show ?case by auto
next
  case (Cons l ls)
  obtain x u where call: "xv6fs_get_block K i l True s = (x, u)" by fastforce
  show ?case
  proof (cases x)
    case (Inl e)
    then have "r = Inl e" "t = u" using Cons.prems(4) call by (simp_all add: map_blocks_eq del: map_blocks.simps)
    moreover have "l < 140" using Cons.prems(3) by simp
    ultimately show ?thesis
      using map_block_fails(3) [OF assms(1,2) Cons.prems(1,2) _ call [unfolded Inl]]
        get_block_full(2,3) [OF assms(1,2) Cons.prems(1,2) _ call [unfolded Inl]] by auto
  next
    case (Inr y)
    note z = map_block_step [OF assms(1,2) Cons.prems(1,2) call [unfolded Inr]]
    have "map_blocks (xv6fs_get_block K) i ls (zero_new y u) = (r, t)"
      using Cons.prems(4) call Inr by (simp add: map_blocks_eq del: map_blocks.simps)
    from Cons.IH [OF io_stepD(1,2) [OF z(1)] _ this] Cons.prems(3) show ?thesis using z(3) by auto
  qed
qed

section \<open>Writing\<close>

lemma copy_in_map:
  assumes "bmap_inv s" "imap_ok s i" "\<forall>x. pos \<le> x \<and> x < pos + length data \<longrightarrow> x div 512 \<in> dom (file_map s i)"
  shows "file_map (copy_in i pos data s) i = file_map s i"
  using assms
proof (induction data arbitrary: pos s)
  case (Cons v vs)
  have "pos div 512 \<in> dom (file_map s i)" using Cons.prems(3) [rule_format, of pos] by simp
  note sb = set_byte_step [OF Cons.prems(1,2) this, of v]
  have "\<forall>x. Suc pos \<le> x \<and> x < Suc pos + length vs \<longrightarrow> x div 512 \<in> dom (file_map (set_byte i pos v s) i)"
    using Cons.prems(3) by (simp add: sb(2))
  from Cons.IH [OF io_stepD(1,2) [OF sb(1)] this] show ?case by (simp add: sb(2))
qed simp

definition blocks_of :: "nat \<Rightarrow> nat \<Rightarrow> nat set" where
  "blocks_of pos n = {pos div 512..<(pos + n + 511) div 512}"

lemma blocks_of_mono: "pos \<le> pos' \<Longrightarrow> pos' + n' \<le> pos + n \<Longrightarrow> blocks_of pos' n' \<subseteq> blocks_of pos n"
  unfolding blocks_of_def by (intro ivl_subset [THEN iffD2] disjI2 conjI div_le_mono) simp_all

lemma write_chunk_room:
  assumes "kernel_bitops K" "io_ok K" "page_cache_ok P" "bmap_inv s" "imap_ok s i"
    and "pos + length data \<le> 71680" "write_begin (xv6fs_aops P K) i pos (length data) s = (r, u)"
  defines "w \<equiv> snd (write_end (xv6fs_aops P K) i pos (length data) (length data) (copy_in i pos data u))"
  shows "case r of
      Inl e \<Rightarrow> dom (file_map u i) \<subseteq> dom (file_map s i) \<union> blocks_of pos (length data) \<and> free_blocks u = {} \<and>
        \<not> blocks_of pos (length data) \<subseteq> dom (file_map u i)
    | Inr _ \<Rightarrow> dom (file_map w i) \<subseteq> dom (file_map s i) \<union> blocks_of pos (length data)"
proof -
  let ?n = "length data" and ?ls = "[pos div 512..<(pos + length data + 511) div 512]"
  have call: "map_blocks (xv6fs_get_block K) i ?ls s = (r, u)"
    using assms(3,7) by (simp add: xv6fs_aops_def xv6fs_write_begin_def page_cache_ok_def)
  have "(pos + ?n + 511) div 512 \<le> 140" using assms(6) by (simp add: div_le_mono [of _ 72191 512])
  then have l: "\<forall>l \<in> set ?ls. l < 140" by simp
  note room = map_blocks_room [OF assms(1,2,4,5) l call] and m = map_blocks_post [OF assms(1,2,4,5) l call]
  have ls: "set ?ls = blocks_of pos ?n" by (simp add: blocks_of_def)
  show ?thesis
  proof (cases r)
    case (Inl e)
    then show ?thesis using room unfolding ls by simp
  next
    case (Inr x)
    define v where "v = copy_in i pos data u"
    have "\<forall>x. pos \<le> x \<and> x < pos + ?n \<longrightarrow> x div 512 \<in> dom (file_map u i)"
      using m Inr block_range [of _ pos ?n] by fastforce
    moreover have "bmap_inv u" "imap_ok u i" using m by (auto dest: io_stepD)
    ultimately have v: "file_map v i = file_map u i" unfolding v_def by (intro copy_in_map)
    let ?ei = "(xv6fs_i v i)\<lparr>i_size := int (pos + ?n)\<rparr>"
    have "w = (if i_size (xv6fs_i v i) < int (pos + ?n) then mark_inode_dirty i (set_inode i ?ei v) else v)"
      using assms(3) by (simp add: w_def xv6fs_aops_def xv6fs_write_end_def page_cache_ok_def v_def)
    moreover have "i_addrs ?ei = i_addrs (xv6fs_i v i)" by simp
    then have "file_map (mark_inode_dirty i (set_inode i ?ei v)) i = file_map v i"
      using inode_views_set_inode(8) by simp
    ultimately have "file_map w i = file_map v i" by simp
    then show ?thesis using room v Inr unfolding ls by simp
  qed
qed

lemma perform_write_room:
  assumes "kernel_bitops K" "io_ok K" "page_cache_ok P" "bmap_inv s" "imap_ok s i"
    and "pos + length data \<le> 71680" "perform_write (xv6fs_aops P K) i pos data s = (r, t)"
  shows "dom (file_map t i) \<subseteq> dom (file_map s i) \<union> blocks_of pos (length data) \<and>
    (r \<noteq> Inr (length data) \<longrightarrow> free_blocks t = {} \<and> \<not> blocks_of pos (length data) \<subseteq> dom (file_map t i))"
  using assms(4-7)
proof (induction "length data" arbitrary: pos data s r rule: less_induct)
  case less
  show ?case
  proof (cases "data = []")
    case True
    then have "r = Inr 0" "t = s" using less.prems(4) by (simp_all add: perform_write.simps [of _ _ _ "[]"])
    then show ?thesis using True by simp
  next
    case False
    define n where "n = min (4096 - pos mod 4096) (length data)"
    have n: "0 < n" "n \<le> length data" using False by (simp_all add: n_def)
    let ?d = "take n data"
    have len: "length ?d = n" "?d \<noteq> []" using n by auto
    obtain x u where b: "write_begin (xv6fs_aops P K) i pos n s = (x, u)" by fastforce
    let ?w = "snd (write_end (xv6fs_aops P K) i pos n n (copy_in i pos ?d u))"
    have le: "pos + length ?d \<le> 71680" using less.prems(3) n by simp
    note c = write_chunk [OF assms(1-3) less.prems(1,2) len(2) le, of x u, unfolded len(1), OF b]
      and room = write_chunk_room [OF assms(1-3) less.prems(1,2) le, of x u, unfolded len(1), OF b]
    have eq: "perform_write (xv6fs_aops P K) i pos data s = (case x of Inl e \<Rightarrow> (Inl e, u)
        | Inr _ \<Rightarrow> (case perform_write (xv6fs_aops P K) i (pos + n) (drop n data) ?w of
             (Inl e, s4) \<Rightarrow> (Inr n, s4) | (Inr m, s4) \<Rightarrow> (Inr (n + m), s4)))"
      by (subst perform_write.simps) (simp add: False b Let_def flip: n_def split: sum.split)
    have sub: "blocks_of pos n \<subseteq> blocks_of pos (length data)"
      "blocks_of (pos + n) (length data - n) \<subseteq> blocks_of pos (length data)"
      using n by (intro blocks_of_mono; simp)+
    show ?thesis
    proof (cases x)
      case (Inl e)
      then have "r = Inl e" "t = u" using eq less.prems(4) by simp_all
      then show ?thesis using room Inl sub(1) by auto
    next
      case (Inr y)
      then have cw: "written i pos ?d s ?w" using c by simp
      obtain r' where rec: "perform_write (xv6fs_aops P K) i (pos + n) (drop n data) ?w = (r', t)"
        and r: "r = (case r' of Inl e \<Rightarrow> Inr n | Inr m \<Rightarrow> Inr (n + m))"
        using less.prems(4) eq Inr by (auto split: prod.splits sum.splits)
      have "length (drop n data) < length data" "pos + n + length (drop n data) \<le> 71680" using n less.prems(3) by simp_all
      from less.hyps [OF this(1) _ _ this(2) rec] written_invD [OF cw]
      have ih: "dom (file_map t i) \<subseteq> dom (file_map ?w i) \<union> blocks_of (pos + n) (length data - n)"
        "r' \<noteq> Inr (length data - n) \<Longrightarrow> free_blocks t = {} \<and> \<not> blocks_of (pos + n) (length data - n) \<subseteq> dom (file_map t i)"
        by simp_all
      have "r' = Inr (length data - n) \<Longrightarrow> r = Inr (length data)" using r n by simp
      moreover have "dom (file_map ?w i) \<subseteq> dom (file_map s i) \<union> blocks_of pos n" using room Inr by simp
      ultimately show ?thesis using ih sub by blast
    qed
  qed
qed

section \<open>Properties of room\<close>

lemma write_outcome:
  assumes "kernel_bitops K" "io_ok K" "page_cache_ok P" "own_inv s" "i \<in> dom (icache s)"
    and "pos + length data \<le> XV6FS_MAXFILE * XV6FS_BSIZE"
    and "write_iter (xv6fs_file_fops P K) i pos data s = (r, t)" "r \<noteq> Inr (length data)"
  shows "free_blocks t = {}" "card (free_blocks s) \<le> card (blocks_of pos (length data) - dom (file_map s i))"
proof -
  have inv: "bmap_inv s" "imap_ok s i" using assms(4,5) by (simp_all add: own_inv_def)
  have le: "pos + length data \<le> 71680" "int (pos + length data) \<le> 71680" using assms(6) by simp_all
  then have "perform_write (xv6fs_aops P K) i pos data s = (r, t)"
    using assms(3,7) unfolding page_cache_ok_def by (simp add: xv6fs_file_fops_def xv6fs_file_write_iter_def)
  note room = perform_write_room [OF assms(1-3) inv le(1) this]
  show "free_blocks t = {}" using room assms(8) by blast
  have "touches i s t" using file_write_written [OF assms(1-7)] by (auto simp: written_def split: sum.splits)
  then show "card (free_blocks s) \<le> card (blocks_of pos (length data) - dom (file_map s i))"
    using full_too_small [OF inv, of t "blocks_of pos (length data)"] room assms(8) by (simp add: blocks_of_def)
qed

text \<open>
  C7: A write fails only on a full volume.  Either all the bytes are stored, or no
  data block is free when the call returns, and then there were no more free
  blocks before it than blocks of the range the file did not have: a write
  for which there is room, with one block to spare for the indirect block,
  succeeds.
\<close>

theorem write_succeeds:
  assumes "kernel_bitops K" "io_ok K" "page_cache_ok P" "own_inv s" "i \<in> dom (icache s)"
    and "pos + length data \<le> XV6FS_MAXFILE * XV6FS_BSIZE"
    and "write_iter (xv6fs_file_fops P K) i pos data s = (r, t)"
  shows "r = Inr (length data) \<or>
    (\<forall>b \<in> data_blocks t. block_used t b) \<and>
    card {b \<in> data_blocks s. \<not> block_used s b} \<le> card (blocks_of pos (length data) - dom (file_map s i))"
proof (cases "r = Inr (length data)")
  case False
  note w = write_outcome [OF assms False]
  have "bmap_inv s" using assms(4) by (simp add: own_inv_def)
  moreover have "bmap_inv t" using file_write_written [OF assms] by (auto dest: written_invD split: sum.splits)
  ultimately show ?thesis using w by (auto simp: free_blocks_eq_data)
qed simp

theorem write_succeeds_witness:
  "\<exists>t. write_iter (xv6fs_file_fops ref_page_cache ref_kernel) 2 510 [1, 2, 3] demo_file = (Inr 3, t)"
proof -
  obtain r t where w: "write_iter (xv6fs_file_fops ref_page_cache ref_kernel) 2 510 [1, 2, 3] demo_file = (r, t)"
    by fastforce
  have d: "disk demo_file = disk demo_fs" "raw_sb demo_file = demo_sb"
    by (simp_all add: demo_file_def xv6fs_new_inode_def demo_fs_def upt_conv_Cons inode_defs)
  have "{10, 11, 12} \<subseteq> {b \<in> data_blocks demo_file. \<not> block_used demo_file b}"
    by (simp add: data_blocks_def d block_used_def test_bit_le_def XV6FS_BOFFSET_def)
  then have "card {10, 11, 12 :: nat} \<le> card {b \<in> data_blocks demo_file. \<not> block_used demo_file b}"
    by (rule card_mono [rotated]) simp
  moreover have "card (blocks_of 510 (length [1 :: byte, 2, 3]) - dom (file_map demo_file 2)) \<le> card {0 :: nat, 1}"
    by (rule card_mono) (auto simp: blocks_of_def)
  ultimately show ?thesis
    using write_succeeds [OF ref_kernel_bitops ref_io_ok ref_page_cache_ok demo_file_ok(1,2) _ w] w by auto
qed

section \<open>Creating\<close>

lemma free_slot_room:
  assumes "dir_inv K d s" "card (dom (dir_names s d)) < 4480" shows "free_slot s d < 4480"
proof (rule ccontr)
  assume a: "\<not> free_slot s d < 4480"
  have n: "nslots s d \<le> 4480" using assms(1) by (auto simp: dir_inv_def dest: dir_ok_size(3))
  then have f: "free_slot s d = nslots s d" "nslots s d = 4480" using a free_slot_le [of s d] by linarith+
  then have "find (\<lambda>j. \<not> live s d j) [0..<4480] = None"
    by (auto simp: free_slot_def find_Some_iff split: option.splits)
  then have "live_slots s d 0 = [0..<4480]"
    unfolding live_slots_def f(2) by (auto simp: find_None_iff filter_id_conv)
  then have "length (dir_entries s d) = 4480" by (simp add: dir_entries_def)
  moreover have "dom (dir_names s d) = dom (map_of (dir_entries s d))"
    by (auto simp: dir_names_def dir_map_entries)
  then have "dom (dir_names s d) = set (map fst (dir_entries s d))" by (simp add: dom_map_of_conv_image_fst)
  moreover have "distinct (map fst (dir_entries s d))" using assms(1) by (simp add: dir_inv_def unique_names_def)
  then have "card (set (map fst (dir_entries s d))) = length (dir_entries s d)" by (metis distinct_card length_map)
  ultimately show False using assms(2) by simp
qed

text \<open>Adding an entry fails only when fewer than two blocks are free.\<close>

lemma add_entry_full:
  assumes "kernel_bitops K" "io_ok K" "dir_inv K d s" "length n \<le> 14" "free_slot s d < 4480"
    and "xv6fs_dir_add_entry K d n i s = Some (Err e, t)"
  shows "card (free_blocks s) \<le> 1"
proof -
  have inv: "bmap_inv s" "imap_ok s d" "dir_ok K s d" using assms(3) by (simp_all add: dir_inv_def)
  let ?l = "free_slot s d div 32"
  obtain x u where call: "xv6fs_get_block K d ?l True s = (x, u)" by fastforce
  have "(Err e, t) = dir_write_entry K d n i (16 * int (free_slot s d)) s"
    using add_entry_eq [OF inv(3) assms(4), of i] assms(6) by simp
  then obtain e' where "x = Inl e'"
    unfolding dir_write_entry_io [OF assms(2) call]
    by (auto simp: store_entry_def Let_def split: sum.splits bh_result.splits bool.splits if_splits)
  then have c: "xv6fs_get_block K d ?l True s = (Inl e', u)" using call by simp
  have l: "?l < 140" using assms(5) by simp
  note f = get_block_full [OF assms(1,2) inv(1,2) l c]
  have "card (free_blocks s) \<le> card ({?l} - dom (file_map s d))"
    using map_block_fails(3) [OF assms(1,2) inv(1,2) l c] f(2,3) touches_get_block [OF assms(1,2) inv(1,2) c]
    by (intro full_too_small [OF inv(1,2), of u]) auto
  also have "\<dots> \<le> card {?l}" by (intro card_mono) auto
  finally show ?thesis by simp
qed

text \<open>With room a create succeeds, and the directory and the new inode are in the cache.\<close>

lemma create_room:
  assumes "kernel_bitops K" "io_ok K" "vol_inv K s" "live_dir s d" "new_name s d n" "\<not> S_ISDIR m"
    and "free_inodes_list s = i # rest" "inode_alloc_ok K i"
    and "2 \<le> card {b \<in> data_blocks s. \<not> block_used s b}" "card (dom (ents (tree_of K s) d)) < 4480"
  shows "\<exists>t. xv6fs_create K d n m s = Some (Ret i, t) \<and> vol_inv K t \<and>
    tree_of K t = tree_create d n i XV6FS_T_FILE (tree_of K s) \<and> d \<in> dom (icache t) \<and> i \<in> dom (icache t)"
proof -
  note v = vol_invD [OF assms(3)] and l = live_dirD [OF assms(3,4)] and nn = new_nameD [OF assms(5)]
  obtain t1 where new: "xv6fs_new_inode K m s = (Inr i, t1)"
    using assms(7,8) by (simp add: xv6fs_new_inode_def)
  note n1 = store_new_inode [OF v(1) new] and d1 = new_inode_dir [OF assms(3,4) new] and ni = new_inode_Inr [OF new]
  have dir: "dir_inv K d t1" using store_dir [OF n1(1) d1(2)] d1(3) l(2) by simp
  have "free_blocks t1 = free_blocks s"
    using block_used_cong [OF ni(7,8)] by (simp add: free_blocks_def balloc_range_def ni(8))
  moreover have "bmap_inv s" by (rule store_invD(10) [OF v(1)])
  ultimately have room: "\<not> card (free_blocks t1) \<le> 1" using assms(9) by (simp add: free_blocks_eq_data)
  have "free_slot t1 d < 4480"
    using assms(10) dir_names_simps(1) [OF d1(4)] l(4) by (intro free_slot_room [OF dir]) simp
  note full = add_entry_full [OF assms(1,2) dir nn(1) this]
  obtain r t where create: "xv6fs_create K d n m s = Some (r, t)" "r \<noteq> Oops" "vol_inv K t"
    "tree_of K t = (case r of Ret i \<Rightarrow> tree_create d n i XV6FS_T_FILE (tree_of K s) | _ \<Rightarrow> tree_of K s)"
    using vfs_create [OF assms(1-6)] by blast
  obtain r' t' where add: "xv6fs_dir_add_entry K d n i t1 = Some (r', t')" "touches d t1 t'"
    using store_add_entry [OF assms(1,2) n1(1) d1(2) _ nn(1,2) d1(6,7)] d1(3,4) l(2) nn(4) by metis
  have "r = Ret i" "t = t'"
    using create(1,2) new add(1) full room by (cases r'; auto simp: xv6fs_create_def)+
  moreover have "d \<in> dom (icache t')" "i \<in> dom (icache t')"
    using add(2) touch_cached n1(2) d1(1) by (auto simp: touches_def same_tables_def domIff)
  ultimately show ?thesis using create by auto
qed

text \<open>The example volume has room for a file.\<close>

lemma sample_room:
  "free_inodes_list sample_fs = 2 # [3..<16]" "inode_alloc_ok ref_kernel 2"
  "2 \<le> card {b \<in> data_blocks sample_fs. \<not> block_used sample_fs b}"
  "card (dom (ents (tree_of ref_kernel sample_fs) 1)) < 4480"
proof -
  have "{10, 11} \<subseteq> {b \<in> data_blocks sample_fs. \<not> block_used sample_fs b}"
    by (simp add: data_blocks_def sample_used)
  then have "card {10, 11 :: nat} \<le> card {b \<in> data_blocks sample_fs. \<not> block_used sample_fs b}"
    by (rule card_mono [rotated]) simp
  then show "2 \<le> card {b \<in> data_blocks sample_fs. \<not> block_used sample_fs b}" by simp
  show "card (dom (ents (tree_of ref_kernel sample_fs) 1)) < 4480"
    using card_insert_le_m1 [of 2 "{dot}" dotdot] by (simp add: sample_tree card_insert_if)
qed (simp_all add: upt_conv_Cons ref_kernel_def)

text \<open>
  C9: A create succeeds when there is room.  With a free inode, memory for it,
  two free blocks and fewer entries in the directory than it can hold,
  \<open>xv6fs_create\<close> returns the first free inode, the volume is consistent, and
  its name space has exactly the new file more.
\<close>

theorem create_succeeds:
  assumes "kernel_bitops K" "io_ok K" "vol_inv K s" "live_dir s d" "new_name s d n" "\<not> S_ISDIR m"
    and "free_inodes_list s = i # rest" "inode_alloc_ok K i"
    and "2 \<le> card {b \<in> data_blocks s. \<not> block_used s b}" "card (dom (ents (tree_of K s) d)) < 4480"
  shows "\<exists>t. xv6fs_create K d n m s = Some (Ret i, t) \<and> vol_inv K t \<and>
    tree_of K t = tree_create d n i XV6FS_T_FILE (tree_of K s)"
  using create_room [OF assms] by blast

theorem create_succeeds_witness:
  "\<exists>t. xv6fs_create ref_kernel 1 [97] 0x8000 sample_fs = Some (Ret 2, t) \<and>
     tree_of ref_kernel t = tree_create 1 [97] 2 XV6FS_T_FILE (tree_of ref_kernel sample_fs)"
  using create_succeeds [OF ref_kernel_bitops ref_io_ok sample_vol_inv _ _ _ sample_room, of "[97]" "0x8000"] sample_create
  by auto

section \<open>Resizing\<close>

lemma end_in_block:
  "m \<le> x \<and> 512 * (x div 512) < m \<longleftrightarrow> x div 512 = m div 512 \<and> m \<le> x \<and> m mod 512 \<noteq> (0 :: nat)"
proof
  assume a: "m \<le> x \<and> 512 * (x div 512) < m"
  then have "x div 512 \<le> m div 512" by (simp add: less_eq_div_iff_mult_less_eq)
  then have "x div 512 = m div 512" using a div_le_mono [of m x 512] by simp
  then show "x div 512 = m div 512 \<and> m \<le> x \<and> m mod 512 \<noteq> 0" using a mult_div_mod_eq [of 512 m] by linarith
next
  assume "x div 512 = m div 512 \<and> m \<le> x \<and> m mod 512 \<noteq> 0"
  then show "m \<le> x \<and> 512 * (x div 512) < m" using mult_div_mod_eq [of 512 m] by linarith
qed

lemma nth_zero_from:
  "n \<le> length d \<Longrightarrow> j < length d \<Longrightarrow> zero_from n d ! j = (if j < n then d ! j else 0)"
  by (simp add: zero_from_def nth_append)

lemma zero_page_tail_byte:
  assumes "bmap_inv s" "imap_ok s i"
  shows "file_byte (zero_page_tail K i y s) i x =
    (if x div 512 = y div 512 \<and> y \<le> x \<and> y mod 512 \<noteq> 0 \<and> page_cached K s i (y div 4096) then 0 else file_byte s i x)"
proof -
  let ?w = "zero_page_tail K i y s"
  note f = zero_page_tail_frame(3) [OF assms, of K y]
  show ?thesis
  proof (cases "file_map s i (y div 512)")
    case None
    then show ?thesis by (auto simp: file_byte_def zero_page_tail_def)
  next
    case (Some b)
    have len: "length (disk s b) = 512" using assms(1) by (simp add: bmap_inv_def blocks_512_def)
    have w: "disk ?w = (if y mod 512 \<noteq> 0 \<and> page_cached K s i (y div 4096)
        then (disk s)(b := zero_from (y mod 512) (disk s b)) else disk s)"
      by (simp add: zero_page_tail_def Some b_store_def)
    show ?thesis
    proof (cases "x div 512 = y div 512")
      case True
      have "y mod 512 \<le> 512" "x mod 512 < 512" by simp_all
      moreover have "x mod 512 < y mod 512 \<longleftrightarrow> x < y" using True by (metis add_less_cancel_left div_mult_mod_eq)
      ultimately show ?thesis
        using nth_zero_from [of "y mod 512" "disk s b" "x mod 512"] True Some len
        by (auto simp: file_byte_def f w)
    next
      case False
      have "c \<noteq> b" if "file_map s i (x div 512) = Some c" for c
        using file_map_inj [OF assms(2) that, of "y div 512"] Some False by auto
      then show ?thesis using False by (auto simp: file_byte_def f w split: option.split)
    qed
  qed
qed

text \<open>
  A successful \<open>xv6fs_setattr\<close> cuts the block map at the new size, rounded up to
  blocks, and the bytes with it.
\<close>

lemma setattr_bytes:
  assumes "kernel_bitops K" "io_ok K" "setattr_copy_ok K" "bmap_inv s" "imap_ok s i"
    and "ia_valid_size ia" "0 \<le> ia_size ia" "xv6fs_setattr K i ia s = (Inr u, t)"
  shows "file_map t i = (\<lambda>l. if 512 * int l < ia_size ia then file_map s i l else None)"
    "file_byte t i x = (if ia_size ia \<le> 512 * int (x div 512) then 0
       else if ia_size ia \<le> int x \<and> page_cached K s i (nat (ia_size ia) div 4096) then 0
       else file_byte s i x)"
    "owned t i \<subseteq> owned s i"
proof -
  define n where "n = nat ((ia_size ia + 511) div 512)"
  define w where "w = zero_page_tail K i (nat (ia_size ia)) s"
  define s0 where "s0 = set_inode i ((xv6fs_i s i)\<lparr>i_size := ia_size ia\<rparr>) w"
  define v where "v = xv6fs_truncate_blocks K i n s0"
  note w = zero_page_tail_frame [OF assms(4,5), of K "nat (ia_size ia)", folded w_def]
  have xw: "xv6fs_i w i = xv6fs_i s i" by (simp add: w_def)
  have n: "l < n \<longleftrightarrow> 512 * int l < ia_size ia" for l unfolding n_def using assms(7) by linarith
  have cp: "i_addrs (setattr_copy K ia (xv6fs_i v i)) = i_addrs (xv6fs_i v i)"
    using assms(3) by (simp add: setattr_copy_ok_def same_persistent_def)
  have t: "t = mark_inode_dirty i (set_inode i (setattr_copy K ia (xv6fs_i v i)) v)"
    using assms(6,8) by (auto simp: xv6fs_setattr_def truncate_setsize_def Let_def v_def s0_def w_def n_def split: option.splits)
  have ad: "i_addrs ((xv6fs_i s i)\<lparr>i_size := ia_size ia\<rparr>) = i_addrs (xv6fs_i w i)" by (simp add: xw)
  note z = inode_views_set_inode [OF ad, folded s0_def]
  have "trunc_pre K w i" using assms(1,2) w(1,2) by (simp add: trunc_pre_def bitmap_readable_def io_ok_def)
  then have pre: "trunc_pre K s0 i" by (rule z(7))
  have tr: "trunc_rel s0 i v" and cut: "cut_addrs n s0 i v"
    using truncate_blocks_rel [OF pre, of n] assms(2) by (simp_all add: v_def io_ok_def)
  have len: "length (i_addrs (xv6fs_i s0 i)) = 13" "length (i_addrs (xv6fs_i v i)) = 13"
    using tr pre by (simp_all add: imap_ok_def trunc_rel_def trunc_pre_def)
  have "file_map t i = file_map v i" using inode_views_set_inode(8) [OF cp] by (simp add: t)
  then show fm: "file_map t i = (\<lambda>l. if 512 * int l < ia_size ia then file_map s i l else None)"
    unfolding cut_addrs_file_map [OF cut len] z(8) w(3) n .
  have "disk t b = disk w b" if "file_map w i l = Some b" for l b
  proof -
    have "b \<in> outside_bitmap s0" using file_map_data [OF w(2) that] outside_bitmap_cong [of s0 w]
      by (simp add: data_outside s0_def set_inode_def)
    moreover have "b \<noteq> unat (i_addrs (xv6fs_i s0 i) ! 12)"
      using file_map_not_ind [OF w(2) that] w(2) by (simp add: imap_ok_def nth_addr_list s0_def xw)
    ultimately have "disk v b = disk s0 b" using tr by (simp add: trunc_rel_def)
    then show ?thesis by (simp add: t s0_def set_inode_def)
  qed
  then have byte: "file_byte t i x = (if ia_size ia \<le> 512 * int (x div 512) then 0 else file_byte w i x)"
    by (auto simp: file_byte_def fm w(3) split: option.split)
  have blk: "ia_size ia \<le> int x \<and> \<not> ia_size ia \<le> 512 * int (x div 512) \<longleftrightarrow>
      x div 512 = nat (ia_size ia) div 512 \<and> nat (ia_size ia) \<le> x \<and> nat (ia_size ia) mod 512 \<noteq> 0"
    using end_in_block [of "nat (ia_size ia)" x] assms(7) by (simp add: nat_le_iff not_le zless_nat_eq_int_zless)
  show "file_byte t i x = (if ia_size ia \<le> 512 * int (x div 512) then 0
       else if ia_size ia \<le> int x \<and> page_cached K s i (nat (ia_size ia) div 4096) then 0
       else file_byte s i x)"
    unfolding byte w_def zero_page_tail_byte [OF assms(4,5)] using blk by auto
  have "set (inode_blocks v i) \<subseteq> set (inode_blocks s0 i)" using tr by (simp add: trunc_rel_def)
  moreover have "inode_blocks t i = inode_blocks v i"
    using inode_views_set_inode [OF cp] by (simp add: t inode_blocks_def)
  moreover have "inode_blocks s0 i = inode_blocks s i" using z(5) w(4) by (simp add: inode_blocks_def)
  ultimately show "owned t i \<subseteq> owned s i" using assms(5) by (auto simp: owned_def imap_ok_def split: option.split)
qed

text \<open>
  C8: Resizing a file, byte by byte.  A successful \<open>xv6fs_setattr\<close> with a size sets
  it, keeps the bytes before it, reads as zeros after the block that holds the
  new end, and frees exactly the blocks the file gives up.  Between the new end
  and the end of its block the bytes are zeros when the page is in the page
  cache, where \<open>truncate_setsize\<close> clears it; when it is not cached the bytes of
  the device stay, because the driver does not clear them itself: a file made
  smaller and larger again then shows its old bytes there.  A refused call changes
  nothing; every other file and the ownership of blocks stay as they were.
\<close>

theorem resize_correct:
  assumes "kernel_bitops K" "io_ok K" "setattr_copy_ok K" "own_inv s" "i \<in> dom (icache s)"
    and "ia_valid_size ia" "0 \<le> ia_size ia" "xv6fs_setattr K i ia s = (r, t)"
  shows "own_inv t \<and>
    (\<forall>j \<in> dom (icache s) - {i}. xv6fs_i t j = xv6fs_i s j \<and> file_byte t j = file_byte s j) \<and>
    (case r of
       Inl e \<Rightarrow> setattr_prepare K i ia = Some e \<and> t = s
     | Inr _ \<Rightarrow> i_size (xv6fs_i t i) = ia_size ia \<and>
         (\<forall>x. file_byte t i x =
            (if ia_size ia \<le> 512 * int (x div 512) then 0
             else if ia_size ia \<le> int x \<and> page_cached K s i (nat (ia_size ia) div 4096) then 0
             else file_byte s i x)) \<and>
         (\<forall>b \<in> data_blocks s. block_used t b \<longleftrightarrow> block_used s b \<and> (b \<in> owned s i \<longrightarrow> b \<in> owned t i)))"
proof (cases r)
  case (Inl e)
  then have "setattr_prepare K i ia = Some e \<and> t = s"
    using assms(8) by (auto simp: xv6fs_setattr_def Let_def split: option.splits)
  then show ?thesis using Inl assms(4) by simp
next
  case (Inr u)
  have inv: "bmap_inv s" "imap_ok s i" using assms(4,5) by (simp_all add: own_inv_def)
  note c = assms(8) [unfolded Inr]
  note x = touches_setattr [OF assms(1-3) inv c] and b = setattr_bytes [OF assms(1-3) inv assms(6,7) c]
  have f: "own_frame i s t" "bmap_inv t" "imap_ok t i" using x(1) by (simp_all add: touches_def)
  have "data_blocks t = data_blocks s" using f(1) by (intro data_blocks_cong) (simp add: own_frame_def)
  then have "block_used t b" if "b \<in> owned t i" for b using f(3) that owned_imap [OF f(3)] by (simp add: imap_ok_def)
  moreover have "block_used s b" if "b \<in> owned s i" for b using inv(2) that owned_imap [OF inv(2)] by (simp add: imap_ok_def)
  ultimately have "\<forall>b \<in> data_blocks s. block_used t b \<longleftrightarrow> block_used s b \<and> (b \<in> owned s i \<longrightarrow> b \<in> owned t i)"
    using f(1) b(3) unfolding own_frame_def by blast
  moreover have "own_inv t" by (rule own_inv_step [OF assms(4) f(1,2)]) (rule f(3))
  moreover have "xv6fs_i t j = xv6fs_i s j \<and> file_byte t j = file_byte s j" if "j \<in> dom (icache s)" "j \<noteq> i" for j
    using frame_file_byte [OF assms(4) f(1) that] f(1) that(2) by (simp add: own_frame_def xv6fs_i_def)
  ultimately show ?thesis using Inr x(5) assms(6) b(2) by simp
qed

text \<open>
  Three bytes are written and the size is set to 1: with the page in the cache the
  third byte is cleared, with a kernel that has dropped the page it is still there.
\<close>

definition ref_uncached :: kernel where
  "ref_uncached = ref_kernel\<lparr>page_cached := \<lambda>_ _ _. False\<rparr>"

lemma ref_uncached_ok: "kernel_bitops ref_uncached" "io_ok ref_uncached" "setattr_copy_ok ref_uncached"
  using ref_kernel_bitops ref_io_ok ref_setattr_copy_ok
  by (simp_all add: ref_uncached_def io_ok_def setattr_copy_ok_def)

theorem resize_correct_witness:
  "\<exists>t u v. write_iter (xv6fs_file_fops ref_page_cache ref_kernel) 2 0 [1, 2, 3] demo_file = (Inr 3, t) \<and>
     xv6fs_setattr ref_kernel 2 \<lparr>ia_valid_size = True, ia_size = 1\<rparr> t = (Inr (), u) \<and>
     i_size (xv6fs_i u 2) = 1 \<and> file_byte u 2 0 = 1 \<and> file_byte u 2 2 = 0 \<and>
     xv6fs_setattr ref_uncached 2 \<lparr>ia_valid_size = True, ia_size = 1\<rparr> t = (Inr (), v) \<and>
     i_size (xv6fs_i v 2) = 1 \<and> file_byte v 2 0 = 1 \<and> file_byte v 2 2 = 3"
proof -
  obtain t where w: "write_iter (xv6fs_file_fops ref_page_cache ref_kernel) 2 0 [1, 2, 3] demo_file = (Inr 3, t)"
    using demo_file_write by blast
  note p = file_write_written [OF ref_kernel_bitops ref_io_ok ref_page_cache_ok demo_file_ok(1,2) _ w]
  then have t: "written 2 0 [1, 2, 3] demo_file t" by simp
  then have own: "own_inv t" by (rule written_own(1) [OF demo_file_ok(1)])
  have dom: "2 \<in> dom (icache t)" using t by (simp add: written_def touches_def imap_ok_def)
  have fb: "file_byte t 2 0 = 1" "file_byte t 2 2 = 3" using t by (simp_all add: written_def overwrite_def)
  let ?ia = "\<lparr>ia_valid_size = True, ia_size = 1\<rparr>"
  obtain u v where c: "xv6fs_setattr ref_kernel 2 ?ia t = (Inr (), u)" "xv6fs_setattr ref_uncached 2 ?ia t = (Inr (), v)"
    by (simp add: xv6fs_setattr_def ref_kernel_def ref_uncached_def Let_def)
  have pc: "page_cached ref_kernel t 2 n" "\<not> page_cached ref_uncached t 2 n" for n
    by (simp_all add: ref_uncached_def ref_kernel_def)
  have "i_size (xv6fs_i u 2) = 1 \<and> file_byte u 2 0 = 1 \<and> file_byte u 2 2 = 0"
    using resize_correct [OF ref_kernel_bitops ref_io_ok ref_setattr_copy_ok own dom _ _ c(1)] fb pc by simp
  moreover have "i_size (xv6fs_i v 2) = 1 \<and> file_byte v 2 0 = 1 \<and> file_byte v 2 2 = 3"
    using resize_correct [OF ref_uncached_ok own dom _ _ c(2)] fb pc by simp
  ultimately show ?thesis using w c by blast
qed

end
