(* ===== verification/Xv6fs_Remount.thy ===== *)
theory Xv6fs_Remount
  imports Xv6fs_Space
begin

text \<open>
  Unmounting and mounting again.  Before a volume is unmounted the kernel
  drops its dentries, which deletes the inodes without links, writes back
  every dirty inode through \<open>xv6fs_write_inode\<close> and every dirty buffer, and
  evicts the rest of the inode cache; then only the blocks of the device are
  left.  A mount of that device finds the same volume: the same names, the
  same inodes but for the deleted ones, the same bytes in every file.
\<close>

section \<open>The inodes are written back\<close>

text \<open>What \<open>sync_inodes_sb\<close> does: the dirty inodes in turn, and it waits for each.\<close>

definition sync_inodes :: "kernel \<Rightarrow> nat list \<Rightarrow> fs \<Rightarrow> fs" where
  "sync_inodes K inos s = fold (\<lambda>i t. snd (write_back K i True t)) inos s"

text \<open>
  Everything that can be seen of the files of two states, when the inodes of
  a set are deleted between them.
\<close>

definition same_files :: "kernel \<Rightarrow> nat set \<Rightarrow> fs \<Rightarrow> fs \<Rightarrow> bool" where
  "same_files K U s t \<longleftrightarrow>
     (\<forall>i. rel_option same_persistent (if i \<in> U then None else resident K s i) (resident K t i)) \<and>
     (\<forall>i \<in> dom (resident K s) - U. file_byte (whole K t) i = file_byte (whole K s) i)"

lemma rel_persistent_dom: "rel_option same_persistent x y \<Longrightarrow> x = None \<longleftrightarrow> y = None"
  by (cases x; cases y) simp_all

lemma rel_persistent_trans:
  "rel_option same_persistent x y \<Longrightarrow> rel_option same_persistent y z \<Longrightarrow> rel_option same_persistent x z"
  by (cases x; cases y; cases z) (auto intro: same_persistent_trans)

lemma same_files_trans:
  assumes "same_files K U s t" "same_files K V t u" shows "same_files K (U \<union> V) s u"
proof -
  have a: "rel_option same_persistent (if i \<in> U then None else resident K s i) (resident K t i)"
    "rel_option same_persistent (if i \<in> V then None else resident K t i) (resident K u i)" for i
    using assms by (simp_all add: same_files_def)
  have "rel_option same_persistent (if i \<in> U \<union> V then None else resident K s i) (resident K u i)" for i
    using a [of i] rel_persistent_dom [OF a(1), of i] rel_persistent_trans [of "resident K s i"]
    by (cases "i \<in> U"; cases "i \<in> V") auto
  moreover have "file_byte (whole K u) i = file_byte (whole K s) i" if "i \<in> dom (resident K s) - (U \<union> V)" for i
  proof -
    have "i \<in> dom (resident K t) - V" using that rel_persistent_dom [OF a(1), of i] by auto
    then show ?thesis using assms that by (simp add: same_files_def)
  qed
  ultimately show ?thesis by (simp add: same_files_def)
qed

lemma write_back_files:
  assumes "io_ok K" "store_inv K s" "i \<in> dom (icache s)"
  shows "same_files K {} s (snd (write_back K i w s))" "icache (snd (write_back K i w s)) = icache s"
    "idirty (snd (write_back K i w s)) = idirty s - {i}" "raw_sb (snd (write_back K i w s)) = raw_sb s"
proof -
  let ?t = "snd (write_back K i w s)"
  note inv = store_invD [OF assms(2)] and f = write_back_frame [OF assms]
  show "icache ?t = icache s" "idirty ?t = idirty s - {i}" "raw_sb ?t = raw_sb s"
    by (simp_all add: write_back_state [OF assms(1)])
  have n: "resident K s (length (dinodes s)) = None"
    using inv(11) by (auto simp: itable_ok_def resident_def domIff split: option.split)
  have "file_byte (whole K ?t) j = file_byte (whole K s) j" if "j \<in> dom (resident K s)" for j
    using that n by (intro frame_file_byte [OF inv(1) f(2)]) auto
  then show "same_files K {} s ?t" by (simp add: same_files_def f(1))
qed

lemma sync_inodes_ok:
  assumes "io_ok K" "vol_inv K s" "set inos \<subseteq> dom (icache s)"
  defines "t \<equiv> sync_inodes K inos s"
  shows "vol_inv K t \<and> tree_of K t = tree_of K s \<and> same_files K {} s t \<and> icache t = icache s \<and>
    idirty t = idirty s - set inos \<and> raw_sb t = raw_sb s"
  using assms(2,3) unfolding t_def
proof (induction inos arbitrary: s)
  case Nil
  then show ?case by (simp add: sync_inodes_def same_files_def)
next
  case (Cons i inos)
  let ?u = "snd (write_back K i True s)"
  have c: "i \<in> dom (icache s)" and store: "store_inv K s" and l: "links (tree_of K s) i < 65536"
    using Cons.prems by (auto simp: vol_inv_def)
  note w = store_write_back [OF assms(1) store c l, of True] and f = write_back_files [OF assms(1) store c, of True]
  have "vol_inv K ?u" by (rule vol_inv_same [OF Cons.prems(1) w])
  moreover have "set inos \<subseteq> dom (icache ?u)" using Cons.prems(2) by (simp add: f(2))
  ultimately have "vol_inv K (sync_inodes K inos ?u) \<and> tree_of K (sync_inodes K inos ?u) = tree_of K ?u \<and>
      same_files K {} ?u (sync_inodes K inos ?u) \<and> icache (sync_inodes K inos ?u) = icache ?u \<and>
      idirty (sync_inodes K inos ?u) = idirty ?u - set inos \<and> raw_sb (sync_inodes K inos ?u) = raw_sb ?u"
    by (rule Cons.IH)
  moreover have "sync_inodes K (i # inos) s = sync_inodes K inos ?u" by (simp add: sync_inodes_def)
  ultimately show ?case using w(2) f same_files_trans [OF f(1), of "{}"] by auto
qed

section \<open>The device is mounted\<close>

text \<open>
  A volume whose inodes are clean, and the state a mount has after the
  inode table is loaded from its blocks.
\<close>

lemma load_clean:
  assumes "store_inv K s" "idirty s \<inter> dom (icache s) = {}"
    and "disk s0 = disk s" "raw_sb s0 = raw_sb s" "icache s0 = Map.empty"
    and "xv6fs_load_dinodes K s0 = (Inr u, t)"
  shows "same_data K s t" "store_inv K t" "tree_of K t = tree_of K s" "icache t = Map.empty"
proof -
  note inv = store_invD [OF assms(1)]
  let ?n = "unat (sb_ninodes (raw_sb s))"
  have dd: "disk_dinode s0 = disk_dinode s" by (rule disk_dinode_cong [OF assms(3,4)])
  have t: "t = s0\<lparr>dinodes := map (\<lambda>i. if d_type (disk_dinode s i) = 0 then zero_dinode else disk_dinode s i) [0..<?n],
      free_inodes_list := free_slots s0 0 ?n, free_inodes := of_nat (length (free_slots s0 0 ?n))\<rparr>"
    using assms(6) unfolding load_dinodes_eq dd assms(4) by (auto split: if_splits)
  show ic: "icache t = Map.empty" by (simp add: t assms(5))
  have fl: "free_inodes_list t = filter (\<lambda>j. d_type (disk_dinode s j) = 0) [0..<?n]"
    by (simp add: t free_slots_def dd)
  have sl: "slot_synced (disk_dinode s i) (dinodes s ! i)" if "i < ?n" for i
    using inv(12,13) that by (simp add: synced_def)
  have ty: "d_type (disk_dinode s i) = 0 \<longleftrightarrow> d_type (dinodes s ! i) = 0" if "i < ?n" for i
    using sl [OF that] by (auto simp: slot_synced_def split: if_splits)
  have rt: "resident K t i = (if i < ?n \<and> d_type (dinodes s ! i) \<noteq> 0
      then Some (xv6fs_dinode_to_cpu (dinodes s ! i) (fresh_inode K)) else None)" for i
    using ty [of i] sl [of i] by (auto simp: resident_def ic t assms(5) slot_synced_def)
  have rel: "rel_option same_persistent (resident K s i) (resident K t i)" for i
  proof (cases "icache s i")
    case None
    then show ?thesis by (simp add: resident_def [of K s] rt inv(13))
  next
    case (Some ei)
    then have "i \<notin> idirty s" using assms(2) by auto
    moreover have "i < ?n" using Some inv(11,13) by (auto simp: itable_ok_def)
    ultimately show ?thesis using Some inv(8) by (simp add: resident_cached [OF Some] rt clean_ok_def)
  qed
  show same: "same_data K s t" using rel by (simp add: same_data_def t assms(3,4))
  have z: "resident K s i = None \<longleftrightarrow> resident K t i = None" for i by (rule rel_persistent_dom [OF rel])
  have "0 \<notin> set (free_inodes_list t)"
  proof
    assume "0 \<in> set (free_inodes_list t)"
    then have "0 < ?n" "resident K t 0 = None" using ty [of 0] by (auto simp: fl rt)
    then have "0 \<in> set (free_inodes_list s)" using z inv(7) by (simp add: no_lost_inode_def)
    then show False using inv(4) by (simp add: ialloc_inv_def)
  qed
  then have ia: "ialloc_inv t" using load_dinodes_itable [OF assms(5,6)] by (simp add: ialloc_inv_def)
  have "raw_sb t = raw_sb s" by (simp add: t assms(4))
  then have nl: "no_lost_inode K t" using ty by (auto simp: no_lost_inode_def rt fl)
  have "disk_dinode t = disk_dinode s" by (rule disk_dinode_cong) (simp_all add: t assms(3,4))
  moreover have "disk t = disk s" "raw_sb t = raw_sb s" "length (dinodes t) = ?n"
    and "i < ?n \<Longrightarrow> dinodes t ! i = (if d_type (disk_dinode s i) = 0 then zero_dinode else disk_dinode s i)" for i
    by (simp_all add: t assms(3,4))
  ultimately have sy: "synced t"
    using inv(12) by (simp add: synced_def slot_synced_def zero_dinode_def)
  have "clean_ok K t" "mode_ok t" "0 \<notin> dom (icache t)" by (simp_all add: clean_ok_def mode_ok_def ic)
  then show "store_inv K t" "tree_of K t = tree_of K s"
    by (rule same_data_store [OF assms(1) same ia _ _ _ nl sy])+
qed

lemma same_data_files:
  assumes "same_data K s t" shows "same_files K {} s t"
proof -
  have rel: "rel_option same_persistent (resident K s j) (resident K t j)" for j
    using assms by (simp add: same_data_def)
  have "file_byte (whole K t) j = file_byte (whole K s) j" if "j \<in> dom (resident K s)" for j
  proof -
    have d: "j \<in> dom (icache (whole K t)) \<longleftrightarrow> j \<in> dom (icache (whole K s))"
      using rel_persistent_dom [OF rel, of j] by (simp add: domIff)
    have a: "i_addrs (xv6fs_i (whole K t) j) = i_addrs (xv6fs_i (whole K s) j)"
      using rel [of j] that by (cases "resident K t j") (auto simp: xv6fs_i_def same_persistent_def)
    have b: "disk (whole K t) = disk (whole K s)" "raw_sb (whole K t) = raw_sb (whole K s)"
      using assms by (simp_all add: same_data_def)
    show ?thesis
      using inode_views_cong(4) [OF b d a] b(1) by (intro file_byte_other) simp_all
  qed
  then show ?thesis using rel by (simp add: same_files_def)
qed

lemma mount_synced:
  fixes m :: super_block
  assumes "vol_inv K s" "set inos \<subseteq> dom (icache s)" "idirty s \<inter> dom (icache s) \<subseteq> set inos"
    and "disk (sb_fs m) = disk (sync_inodes K inos s)" "icache (sb_fs m) = Map.empty"
    and "io_ok K" "kzalloc_ok K" "set_blocksize_ok K" "kvmalloc_ok K (unat (sb_ninodes (raw_sb s)))"
    and "inode_alloc_ok K 1" "d_make_root_ok K"
  obtains m' where "xv6fs_fill_super K m = (Inr (), m')" "s_root m' = Some XV6FS_ROOTINO"
    "vol_inv K (sb_fs m')" "tree_of K (sb_fs m') = tree_of K s" "same_files K {} s (sb_fs m')"
proof -
  define v where "v = sync_inodes K inos s"
  have v: "vol_inv K v" "tree_of K v = tree_of K s" "same_files K {} s v" "icache v = icache s"
    "idirty v = idirty s - set inos" "raw_sb v = raw_sb s"
    using sync_inodes_ok [OF assms(6,1,2)] by (simp_all add: v_def)
  note inv = store_invD [OF vol_invD(1) [OF v(1)]]
  have raw: "xv6fs_sb_to_cpu (disk (sb_fs m) 1) = raw_sb s" and mg: "sb_magic (raw_sb s) = XV6FS_MAGIC"
    using inv(12) v(6) by (simp_all add: synced_def assms(4) flip: v_def)
  define s0 where "s0 = mount_start m (raw_sb s)"
  have s0: "disk s0 = disk v" "raw_sb s0 = raw_sb v" "icache s0 = Map.empty"
    by (simp_all add: s0_def mount_start_def assms(4,5) v_def [symmetric] v(6))
  obtain t where l: "xv6fs_load_dinodes K s0 = (Inr (), t)"
    using assms(6,9) s0(2) v(6) by (simp add: load_dinodes_eq inode_block_ok_def io_ok_def)
  have "idirty v \<inter> dom (icache v) = {}" using assms(3) v(4,5) by auto
  note t = load_clean [OF vol_invD(1) [OF v(1)] this s0 l]
  have "kinds (tree_of K t) 1 \<noteq> None" using tree_invD(7) [OF vol_invD(2) [OF v(1)]] t(3) by simp
  then have rt: "resident K t 1 \<noteq> None" by (simp add: links_of_resident)
  obtain u where u: "xv6fs_iget K 1 t = (Inr 1, u)" "store_inv K u" "tree_of K u = tree_of K t" "same_data K t u"
    using store_iget [OF t(2) rt] assms(10) by auto
  have files: "same_files K {} s u"
    using v(3) same_data_files [OF t(1)] same_data_files [OF u(4)] same_files_trans [where U = "{}" and V = "{}"] by simp
  have vol: "vol_inv K u" using vol_inv_same [OF v(1) u(2)] u(3) t(3) by simp
  have "sb_bread_ok K 1" using assms(6) by (simp add: io_ok_def)
  then obtain m' where "xv6fs_fill_super K m = (Inr (), m')" "sb_fs m' = u" "s_root m' = Some XV6FS_ROOTINO"
    by (rule fill_super_state [OF assms(7,8) _ _ assms(11), of m, unfolded raw, OF _ mg l [unfolded s0_def] u(1)])
  then show ?thesis using that files vol u(3) t(3) v(2) by simp
qed

section \<open>Inodes are evicted\<close>

definition drop_inodes :: "kernel \<Rightarrow> nat list \<Rightarrow> fs \<Rightarrow> fs" where
  "drop_inodes K inos s = fold (iput_last K) inos s"

definition unlinked_inodes :: "fs \<Rightarrow> nat set" where
  "unlinked_inodes s = {i \<in> dom (icache s). i_nlink (xv6fs_i s i) = 0}"

definition tree_reclaim :: "nat set \<Rightarrow> tree \<Rightarrow> tree" where
  "tree_reclaim U A = A\<lparr>kinds := (\<lambda>i. if i \<in> U then None else kinds A i)\<rparr>"

lemma drop_inodes_simps [simp]:
  "drop_inodes K [] s = s" "drop_inodes K (i # inos) s = drop_inodes K inos (iput_last K i s)"
  by (simp_all add: drop_inodes_def)

lemma unlinked_not_root:
  assumes "vol_inv K s" "i \<in> unlinked_inodes s" shows "i \<noteq> XV6FS_ROOTINO"
proof -
  note v = vol_invD [OF assms(1)]
  have "dir_wf (tree_of K s) 1" by (rule tree_invD(4) [OF v(2) tree_invD(8) [OF v(2)]])
  then have "links (tree_of K s) 1 \<noteq> 0" using entry_exists(2) [OF v(2), of 1 dot 1] by (simp add: dir_wf_def)
  moreover have "links (tree_of K s) i = 0"
    using assms(2) cached_facts(9) [OF v(1), of i] by (simp add: unlinked_inodes_def)
  ultimately show ?thesis by auto
qed

lemma drop_unlinked_one:
  assumes "kernel_bitops K" "io_ok K" "vol_inv K s" "i \<in> unlinked_inodes s"
  shows "vol_inv K (iput_last K i s)" "tree_of K (iput_last K i s) = tree_forget i (tree_of K s)"
    "same_files K {i} s (iput_last K i s)"
    "icache (iput_last K i s) = (icache s)(i := None)" "raw_sb (iput_last K i s) = raw_sb s"
    "unlinked_inodes (iput_last K i s) = unlinked_inodes s - {i}"
proof -
  note v = vol_invD [OF assms(3)]
  have c: "i \<in> dom (icache s)" "i_nlink (xv6fs_i s i) = 0" using assms(4) by (simp_all add: unlinked_inodes_def)
  note r = store_iput_unlinked [OF assms(1,2) v(1) c]
  show t: "tree_of K (iput_last K i s) = tree_forget i (tree_of K s)"
    and ic: "icache (iput_last K i s) = (icache s)(i := None)" and "raw_sb (iput_last K i s) = raw_sb s"
    by (rule r)+
  have "vfs_allowed s (Iput i)" using unlinked_not_root [OF assms(3,4)] c by auto
  then show "vol_inv K (iput_last K i s)" using vfs_iput [OF assms(1-3)] by blast
  have "file_byte (whole K (iput_last K i s)) j = file_byte (whole K s) j" if "j \<in> dom (resident K s) - {i}" for j
    using that store_invD(1) [OF v(1)] by (intro frame_file_byte [OF _ r(3)]) auto
  then show "same_files K {i} s (iput_last K i s)" by (simp add: same_files_def r(4))
  show "unlinked_inodes (iput_last K i s) = unlinked_inodes s - {i}"
    by (auto simp: unlinked_inodes_def ic xv6fs_i_def split: if_splits)
qed

lemma drop_unlinked_all:
  assumes "kernel_bitops K" "io_ok K" "vol_inv K s" "distinct inos" "set inos \<subseteq> unlinked_inodes s"
  shows "vol_inv K (drop_inodes K inos s) \<and>
    tree_of K (drop_inodes K inos s) = tree_reclaim (set inos) (tree_of K s) \<and>
    same_files K (set inos) s (drop_inodes K inos s) \<and>
    icache (drop_inodes K inos s) = icache s |` (- set inos) \<and> raw_sb (drop_inodes K inos s) = raw_sb s"
  using assms(3-5)
proof (induction inos arbitrary: s)
  case Nil
  then show ?case by (simp add: tree_reclaim_def same_files_def)
next
  case (Cons i inos)
  let ?u = "iput_last K i s"
  have i: "i \<in> unlinked_inodes s" using Cons.prems(3) by simp
  note u = drop_unlinked_one [OF assms(1,2) Cons.prems(1) i]
  have "distinct inos" "set inos \<subseteq> unlinked_inodes ?u" using Cons.prems(2,3) u(6) by auto
  note IH = Cons.IH [OF u(1) this]
  have "same_files K (set (i # inos)) s (drop_inodes K inos ?u)" using same_files_trans [OF u(3)] IH by simp
  then show ?case
    using IH u(2,4,5) by (auto simp: tree_reclaim_def tree_forget_def restrict_map_def fun_eq_iff)
qed

lemma drop_unlinked:
  assumes "kernel_bitops K" "io_ok K" "vol_inv K s" "distinct inos" "set inos \<subseteq> unlinked_inodes s"
  shows "vol_inv K (drop_inodes K inos s)"
    "tree_of K (drop_inodes K inos s) = tree_reclaim (set inos) (tree_of K s)"
    "same_files K (set inos) s (drop_inodes K inos s)"
    "icache (drop_inodes K inos s) = icache s |` (- set inos)"
    "raw_sb (drop_inodes K inos s) = raw_sb s"
  using drop_unlinked_all [OF assms] by simp_all

text \<open>An inode that has links only leaves the cache.\<close>

lemma drop_linked:
  assumes "distinct inos" "\<forall>i \<in> set inos. i_nlink (xv6fs_i s i) \<noteq> 0"
  shows "disk (drop_inodes K inos s) = disk s \<and> icache (drop_inodes K inos s) = icache s |` (- set inos)"
  using assms
proof (induction inos arbitrary: s)
  case (Cons i inos)
  have t: "iput_last K i s = s\<lparr>icache := (icache s)(i := None), idirty := idirty s - {i}\<rparr>"
    using Cons.prems(2) by (simp add: iput_last_def evict_linked)
  have "\<forall>j \<in> set inos. i_nlink (xv6fs_i (iput_last K i s) j) \<noteq> 0"
    using Cons.prems by (auto simp: t xv6fs_i_def)
  from Cons.IH [OF _ this] Cons.prems(1) show ?case by (auto simp: t restrict_map_def)
qed (simp add: restrict_map_def)

section \<open>Unmount and mount\<close>

text \<open>
  What \<open>kill_block_super\<close> does to a mounted volume: the dentries are dropped
  and with them the inodes without links, the dirty inodes go through the
  \<open>write_inode\<close> method, the inodes that are left are evicted, and the blocks
  reach the device.
\<close>

definition unmount_inodes :: "kernel \<Rightarrow> nat list \<Rightarrow> nat list \<Rightarrow> nat list \<Rightarrow> fs \<Rightarrow> fs" where
  "unmount_inodes K xs ys zs s = drop_inodes K zs (sync_inodes K ys (drop_inodes K xs s))"

definition kill_block_super_ok :: "kernel \<Rightarrow> (super_block \<Rightarrow> super_block) \<Rightarrow> bool" where
  "kill_block_super_ok K kill \<longleftrightarrow>
     (\<forall>m. vol_inv K (sb_fs m) \<longrightarrow> icache (sb_fs (kill m)) = Map.empty \<and>
        (\<exists>xs ys zs. distinct xs \<and> set xs = unlinked_inodes (sb_fs m) \<and> distinct zs \<and>
           set ys \<subseteq> dom (icache (sb_fs m)) - set xs \<and> set zs = dom (icache (sb_fs m)) - set xs \<and>
           idirty (drop_inodes K xs (sb_fs m)) \<inter> set zs \<subseteq> set ys \<and>
           disk (sb_fs (kill m)) = disk (unmount_inodes K xs ys zs (sb_fs m))))"

lemma unmount_disk:
  assumes "kernel_bitops K" "io_ok K" "vol_inv K s" "distinct xs" "set xs = unlinked_inodes s" "distinct zs"
    and "set ys \<subseteq> dom (icache s) - set xs" "set zs = dom (icache s) - set xs"
  defines "t \<equiv> drop_inodes K xs s"
  shows "disk (unmount_inodes K xs ys zs s) = disk (sync_inodes K ys t)" "dom (icache t) = set zs"
    "icache (unmount_inodes K xs ys zs s) = Map.empty"
proof -
  note d = drop_unlinked [OF assms(1-4), folded t_def]
  have ic: "icache t = icache s |` (- set xs)" using d(4) assms(5) by simp
  then show dm: "dom (icache t) = set zs" using assms(8) by auto
  have "icache (sync_inodes K ys t) = icache t"
    using sync_inodes_ok [OF assms(2) d(1)] assms(5,7) dm assms(8) by simp
  moreover have "i_nlink (xv6fs_i t i) \<noteq> 0" if "i \<in> set zs" for i
    using that assms(5,8) by (auto simp: xv6fs_i_def ic unlinked_inodes_def)
  ultimately have z: "\<forall>i \<in> set zs. i_nlink (xv6fs_i (sync_inodes K ys t) i) \<noteq> 0"
    and e: "icache (sync_inodes K ys t) |` (- set zs) = Map.empty"
    using dm by (auto simp: xv6fs_i_def restrict_map_def fun_eq_iff domIff)
  show "disk (unmount_inodes K xs ys zs s) = disk (sync_inodes K ys t)"
    "icache (unmount_inodes K xs ys zs s) = Map.empty"
    using drop_linked [OF assms(6) z, of K] e by (simp_all add: unmount_inodes_def t_def)
qed

lemma store_finite: "store_inv K s \<Longrightarrow> finite (dom (icache s))"
proof -
  assume "store_inv K s"
  then have "dom (icache s) \<subseteq> {..<length (dinodes s)}"
    using store_invD(11) [of K s] by (auto simp: itable_ok_def)
  then show "finite (dom (icache s))" by (rule finite_subset) (rule finite_lessThan)
qed


text \<open>A \<open>kill_block_super\<close> that does these steps for the whole inode cache.\<close>

definition ref_unmount :: "fs \<Rightarrow> fs" where
  "ref_unmount s =
     (let xs = filter (\<lambda>i. i_nlink (xv6fs_i s i) = 0) (sorted_list_of_set (dom (icache s)));
          zs = filter (\<lambda>i. i_nlink (xv6fs_i s i) \<noteq> 0) (sorted_list_of_set (dom (icache s)))
      in unmount_inodes ref_kernel xs zs zs s)"

definition ref_kill :: "super_block \<Rightarrow> super_block" where
  "ref_kill m = xv6fs_put_super (m\<lparr>sb_fs := ref_unmount (sb_fs m)\<rparr>)"

lemma ref_kill_ok: "kill_block_super_ok ref_kernel ref_kill"
  unfolding kill_block_super_ok_def
proof (intro allI impI)
  fix m :: super_block
  let ?s = "sb_fs m" let ?l = "sorted_list_of_set (dom (icache (sb_fs m)))"
  let ?x = "filter (\<lambda>i. i_nlink (xv6fs_i ?s i) = 0) ?l" and ?z = "filter (\<lambda>i. i_nlink (xv6fs_i ?s i) \<noteq> 0) ?l"
  assume v: "vol_inv ref_kernel ?s"
  have "set ?l = dom (icache ?s)" using store_finite [OF vol_invD(1) [OF v]] by simp
  then have k: "distinct ?x" "set ?x = unlinked_inodes ?s" "distinct ?z" "set ?z \<subseteq> dom (icache ?s) - set ?x"
    "set ?z = dom (icache ?s) - set ?x"
    by (auto simp: unlinked_inodes_def)
  note u = unmount_disk [OF ref_kernel_bitops ref_io_ok v k]
  have "disk (sb_fs (ref_kill m)) = disk (ref_unmount ?s)" "icache (sb_fs (ref_kill m)) = icache (ref_unmount ?s)"
    by (simp_all add: ref_kill_def xv6fs_put_super_def xv6fs_release_sbi_def xv6fs_release_dinodes_def brelse_def Let_def)
  moreover have "ref_unmount ?s = unmount_inodes ref_kernel ?x ?z ?z ?s" by (simp add: ref_unmount_def Let_def)
  ultimately show "icache (sb_fs (ref_kill m)) = Map.empty \<and> (\<exists>xs ys zs. distinct xs \<and> set xs = unlinked_inodes ?s \<and>
      distinct zs \<and> set ys \<subseteq> dom (icache ?s) - set xs \<and> set zs = dom (icache ?s) - set xs \<and>
      idirty (drop_inodes ref_kernel xs ?s) \<inter> set zs \<subseteq> set ys \<and>
      disk (sb_fs (ref_kill m)) = disk (unmount_inodes ref_kernel xs ys zs ?s))"
    using u(3) k by (intro conjI exI [of _ ?x] exI [of _ ?z]) simp_all
qed

text \<open>A file is made and unlinked while it is open; the volume is unmounted and mounted again.\<close>

lemma sample_orphan:
  obtains t where
    "vfs_run ref_page_cache ref_kernel [Create 1 [97] 0x8000, Unlink 1 [97] 2] sample_fs = Some t"
    "vol_inv ref_kernel t" "2 \<in> unlinked_inodes t" "kinds (tree_of ref_kernel t) 2 = Some XV6FS_T_FILE"
proof -
  have al: "live_dir sample_fs 1" "new_name sample_fs 1 [97]" "\<not> S_ISDIR 0x8000" using sample_create by simp_all
  obtain t where t: "xv6fs_create ref_kernel 1 [97] 0x8000 sample_fs = Some (Ret 2, t)" "vol_inv ref_kernel t"
    "tree_of ref_kernel t = tree_create 1 [97] 2 XV6FS_T_FILE (tree_of ref_kernel sample_fs)"
    and c: "1 \<in> dom (icache t)" "2 \<in> dom (icache t)"
    using create_room [OF ref_kernel_bitops ref_io_ok sample_vol_inv al sample_room] by blast
  note v = vol_invD [OF t(2)] and f1 = cached_facts [OF v(1) c(1)] and f2 = cached_facts [OF v(1) c(2)]
  have ld: "live_dir t 1"
    using f1(8,9) cached_i [OF c(1)] by (auto simp: t(3) tree_create_def sample_tree live_dir_def live_dir_inode_def)
  have fl: "is_file t 2"
    using f2(8) by (auto simp: t(3) tree_create_def is_file_def cached_i [OF c(2)])
  have nm: "dir_names t 1 [97] = Some 2"
    unfolding live_dirD(4) [OF t(2) ld, symmetric] t(3) by (simp add: tree_create_def)
  have nd: "[97] \<notin> dots" using al(2) by (simp add: new_name_def)
  obtain u where u: "xv6fs_unlink ref_kernel 1 [97] 2 t = Some (Ret (), u)" "vol_inv ref_kernel u" "2 \<in> dom (icache u)"
    "tree_of ref_kernel u = tree_unlink 1 [97] 2 (tree_of ref_kernel t)"
    using vfs_unlink [OF t(2) ld fl nd nm] by blast
  have "unat (i_nlink (xv6fs_i u 2)) = 0"
    using cached_facts(9) [OF vol_invD(1) [OF u(2)] u(3)] by (simp add: u(4) t(3) tree_unlink_def tree_create_def)
  then have "2 \<in> unlinked_inodes u" using u(3) by (simp add: unlinked_inodes_def unat_eq_0)
  moreover have "kinds (tree_of ref_kernel u) 2 = Some XV6FS_T_FILE"
    by (simp add: u(4) t(3) tree_unlink_def tree_create_def)
  moreover have "vfs_run ref_page_cache ref_kernel [Create 1 [97] 0x8000, Unlink 1 [97] 2] sample_fs = Some u"
    using sample_create ld fl nd nm t(1) u(1) live_dirD(10) [OF sample_vol_inv al(1)] live_dirD(10) [OF t(2) ld]
    by (simp add: returned_def)
  ultimately show ?thesis using that u(2) by blast
qed


end
