(* ===== verification/Xv6fs_Crash.thy ===== *)
theory Xv6fs_Crash
  imports Xv6fs_Remount
begin

text \<open>
  What a crash leaves.  Dirty blocks reach the device one by one, in any order,
  and the driver keeps no log: after a crash each block is as it was after
  some call of the history.  The superblock and every slot of the inode table
  are then whole, so the device can be mounted; how the slots fit together is
  not guaranteed.
\<close>

section \<open>What the directory code leaves alone\<close>

text \<open>
  Whatever a directory holds and whether or not the call returns a result,
  the superblock copy and the inode table stay.
\<close>

definition kept :: "fs \<Rightarrow> fs \<Rightarrow> bool" where
  "kept s t \<longleftrightarrow> raw_sb t = raw_sb s \<and> dinodes t = dinodes s"

lemma kept_refl [simp]: "kept s s"
  by (simp add: kept_def)

lemma kept_trans [trans]: "kept s t \<Longrightarrow> kept t u \<Longrightarrow> kept s u"
  by (simp add: kept_def)

lemma kept_tables: "same_tables i s t \<Longrightarrow> kept s t"
  by (simp add: kept_def same_tables_def)

lemma kept_basic [simp]:
  "kept s (brelse t) = kept s t" "kept s (mark_buffer_dirty b t) = kept s t"
  "kept s (b_store b d t) = kept s t" "kept s (set_inode i ei t) = kept s t"
  "kept s (mark_inode_dirty i t) = kept s t" "kept s (set_nlink i n t) = kept s t"
  "kept s (snd (release_dir_cursor (c, t))) = kept s t"
  by (simp_all add: kept_def buffer_defs inode_defs set_nlink_def release_dir_cursor_def)

lemma kept_bread: "sb_bread K s b = Some t \<Longrightarrow> kept s t" "sb_getblk K s b = Some t \<Longrightarrow> kept s t"
  by (auto simp: sb_bread_def sb_getblk_def kept_def split: if_splits)

lemma kept_get_block: "xv6fs_get_block K i l c s = (r, t) \<Longrightarrow> kept s t"
  using get_block_frame [of i s K l c] kept_tables [of i s t] by simp

lemma kept_bfree: "kept s (xv6fs_bfree K b s)"
  by (simp add: kept_def bfree_eq)

lemma kept_resolve: "resolve_block K i c s = Some (r, c', t) \<Longrightarrow> kept s t"
proof (drule resolve_block.raw_induct [where P = "\<lambda>K i c s y. kept s (snd (snd y))", rotated])
  fix f K i c s y
  assume IH: "\<And>K i c s y. f K i c s = Some y \<Longrightarrow> kept s (snd (snd y))"
    and y: "(if 0 \<le> c_pos c \<and> c_pos c < dir_size s i \<and> c_bh c = None then
        (case xv6fs_get_block K i (nat (c_pos c div 512)) False s of
           (Inl e, s1) \<Rightarrow> Some (Some (De_err e), c, s1)
         | (Inr (Mapped b new), s1) \<Rightarrow>
             (case sb_bread K s1 b of
                None \<Rightarrow> Some (Some (De_err EIO), c\<lparr>c_de := None\<rparr>, s1)
              | Some s2 \<Rightarrow>
                  if c_pos c mod 512 \<noteq> 0 then Some (None, c\<lparr>c_bh := Some b\<rparr>, s2)
                  else if inum (dirent_at (disk s2 b) 0) = 0
                       then Some (None, note_empty (c\<lparr>c_bh := Some b, c_de := Some 0\<rparr>), s2)
                       else Some (Some De_entry, c\<lparr>c_bh := Some b, c_de := Some 0\<rparr>, s2))
         | (Inr Unmapped, s1) \<Rightarrow> f K i (skip_hole (dir_size s i) c) s1)
      else Some (None, c, s)) = Some y"
  show "kept s (snd (snd y))"
    using y kept_get_block [of K i "nat (c_pos c div 512)" False s]
    by (auto split: if_splits prod.splits sum.splits bh_result.splits option.splits
        intro: kept_trans [OF _ kept_bread(1)] kept_trans [OF _ IH])
qed simp

lemma kept_advance: "advance_dir_cursor K i c s = Some (r, c', t) \<Longrightarrow> kept s t"
proof (drule advance_dir_cursor.raw_induct [where P = "\<lambda>K i c s y. kept s (snd (snd y))", rotated])
  fix f K i c s y
  assume IH: "\<And>K i c s y. f K i c s = Some y \<Longrightarrow> kept s (snd (snd y))"
    and y: "Option.bind (resolve_block K i c s) (\<lambda>(r, c1, s1).
       case r of
         Some d \<Rightarrow> Some (d, c1, s1)
       | None \<Rightarrow>
           let c2 = c1\<lparr>c_pos := c_pos c1 + 16\<rparr>;
               blk_off = nat (c_pos c2 mod 512)
           in if dir_size s1 i \<le> c_pos c2 then Some (De_null, release_dir_cursor (c2, s1))
              else if blk_off = 0 then
                f K i (fst (release_dir_cursor (c2, s1))) (snd (release_dir_cursor (c2, s1)))
              else case c_bh c2 of
                     None \<Rightarrow> Some (De_oops, c2, s1)
                   | Some b \<Rightarrow>
                       if XV6FS_BSIZE < blk_off + 16 then Some (De_oops, c2, s1)
                       else if inum (dirent_at (disk s1 b) blk_off) = 0
                            then f K i (note_empty (c2\<lparr>c_de := Some blk_off\<rparr>)) s1
                            else Some (De_entry, c2\<lparr>c_de := Some blk_off\<rparr>, s1)) = Some y"
  obtain r c1 s1 where res: "resolve_block K i c s = Some (r, c1, s1)"
    using y by (auto simp: bind_eq_Some_conv)
  have s1: "kept s s1" by (rule kept_resolve [OF res])
  have rel: "kept s1 (snd (release_dir_cursor (c2, s1)))" for c2 by simp
  have "kept s1 (snd (snd y))"
    using y unfolding res
    by (auto simp: Let_def split: if_splits option.splits intro: kept_trans [OF rel IH] IH)
  then show "kept s (snd (snd y))" using s1 kept_trans by blast
qed simp

lemma kept_find_entry: "find_entry_loop K i n c s = Some (r, c', t) \<Longrightarrow> kept s t"
proof (drule find_entry_loop.raw_induct [where P = "\<lambda>K i n c s y. kept s (snd (snd y))", rotated])
  fix f K i n c s y
  assume IH: "\<And>K i n c s y. f K i n c s = Some y \<Longrightarrow> kept s (snd (snd y))"
    and y: "Option.bind (advance_dir_cursor K i c s) (\<lambda>(r, c1, s1).
       case r of
         De_entry \<Rightarrow> if name_matches n (cursor_dirent s1 c1) then Some (De_entry, c1, s1) else f K i n c1 s1
       | _ \<Rightarrow> Some (r, c1, s1)) = Some y"
  obtain r c1 s1 where adv: "advance_dir_cursor K i c s = Some (r, c1, s1)"
    using y by (auto simp: bind_eq_Some_conv)
  show "kept s (snd (snd y))"
    using y kept_advance [OF adv] unfolding adv
    by (cases r) (auto split: if_splits intro: kept_trans [OF kept_advance [OF adv] IH])
qed simp

lemma kept_scan_dir: "scan_dir_loop K i c s = Some (r, c', t) \<Longrightarrow> kept s t"
proof (drule scan_dir_loop.raw_induct [where P = "\<lambda>K i c s y. kept s (snd (snd y))", rotated])
  fix f K i c s y
  assume IH: "\<And>K i c s y. f K i c s = Some y \<Longrightarrow> kept s (snd (snd y))"
    and y: "Option.bind (advance_dir_cursor K i c s) (\<lambda>(r, c1, s1).
       case r of De_entry \<Rightarrow> f K i c1 s1 | _ \<Rightarrow> Some (r, c1, s1)) = Some y"
  obtain r c1 s1 where adv: "advance_dir_cursor K i c s = Some (r, c1, s1)"
    using y by (auto simp: bind_eq_Some_conv)
  show "kept s (snd (snd y))"
    using y kept_advance [OF adv] unfolding adv
    by (cases r) (auto split: if_splits intro: kept_trans [OF kept_advance [OF adv] IH])
qed simp

lemma kept_is_empty: "dir_is_empty_loop K i n c s = Some (r, t) \<Longrightarrow> kept s t"
proof (drule dir_is_empty_loop.raw_induct [where P = "\<lambda>K i n c s y. kept s (snd y)", rotated])
  fix f K i n c s y
  assume IH: "\<And>K i n c s y. f K i n c s = Some y \<Longrightarrow> kept s (snd y)"
    and y: "Option.bind (advance_dir_cursor K i c s) (\<lambda>(r, c1, s1).
       case r of
         De_null \<Rightarrow> Some (Ret True, snd (release_dir_cursor (c1, s1)))
       | De_err e \<Rightarrow> Some (Ret False, snd (release_dir_cursor (c1, s1)))
       | De_oops \<Rightarrow> Some (Oops, s1)
       | De_entry \<Rightarrow>
           if 2 < Suc n then Some (Ret False, snd (release_dir_cursor (c1, s1)))
           else f K i (Suc n) c1 s1) = Some y"
  obtain r c1 s1 where adv: "advance_dir_cursor K i c s = Some (r, c1, s1)"
    using y by (auto simp: bind_eq_Some_conv)
  show "kept s (snd y)"
    using y kept_advance [OF adv] unfolding adv
    by (cases r) (auto split: if_splits intro: kept_trans [OF kept_advance [OF adv] IH])
qed simp

lemma kept_store_entry: "kept s (snd (store_entry d n i p b s))"
  by (simp add: store_entry_def Let_def)

lemma kept_write_entry: "kept s (snd (dir_write_entry K d n i p s))"
  unfolding dir_write_entry_def
  by (auto split: prod.splits sum.splits bh_result.splits bool.splits option.splits
      intro: kept_get_block kept_trans [OF kept_get_block kept_bfree]
        kept_trans [OF kept_trans [OF kept_get_block kept_bread(1)] kept_store_entry]
        kept_trans [OF kept_trans [OF kept_get_block kept_bread(2)] kept_trans [OF _ kept_store_entry]])

lemma kept_add_entry:
  assumes "xv6fs_dir_add_entry K d n i s = Some (r, t)" shows "kept s t"
proof (cases "XV6FS_DIRSIZ < length n")
  case False
  then obtain x c u where scan: "scan_dir_loop K d INIT_DIR_CURSOR s = Some (x, c, u)"
    using assms by (auto simp: xv6fs_dir_add_entry_def bind_eq_Some_conv)
  note su = kept_scan_dir [OF scan]
  let ?v = "snd (release_dir_cursor (c, u))"
  have w: "kept s t" if "dir_write_entry K d n i p ?v = (r, t)" for p
    using kept_trans [OF _ kept_write_entry [of ?v K d n i p], of s] su that by simp
  show ?thesis
    using assms False scan su by (cases x) (auto simp: xv6fs_dir_add_entry_def Let_def intro: w)
qed (use assms in \<open>simp add: xv6fs_dir_add_entry_def\<close>)

lemma kept_add_entries: "add_entries K es s = Some (r, t) \<Longrightarrow> kept s t"
proof (induction es arbitrary: s)
  case (Cons e es)
  obtain d n i where e: "e = (d, n, i)" by (cases e)
  obtain x u where u: "xv6fs_dir_add_entry K d n i s = Some (x, u)"
    using Cons.prems e by (auto simp: bind_eq_Some_conv)
  show ?case
    using Cons.prems Cons.IH kept_add_entry [OF u] e u by (cases x) (auto intro: kept_trans)
qed simp

lemma kept_unlink:
  assumes "xv6fs_unlink K d n i s = Some (r, t)" shows "kept s t"
proof -
  obtain x c u where find: "find_entry_loop K d n INIT_DIR_CURSOR s = Some (x, c, u)"
    using assms by (auto simp: xv6fs_unlink_def xv6fs_find_entry_def bind_eq_Some_conv)
  then show ?thesis
    using assms kept_find_entry [OF find]
    by (cases x) (auto simp: xv6fs_unlink_def xv6fs_find_entry_def Let_def inode_dec_link_count_def)
qed

lemma kept_rmdir:
  assumes "xv6fs_rmdir K d n i s = Some (r, t)" shows "kept s t"
proof -
  obtain x u where e: "dir_is_empty_loop K i 0 INIT_DIR_CURSOR s = Some (x, u)"
    using assms by (auto simp: xv6fs_rmdir_def xv6fs_dir_is_empty_def bind_eq_Some_conv)
  note su = kept_is_empty [OF e]
  show ?thesis
  proof (cases "x = Ret True")
    case True
    then obtain y v where v: "xv6fs_unlink K d n i u = Some (y, v)"
      using assms e by (auto simp: xv6fs_rmdir_def xv6fs_dir_is_empty_def bind_eq_Some_conv)
    then show ?thesis
      using assms e True kept_trans [OF su kept_unlink [OF v]]
      by (cases y) (auto simp: xv6fs_rmdir_def xv6fs_dir_is_empty_def inode_dec_link_count_def)
  next
    case False
    then show ?thesis using assms e su by (cases x) (auto simp: xv6fs_rmdir_def xv6fs_dir_is_empty_def)
  qed
qed

lemma kept_link:
  assumes "xv6fs_link K i d n s = Some (r, t)" shows "kept s t"
proof (cases "S_ISDIR (i_mode (xv6fs_i s i)) \<or> 65535 \<le> i_nlink (xv6fs_i s i)")
  case True
  then show ?thesis using assms by (auto simp: xv6fs_link_def split: if_splits)
next
  case False
  then obtain x u where add: "xv6fs_dir_add_entry K d n i s = Some (x, u)"
    using assms by (auto simp: xv6fs_link_def bind_eq_Some_conv)
  then show ?thesis
    using assms False kept_add_entry [OF add] by (cases x) (auto simp: xv6fs_link_def inode_inc_link_count_def)
qed

section \<open>The root's slot\<close>

text \<open>The superblock stays, and the slot of the root inode stays one of a directory.\<close>

definition root_kept :: "fs \<Rightarrow> fs \<Rightarrow> bool" where
  "root_kept s t \<longleftrightarrow> raw_sb t = raw_sb s \<and>
     (d_type (dinodes s ! XV6FS_ROOTINO) = XV6FS_T_DIR \<longrightarrow> d_type (dinodes t ! XV6FS_ROOTINO) = XV6FS_T_DIR)"

lemma root_kept_trans [trans]: "root_kept s t \<Longrightarrow> root_kept t u \<Longrightarrow> root_kept s u"
  by (simp add: root_kept_def)

lemma kept_root: "kept s t \<Longrightarrow> root_kept s t"
  by (simp add: kept_def root_kept_def)

lemma iput_last_tables:
  "raw_sb (iput_last K i s) = raw_sb s" "j \<noteq> i \<Longrightarrow> dinodes (iput_last K i s) ! j = dinodes s ! j"
  using evict_unlinked [where K = K and s = s and ino = i] evict_linked [of s i K]
  by (cases "i_nlink (xv6fs_i s i) = 0 \<and> 0 < i"; auto simp: iput_last_def Let_def)+

lemma root_iput: "i \<noteq> XV6FS_ROOTINO \<Longrightarrow> root_kept s (iput_last K i s)"
  using iput_last_tables(2) [of XV6FS_ROOTINO i K s] by (simp add: root_kept_def iput_last_tables(1))

lemma root_iget: "xv6fs_iget K i s = (r, t) \<Longrightarrow> root_kept s t"
proof -
  assume call: "xv6fs_iget K i s = (r, t)"
  let ?ei = "iget_attrs (xv6fs_read_inode s i (fresh_inode K))"
  show ?thesis
  proof (cases "iget_ops ?ei = None \<and> i \<noteq> XV6FS_ROOTINO")
    case True
    have "root_kept s (iput_last K i (set_inode i ?ei s))"
      using True by (intro root_kept_trans [OF kept_root root_iput]) simp_all
    then show ?thesis using call
      by (auto simp: xv6fs_iget_def iget_failed_def Let_def root_kept_def inode_defs split: if_splits option.splits)
  next
    case False
    have "iget_ops ?ei \<noteq> None" if "i = XV6FS_ROOTINO" "d_type (dinodes s ! XV6FS_ROOTINO) = XV6FS_T_DIR"
      using that by (simp add: iget_ops_def iget_attrs_def xv6fs_read_inode_def xv6fs_dinode_to_cpu_def)
    then show ?thesis using call False
      by (auto simp: xv6fs_iget_def iget_failed_def Let_def root_kept_def inode_defs iput_last_tables(1)
          split: if_splits option.splits)
  qed
qed

lemma root_lookup:
  assumes "xv6fs_lookup K d n s = Some (r, t)" shows "root_kept s t"
proof (cases "XV6FS_DIRSIZ < length n")
  case False
  then obtain x c u where find: "find_entry_loop K d n INIT_DIR_CURSOR s = Some (x, c, u)"
    using assms by (auto simp: xv6fs_lookup_def xv6fs_find_entry_def bind_eq_Some_conv)
  note su = kept_find_entry [OF find]
  obtain y v where get: "xv6fs_iget K (unat (inum (cursor_dirent u c))) u = (y, v)" by fastforce
  have "root_kept s v" by (rule root_kept_trans [OF kept_root [OF su] root_iget [OF get]])
  moreover have "root_kept v (snd (release_dir_cursor (c, v)))" by (rule kept_root) simp
  ultimately have sv: "root_kept s (snd (release_dir_cursor (c, v)))" by (rule root_kept_trans)
  have sr: "root_kept s u" "root_kept s (snd (release_dir_cursor (c, u)))" using su by (simp_all add: kept_root)
  show ?thesis
    using assms find False get sr sv
    by (cases x; cases y) (auto simp: xv6fs_lookup_def xv6fs_find_entry_def)
qed (use assms in \<open>simp add: xv6fs_lookup_def root_kept_def\<close>)

text \<open>The number of a new inode is not the root's.\<close>

lemma root_in_use: "vol_inv K s \<Longrightarrow> XV6FS_ROOTINO \<notin> set (free_inodes_list s)"
proof -
  assume v: "vol_inv K s"
  have "kinds (tree_of K s) 1 \<noteq> None" using tree_invD(7) [OF vol_invD(2) [OF v]] by simp
  then have "resident K s 1 \<noteq> None" by (simp add: links_of_resident)
  then show ?thesis
    using free_not_resident [OF store_invD(11) [OF vol_invD(1) [OF v]]] by auto
qed

lemma new_inode_root:
  assumes "vol_inv K s" "xv6fs_new_inode K m s = (r, u)"
  shows "kept s u" "r = Inr i \<Longrightarrow> i \<noteq> XV6FS_ROOTINO"
  using assms(2) root_in_use [OF assms(1)]
  by (auto simp: xv6fs_new_inode_def kept_def inode_defs Let_def split: list.splits if_splits)

lemma root_discard: "i \<noteq> XV6FS_ROOTINO \<Longrightarrow> root_kept s (discard_inode K i s)"
  unfolding discard_inode_def by (rule root_kept_trans [OF kept_root root_iput]) simp_all

lemma root_create:
  assumes "vol_inv K s" "xv6fs_create K d n m s = Some (r, t)" shows "root_kept s t"
proof -
  obtain x u where new: "xv6fs_new_inode K m s = (x, u)" by fastforce
  note nw = new_inode_root [OF assms(1) new]
  show ?thesis
  proof (cases x)
    case (Inr i)
    then obtain y v where add: "xv6fs_dir_add_entry K d n i u = Some (y, v)"
      using assms(2) new by (auto simp: xv6fs_create_def bind_eq_Some_conv)
    have "root_kept s v" by (rule kept_root [OF kept_trans [OF nw(1) kept_add_entry [OF add]]])
    then show ?thesis
      using assms(2) new add Inr root_kept_trans [OF _ root_discard [OF nw(2) [OF Inr]]]
      by (cases y) (auto simp: xv6fs_create_def)
  qed (use assms(2) new nw(1) in \<open>simp add: xv6fs_create_def kept_root\<close>)
qed

lemma root_mkdir:
  assumes "vol_inv K s" "xv6fs_mkdir K d n m s = Some (r, t)" shows "root_kept s t"
proof -
  obtain x u where new: "xv6fs_new_inode K (S_IFDIR OR m) s = (x, u)" by fastforce
  note nw = new_inode_root [OF assms(1) new]
  show ?thesis
  proof (cases x)
    case (Inr i)
    let ?es = "[(i, [46], i), (i, [46, 46], d), (d, n, i)]"
    obtain y v where add: "add_entries K ?es u = Some (y, v)"
      using assms(2) new Inr unfolding xv6fs_mkdir_def by (auto simp: bind_eq_Some_conv simp del: add_entries.simps)
    have "root_kept s v" by (rule kept_root [OF kept_trans [OF nw(1) kept_add_entries [OF add]]])
    then show ?thesis
      using assms(2) new add Inr root_kept_trans [OF _ root_discard [OF nw(2) [OF Inr]]]
        root_kept_trans [OF _ kept_root, of s v "inode_inc_link_count d v"]
      by (cases y) (auto simp: xv6fs_mkdir_def inode_inc_link_count_def simp del: add_entries.simps)
  qed (use assms(2) new nw(1) in \<open>simp add: xv6fs_mkdir_def kept_root\<close>)
qed

lemma kept_setattr: "xv6fs_setattr K i ia s = (r, t) \<Longrightarrow> kept s t"
  using kept_trans [OF kept_tables [OF truncate_setsize_tables] kept_tables [OF truncate_blocks_tables]]
  by (auto simp: xv6fs_setattr_def Let_def split: option.splits if_splits)

lemma returned_root: "returned x = Some t \<Longrightarrow> (\<And>r. x = Some (r, t) \<Longrightarrow> root_kept s t) \<Longrightarrow> root_kept s t"
  by (auto simp: returned_def split: option.splits dir_ret.splits)

lemma vfs_exec_root:
  assumes "kernel_bitops K" "io_ok K" "setattr_copy_ok K" "page_cache_ok P" "vol_inv K s" "vfs_allowed s c"
    and "vfs_exec P K c s = Some t"
  shows "root_kept s t"
proof -
  note d = live_dirD(10) [OF assms(5)] and v = vol_invD [OF assms(5)]
  show ?thesis
  proof (cases c)
    case (Lookup d n)
    then show ?thesis using assms(6,7) d by (auto intro: returned_root root_lookup)
  next
    case (Create d n m)
    then show ?thesis using assms(6,7) d by (auto intro: returned_root root_create [OF assms(5)])
  next
    case (Mkdir d n m)
    then show ?thesis using assms(6,7) d by (auto intro: returned_root root_mkdir [OF assms(5)])
  next
    case (Unlink d n i)
    then show ?thesis using assms(6,7) d by (auto intro: returned_root kept_root [OF kept_unlink])
  next
    case (Rmdir d n i)
    then show ?thesis using assms(6,7) d by (auto intro: returned_root kept_root [OF kept_rmdir])
  next
    case (Link i d n)
    then show ?thesis using assms(6,7) d by (auto intro: returned_root kept_root [OF kept_link])
  next
    case (Map_block i l)
    then show ?thesis using assms(7) by (auto intro: kept_root kept_get_block [OF prod.collapse [symmetric]])
  next
    case (Page_write i l dt)
    then show ?thesis using assms(7)
      by (auto simp: page_write_def intro: kept_root split: option.splits)
  next
    case (Write i pos data)
    then have f: "is_file s i" "pos + length data \<le> XV6FS_MAXFILE * XV6FS_BSIZE" using assms(6) by simp_all
    have own: "own_inv s" using store_vol_ok [OF v(1)] by (simp add: vol_ok_def)
    obtain r u where w: "write_iter (xv6fs_file_fops P K) i pos data s = (r, u)" by fastforce
    have "kept s u"
      using file_write_written [OF assms(1,2,4) own is_fileD(1) [OF f(1)] f(2) w]
      by (cases r) (auto simp: written_def touches_def intro: kept_tables)
    then show ?thesis using assms(7) Write w by (auto simp: via_op_def file_ops_def intro: kept_root split: if_splits)
  next
    case (Setattr i ia)
    obtain r u where "xv6fs_setattr K i ia s = (r, u)" by fastforce
    then show ?thesis
      using assms(7) Setattr setattr_op [of K "xv6fs_i s i"] kept_setattr [of K i ia s r u] by (auto intro: kept_root)
  next
    case (Write_back i w)
    then have c: "i \<in> dom (icache s)" using assms(6) by auto
    have t: "t = snd (write_back K i w s)" using Write_back assms(7) by (simp add: xv6fs_super_ops_def write_back_def)
    have "i_type (xv6fs_i s XV6FS_ROOTINO) = XV6FS_T_DIR" if "i = XV6FS_ROOTINO"
      using that cached_facts(8) [OF v(1) c] tree_invD(7) [OF v(2)] by simp
    then have "d_type ((dinodes s)[i := xv6fs_dinode_to_disk (xv6fs_i s i)] ! XV6FS_ROOTINO) = XV6FS_T_DIR"
      if "d_type (dinodes s ! XV6FS_ROOTINO) = XV6FS_T_DIR"
      using that by (cases "i = XV6FS_ROOTINO"; cases "XV6FS_ROOTINO < length (dinodes s)")
        (simp_all add: xv6fs_dinode_to_disk_def list_update_beyond)
    then show ?thesis by (simp add: t write_back_state [OF assms(2)] root_kept_def)
  next
    case (Iput i)
    then show ?thesis using assms(6,7) root_iput by auto
  qed
qed

section \<open>The states a device can be left in\<close>

text \<open>The states between the calls of a history, from the first to the last.\<close>

fun vfs_states :: "page_cache \<Rightarrow> kernel \<Rightarrow> vfs_call list \<Rightarrow> fs \<Rightarrow> fs list" where
  "vfs_states P K [] s = [s]"
| "vfs_states P K (c # cs) s =
     (if vfs_allowed s c
      then s # (case vfs_exec P K c s of None \<Rightarrow> [] | Some t \<Rightarrow> vfs_states P K cs t)
      else vfs_states P K cs s)"

lemma vfs_states_ok:
  assumes "kernel_bitops K" "io_ok K" "setattr_copy_ok K" "page_cache_ok P" "vol_inv K s"
  shows "\<forall>u \<in> set (vfs_states P K cs s). vol_inv K u \<and> root_kept s u"
  using assms(5)
proof (induction cs arbitrary: s)
  case Nil
  then show ?case by (simp add: root_kept_def)
next
  case (Cons c cs)
  show ?case
  proof (cases "vfs_allowed s c")
    case True
    obtain t where t: "vfs_exec P K c s = Some t" "vol_inv K t"
      using vfs_exec_ok [OF assms(1-4) Cons.prems True] by blast
    have "root_kept s t" by (rule vfs_exec_root [OF assms(1-4) Cons.prems True t(1)])
    then show ?thesis using Cons.IH [OF t(2)] t(1) Cons.prems True
      by (auto intro: root_kept_trans) (simp add: root_kept_def)
  next
    case False
    then show ?thesis using Cons.IH [OF Cons.prems] by simp
  qed
qed

text \<open>
  The superblock and the inode blocks on the device: each is as it was in one
  of the states.  Nothing is said of the bitmap and the data.
\<close>

definition left_by :: "fs set \<Rightarrow> xv6fs_superblock \<Rightarrow> (nat \<Rightarrow> block) \<Rightarrow> bool" where
  "left_by S raw D \<longleftrightarrow> (\<forall>b < unat (sb_bmapstart raw). \<exists>u \<in> S. D b = disk u b)"

lemma left_by_slots:
  assumes "left_by S raw D" "layout_ok raw" "\<forall>u \<in> S. synced u \<and> raw_sb u = raw \<and> length (dinodes u) = n"
    and "disk s0 = D" "raw_sb s0 = raw" "n = unat (sb_ninodes raw)"
  shows "xv6fs_sb_to_cpu (D 1) = raw" "sb_magic raw = XV6FS_MAGIC"
    "\<exists>u \<in> S. \<forall>i < n. XV6FS_IBLOCK i raw = b \<longrightarrow> slot_synced (disk_dinode s0 i) (dinodes u ! i)"
proof -
  have "1 < unat (sb_bmapstart raw)" using assms(2) by (simp add: layout_ok_def)
  then obtain u where u: "u \<in> S" "D 1 = disk u 1" using assms(1) by (auto simp: left_by_def)
  then show "xv6fs_sb_to_cpu (D 1) = raw" "sb_magic raw = XV6FS_MAGIC"
    using assms(3) by (auto simp: synced_def)
  show "\<exists>u \<in> S. \<forall>i < n. XV6FS_IBLOCK i raw = b \<longrightarrow> slot_synced (disk_dinode s0 i) (dinodes u ! i)"
  proof (cases "b < unat (sb_bmapstart raw)")
    case True
    then obtain v where v: "v \<in> S" "D b = disk v b" using assms(1) by (auto simp: left_by_def)
    then have "disk_dinode s0 i = disk_dinode v i" if "XV6FS_IBLOCK i raw = b" for i
      using that assms(3-5) by (simp add: disk_dinode_def)
    then show ?thesis using v(1) assms(3) by (intro bexI [of _ v]) (simp_all add: synced_def)
  next
    case False
    then show ?thesis using IBLOCK_meta [OF assms(2)] assms(6) u(1) by blast
  qed
qed

section \<open>Property\<close>

text \<open>
  C5: The volume survives a crash as a volume.  The driver writes without a log,
  so after a crash each block is as it was after some call of the history,
  some old, some new.  Whatever the mixture, \<open>xv6fs_mount\<close> accepts the device:
  it finds the superblock, a consistent inode table and the root directory,
  and the inodes of one block are as they were together after one of the
  calls, so no inode is torn.
\<close>

theorem crash_mounts:
  fixes m :: super_block
  assumes "kernel_bitops K" "io_ok K" "setattr_copy_ok K" "page_cache_ok P" "vol_inv K s"
    and "d_type (dinodes s ! XV6FS_ROOTINO) = XV6FS_T_DIR"
    and "left_by (set (vfs_states P K cs s)) (raw_sb s) (disk (sb_fs m))" "icache (sb_fs m) = Map.empty"
    and "kzalloc_ok K" "set_blocksize_ok K" "kvmalloc_ok K (unat (sb_ninodes (raw_sb s)))"
    and "inode_alloc_ok K 1" "d_make_root_ok K"
  shows "\<exists>m'. fs_mount (xv6fs_fs_type K kill) m ms = (Inr m', ms\<lparr>mounts := mounts ms + 1\<rparr>) \<and>
    s_root m' = Some XV6FS_ROOTINO \<and> raw_sb (sb_fs m') = raw_sb s \<and> itable_ok (sb_fs m') \<and>
    i_type (xv6fs_i (sb_fs m') XV6FS_ROOTINO) = XV6FS_T_DIR \<and>
    (\<forall>b. \<exists>u \<in> set (vfs_states P K cs s). \<forall>i < unat (sb_ninodes (raw_sb s)).
       XV6FS_IBLOCK i (raw_sb s) = b \<longrightarrow> slot_synced (dinodes (sb_fs m') ! i) (dinodes u ! i))"
proof -
  define S where "S = set (vfs_states P K cs s)"
  define n where "n = unat (sb_ninodes (raw_sb s))"
  define s0 where "s0 = mount_start m (raw_sb s)"
  have S: "vol_inv K u" "root_kept s u" if "u \<in> S" for u
    using vfs_states_ok [OF assms(1-5)] that by (simp_all add: S_def)
  have raw: "raw_sb u = raw_sb s" and rt: "d_type (dinodes u ! 1) = 1" if "u \<in> S" for u
    using S(2) [OF that] assms(6) by (simp_all add: root_kept_def)
  note inv = store_invD [OF vol_invD(1) [OF S(1)]] and inv_s = store_invD [OF vol_invD(1) [OF assms(5)]]
  have all: "\<forall>u \<in> S. synced u \<and> raw_sb u = raw_sb s \<and> length (dinodes u) = n"
    using inv(12,13) raw by (simp add: n_def)
  have s0: "disk s0 = disk (sb_fs m)" "raw_sb s0 = raw_sb s" "icache s0 = Map.empty"
    using assms(8) by (simp_all add: s0_def mount_start_def)
  note lb = left_by_slots [OF assms(7) [folded S_def] inv_s(14) all s0(1,2) n_def]
  obtain t where l: "xv6fs_load_dinodes K s0 = (Inr (), t)"
    using assms(2,11) s0(2) by (simp add: load_dinodes_eq inode_block_ok_def io_ok_def)
  then have t: "raw_sb t = raw_sb s" "icache t = Map.empty" and dt: "\<And>i. i < n \<Longrightarrow> dinodes t ! i =
      (if d_type (disk_dinode s0 i) = 0 then zero_dinode else disk_dinode s0 i)"
    using s0 by (auto simp: load_dinodes_eq n_def split: if_splits)
  have "slot_synced (dinodes t ! i) d" if "slot_synced (disk_dinode s0 i) d" "i < n" for i d
    using that by (auto simp: dt slot_synced_def zero_dinode_def split: if_splits)
  then have slots: "\<exists>u \<in> S. \<forall>i < n. XV6FS_IBLOCK i (raw_sb s) = b \<longrightarrow> slot_synced (dinodes t ! i) (dinodes u ! i)" for b
    using lb(3) [of b] by blast
  have "kinds (tree_of K s) 1 \<noteq> None" using tree_invD(7) [OF vol_invD(2) [OF assms(5)]] by simp
  then have n1: "1 < n"
    using inv_s(11,13) by (auto simp: links_of_resident resident_def itable_ok_def n_def split: option.splits if_splits)
  then have t1: "d_type (dinodes t ! 1) = 1"
    using slots [of "XV6FS_IBLOCK 1 (raw_sb s)"] rt by (auto simp: slot_synced_def)
  obtain ei where g: "xv6fs_iget K 1 t = (Inr 1, set_inode 1 ei t)"
    "same_persistent ei (xv6fs_dinode_to_cpu (dinodes t ! 1) (fresh_inode K))"
    by (rule iget_read [of 1 t K]) (use n1 t t1 assms(12) in \<open>simp_all add: n_def\<close>)
  have it: "itable_ok (set_inode 1 ei t)"
    by (rule iget_Inr_itable [OF load_dinodes_itable [OF s0(3) l] g(1)])
  have "sb_bread_ok K 1" using assms(2) by (simp add: io_ok_def)
  then obtain m' where "xv6fs_fill_super K m = (Inr (), m')" "sb_fs m' = set_inode 1 ei t" "s_root m' = Some 1"
    by (rule fill_super_state [OF assms(9,10) _ _ assms(13), of m, unfolded lb(1), OF _ lb(2) l [unfolded s0_def] g(1)])
  moreover have "raw_sb (set_inode 1 ei t) = raw_sb s" by (simp add: set_inode_def t(1))
  moreover have "i_type ei = 1" using g(2) t1 by (simp add: same_persistent_def xv6fs_dinode_to_cpu_def)
  ultimately show ?thesis
    using it slots unfolding S_def [symmetric] n_def [symmetric]
    by (auto simp: xv6fs_fs_type_def xv6fs_mount_def)
qed

lemma vfs_run_visited: "vfs_run P K cs s = Some t \<Longrightarrow> t \<in> set (vfs_states P K cs s)"
  by (induction cs arbitrary: s) (auto simp: bind_eq_Some_conv split: if_splits)

text \<open>A crash after a file was made: the first inode block is the old one, the rest is new.\<close>

theorem crash_mounts_witness:
  "\<exists>t m'. vfs_run ref_page_cache ref_kernel [Create 1 [97] 0x8000, Write_back 2 True] sample_fs = Some t \<and>
     fst (fs_mount (xv6fs_fs_type ref_kernel ref_kill) (demo_device\<lparr>sb_fs := t\<lparr>icache := Map.empty,
       disk := (disk t)(2 := disk sample_fs 2)\<rparr>\<rparr>) unloaded) = Inr m' \<and> s_root m' = Some XV6FS_ROOTINO"
proof -
  let ?cs = "[Create 1 [97] 0x8000, Write_back 2 True]"
  note h = ref_kernel_bitops ref_io_ok ref_setattr_copy_ok ref_page_cache_ok sample_vol_inv
  obtain t where t: "vfs_run ref_page_cache ref_kernel ?cs sample_fs = Some t" using vfs_run_ok [OF h] by blast
  define S where "S = set (vfs_states ref_page_cache ref_kernel ?cs sample_fs)"
  let ?m = "demo_device\<lparr>sb_fs := t\<lparr>icache := Map.empty, disk := (disk t)(2 := disk sample_fs 2)\<rparr>\<rparr>"
  have "sample_fs \<in> S" unfolding S_def using sample_create by (simp del: vfs_allowed.simps)
  moreover have "t \<in> S" unfolding S_def by (rule vfs_run_visited [OF t])
  ultimately have "left_by S (raw_sb sample_fs) (disk (sb_fs ?m))"
    by (auto simp: left_by_def intro: bexI [of _ sample_fs])
  moreover have "d_type (dinodes sample_fs ! XV6FS_ROOTINO) = XV6FS_T_DIR" by (simp add: sample_root_slot_def)
  moreover have "icache (sb_fs ?m) = Map.empty" by simp
  moreover have "kzalloc_ok ref_kernel" "set_blocksize_ok ref_kernel" "kvmalloc_ok ref_kernel n"
    "inode_alloc_ok ref_kernel 1" "d_make_root_ok ref_kernel" for n by (simp_all add: ref_kernel_def)
  ultimately have "\<exists>m'. fs_mount (xv6fs_fs_type ref_kernel ref_kill) ?m unloaded =
      (Inr m', unloaded\<lparr>mounts := mounts unloaded + 1\<rparr>) \<and> s_root m' = Some XV6FS_ROOTINO"
    using crash_mounts [OF h, of ?cs ?m ref_kill unloaded] unfolding S_def by blast
  then show ?thesis using t by auto
qed

end
