(* ===== verification/Xv6fs_Faults.thy ===== *)
theory Xv6fs_Faults
  imports Xv6fs_File
begin

text \<open>
  What the error paths leave behind when the kernel cannot give a buffer for a
  block that was just allocated.  Both places that call \<open>sb_getblk\<close> keep the
  address of the block in the inode: in \<open>xv6fs_dir_add_entry\<close> the block is
  free again and goes to the next file that asks, in \<open>xv6fs_get_block\<close> the
  indirect block is used with whatever it held before.
\<close>

section \<open>The direct blocks\<close>

lemma get_block_direct_new:
  assumes "m < 12" "file_map s j m = None" "xv6fs_balloc K s = (Inr b, t)"
  shows "xv6fs_get_block K j m True s = (Inr (Mapped b True), mark_inode_dirty j (set_addr j m (of_nat b) t))"
proof -
  have "i_addrs (xv6fs_i s j) ! m = 0" using assms(1,2) by (simp add: file_map_def block_opt_def split: if_splits)
  then show ?thesis using assms(1,3) by (simp add: xv6fs_get_block_def)
qed

lemma file_map_set_addr:
  assumes "m < 12" "length (i_addrs (xv6fs_i t j)) = 13" "bmap_inv s" "b \<in> data_blocks s"
  shows "file_map (mark_inode_dirty j (set_addr j m (of_nat b) t)) j m = Some b"
  using assms(1,2) data_block_u32(1,2) [of s b] assms(3,4) [unfolded bmap_inv_def]
  by (simp add: file_map_def block_opt_def set_addr_def inode_defs)

text \<open>Marking a block and clearing it again leaves the free blocks as they were.\<close>

lemma free_again:
  assumes "kernel_bitops K" "bmap_inv s" "bitmap_readable K s" "xv6fs_balloc K s = (Inr b, t)"
    and "disk v = disk t" "raw_sb v = raw_sb t"
  shows "free_blocks (xv6fs_bfree K b v) = free_blocks s" "bmap_inv (xv6fs_bfree K b v)"
    "raw_sb (xv6fs_bfree K b v) = raw_sb s" "icache (xv6fs_bfree K b v) = icache v"
    "b \<in> data_blocks s" "\<not> block_used s b"
proof -
  have bl: "blocks_512 s" using assms(2) by (simp add: bmap_inv_def)
  note a = balloc_Inr [OF assms(1) bl assms(4)]
  show d: "b \<in> data_blocks s" "\<not> block_used s b" using a(1) assms(2) by (simp_all add: free_blocks_eq_data)
  have t: "bmap_inv t" "raw_sb t = raw_sb s" using bmap_inv_set [OF assms(1,2)] by (simp_all add: a(3))
  have v: "bmap_inv v" using t(1) bmap_inv_cong [OF assms(5,6)] by simp
  have dv: "b \<in> data_blocks v" using d(1) assms(6) t(2) by (simp add: data_blocks_def)
  then have e: "xv6fs_bfree K b v = bitmap_update (clear_bit_le K) b v"
    using a(4) assms(6) t(2) by (simp add: bfree_eq)
  show "bmap_inv (xv6fs_bfree K b v)" unfolding e by (rule bmap_inv_clear [OF assms(1) v dv])
  show r: "raw_sb (xv6fs_bfree K b v) = raw_sb s" "icache (xv6fs_bfree K b v) = icache v"
    by (simp_all add: e assms(6) t(2))
  have "blocks_512 v" using v by (simp add: bmap_inv_def)
  then have "block_used (xv6fs_bfree K b v) m \<longleftrightarrow> block_used s m" for m
    using d(2) block_used_clear [OF assms(1), of v b m] block_used_set [OF assms(1) bl, of b m]
      block_used_cong [OF assms(5,6)] by (auto simp: e a(3))
  then show "free_blocks (xv6fs_bfree K b v) = free_blocks s" by (simp add: free_blocks_def balloc_range_def r(1) assms(6) t(2))
qed

text \<open>The allocator then gives out the same block.\<close>

lemma balloc_lowest:
  assumes "kernel_bitops K" "bmap_inv s" "xv6fs_balloc K s = (Inr b, s1)"
    and "bmap_inv t" "bitmap_readable K t" "free_blocks t = free_blocks s"
  obtains u where "xv6fs_balloc K t = (Inr b, u)"
proof -
  have bl: "blocks_512 s" "blocks_512 t" using assms(2,4) by (simp_all add: bmap_inv_def)
  note a = balloc_Inr [OF assms(1) bl(1) assms(3)]
  obtain r u where call: "xv6fs_balloc K t = (r, u)" by fastforce
  show ?thesis
  proof (cases r)
    case (Inl e)
    then show ?thesis
      using balloc_Inl(2) [OF assms(1) bl(2)] call a(1) assms(5,6) by (auto simp: bitmap_readable_def)
  next
    case (Inr m)
    note c = balloc_Inr [OF assms(1) bl(2) call [unfolded Inr]]
    have "m = b" using a(1,2) c(1,2) assms(6) by (auto intro: antisym)
    then show ?thesis using that call Inr by simp
  qed
qed

section \<open>Properties of failing buffers\<close>

text \<open>
  C28: When \<open>sb_getblk\<close> fails for the block \<open>xv6fs_dir_add_entry\<close> has just
  mapped, the call frees the block and returns \<open>-EIO\<close>, but the directory still
  maps it.  The block is the first one any file gets: after it has been
  allocated to another inode both map it.
\<close>

theorem add_entry_getblk_shares_block:
  fixes K :: kernel
  assumes "kernel_bitops K" "dir_inv K d s" "bitmap_readable K s" "length n \<le> 14"
    and "free_slot s d < 384" "file_map s d (free_slot s d div 32) = None"
    and "xv6fs_balloc K s = (Inr b, s1)" "\<not> sb_getblk_ok K b"
    and "j \<noteq> d" "imap_ok s j" "m < 12" "file_map s j m = None"
  shows "\<exists>t u. xv6fs_dir_add_entry K d n i s = Some (Err EIO, t) \<and> \<not> block_used t b \<and>
    xv6fs_get_block K j m True t = (Inr (Mapped b True), u) \<and>
    file_map u j m = Some b \<and> file_map u d (free_slot s d div 32) = Some b"
proof -
  have inv: "bmap_inv s" "imap_ok s d" "dir_ok K s d" using assms(2) by (simp_all add: dir_inv_def)
  let ?l = "free_slot s d div 32"
  define v where "v = mark_inode_dirty d (set_addr d ?l (of_nat b) s1)"
  define t where "t = xv6fs_bfree K b v"
  have l: "?l < 12" using assms(5) by simp
  have call: "xv6fs_get_block K d ?l True s = (Inr (Mapped b True), v)"
    unfolding v_def by (rule get_block_direct_new [OF l assms(6,7)])
  have add: "xv6fs_dir_add_entry K d n i s = Some (Err EIO, t)"
    unfolding add_entry_eq [OF inv(3) assms(4)] dir_write_entry_def pos_block(1) call t_def
    using assms(8) by (simp add: sb_getblk_def)
  have v: "disk v = disk s1" "raw_sb v = raw_sb s1" by (simp_all add: v_def)
  note fr = free_again [OF assms(1) inv(1) assms(3,7) v, folded t_def]
  have bl: "blocks_512 s" using inv(1) by (simp add: bmap_inv_def)
  have "bitmap_readable K t" using assms(3) fr(3) by (simp add: bitmap_readable_def)
  then obtain u1 where bal: "xv6fs_balloc K t = (Inr b, u1)"
    by (rule balloc_lowest [OF assms(1) inv(1) assms(7) fr(2) _ fr(1)])
  have ic: "icache s1 = icache s" "icache u1 = icache t"
    using balloc_tables(2) [of K s] balloc_tables(2) [of K t] assms(7) bal by simp_all
  have xj: "xv6fs_i t j = xv6fs_i s j"
    using assms(9) by (simp add: xv6fs_i_def fr(4)) (simp add: v_def inode_defs set_addr_def ic)
  have "file_map t j m = None" using assms(11,12) by (simp add: file_map_def xj)
  note get = get_block_direct_new [OF assms(11) this bal]
  let ?u = "mark_inode_dirty j (set_addr j m (of_nat b) u1)"
  have "length (i_addrs (xv6fs_i u1 j)) = 13"
    using assms(10) xj by (simp add: imap_ok_def xv6fs_i_def ic)
  then have "file_map ?u j m = Some b" by (rule file_map_set_addr [OF assms(11) _ inv(1) fr(5)])
  moreover have "length (i_addrs (xv6fs_i s1 d)) = 13" using inv(2) by (simp add: imap_ok_def xv6fs_i_def ic)
  then have "file_map v d ?l = Some b" unfolding v_def by (rule file_map_set_addr [OF l _ inv(1) fr(5)])
  then have "file_map ?u d ?l = Some b"
    using l assms(9) by (simp add: file_map_def xv6fs_i_def ic(2) fr(4))
  moreover have "\<not> block_used t b"
    using fr(1,3) fr(5,6) inv(1) fr(2) by (auto simp: free_blocks_eq_data data_blocks_def set_eq_iff)
  ultimately show ?thesis using add get by blast
qed

text \<open>A kernel that gives every buffer but the one of block 6.\<close>

definition ref_faulty :: kernel where
  "ref_faulty = ref_kernel\<lparr>sb_getblk_ok := (\<lambda>b. b \<noteq> 6)\<rparr>"

lemma ref_faulty_sel [simp]:
  "sb_bread_ok ref_faulty b" "sb_getblk_ok ref_faulty b = (b \<noteq> 6)" "dir_inv ref_faulty d s = dir_inv ref_kernel d s"
  by (simp_all add: ref_faulty_def ref_kernel_def dir_inv_def dir_ok_def)

lemma ref_faulty_bitops: "kernel_bitops ref_faulty"
  using ref_kernel_bitops by (simp add: ref_faulty_def)

lemma ref_faulty_balloc:
  assumes "disk s 5 = replicate 512 0" "raw_sb s = demo_sb"
  obtains t where "xv6fs_balloc ref_faulty s = (Inr 6, t)"
proof -
  have "ref_find_next_zero_bit_le (replicate 512 0) 100 6 = 6"
    by (simp add: ref_find_next_zero_bit_le_def upt_conv_Cons test_bit_le_def)
  then show ?thesis
    using that assms by (simp add: xv6fs_balloc_def balloc_loop.simps Let_def buffer_defs ref_faulty_def ref_kernel_def
        XV6FS_BBLOCK_def XV6FS_BOFFSET_def)
qed

text \<open>The new file 2 shares the first block of the directory.\<close>

theorem add_entry_getblk_shares_block_witness:
  "\<exists>t u. xv6fs_dir_add_entry ref_faulty 1 [97] 2 demo_file = Some (Err EIO, t) \<and> \<not> block_used t 6 \<and>
     xv6fs_get_block ref_faulty 2 0 True t = (Inr (Mapped 6 True), u) \<and>
     file_map u 2 0 = Some 6 \<and> file_map u 1 0 = Some 6"
proof -
  have new: "xv6fs_new_inode ref_kernel 0x8000 demo_fs = (Inr 2, demo_file)"
    by (simp add: demo_file_def xv6fs_new_inode_def demo_fs_def upt_conv_Cons)
  note n = vol_new_inode [OF demo_vol_ok new]
  have d: "disk demo_file = disk demo_fs" "raw_sb demo_file = demo_sb" "xv6fs_i demo_file 1 = demo_root"
    "xv6fs_i demo_file 2 = new_inode_fields 0x8000 (fresh_inode ref_kernel)"
    using new_inode_Inr(3) [OF new]
    by (auto simp: demo_file_def xv6fs_new_inode_def demo_fs_def upt_conv_Cons inode_defs)
  have ow: "own_inv demo_fs" using demo_vol_ok by (simp add: vol_ok_def)
  have dir: "dir_inv ref_faulty 1 demo_file" using vol_dir_other(1) [OF ow n(4,5) _ demo_dir_inv] by simp
  have f: "free_slot demo_file 1 = 0" by (simp add: free_slot_def nslots_def d(3) [unfolded One_nat_def])
  have m: "file_map demo_file 1 0 = None" "file_map demo_file 2 0 = None"
    by (simp_all add: file_map_def block_opt_def d(3) [unfolded One_nat_def] d(4) new_inode_fields_def Let_def)
  have "bitmap_readable ref_faulty demo_file" by (simp add: bitmap_readable_def)
  moreover obtain s1 where "xv6fs_balloc ref_faulty demo_file = (Inr 6, s1)"
    by (rule ref_faulty_balloc [of demo_file]) (simp_all add: d)
  ultimately show ?thesis
    using add_entry_getblk_shares_block [OF ref_faulty_bitops dir, of "[97]" 6 s1 2 0 2] f m n(6) by simp
qed

text \<open>
  C29: When \<open>sb_getblk\<close> fails for a new indirect block, \<open>xv6fs_get_block\<close> returns
  \<open>-EIO\<close> and keeps the block in the inode without clearing it.  The file, which
  had nothing mapped there, then maps the blocks that the old contents of
  that block name, whatever they are.
\<close>

theorem get_block_getblk_stale_indirect:
  fixes K :: kernel
  assumes "kernel_bitops K" "bmap_inv s" "imap_ok s i" "i_addrs (xv6fs_i s i) ! 12 = 0" "12 \<le> l" "l < 140"
    and "xv6fs_balloc K s = (Inr b, s1)" "\<not> sb_getblk_ok K b"
  shows "\<exists>t. xv6fs_get_block K i l True s = (Inl EIO, t) \<and> i \<in> idirty t \<and>
    (\<forall>m. 12 \<le> m \<and> m < 140 \<longrightarrow> file_map s i m = None \<and>
       file_map t i m = block_opt (le32_at (disk s b) (m - 12)))"
proof -
  have bl: "blocks_512 s" using assms(2) by (simp add: bmap_inv_def)
  note a = balloc_Inr [OF assms(1) bl assms(7)]
  have d: "b \<in> data_blocks s" using a(1) assms(2) by (simp add: free_blocks_eq_data)
  let ?t = "mark_inode_dirty i (set_addr i 12 (of_nat b) s1)"
  have call: "xv6fs_get_block K i l True s = (Inl EIO, ?t)"
    using assms(4-8) by (simp add: xv6fs_get_block_def Let_def sb_getblk_def)
  have sb: "layout_ok (raw_sb s)" using assms(2) by (simp add: bmap_inv_def)
  have "b \<noteq> XV6FS_BBLOCK b (raw_sb s)" using bitmap_block_not_data [OF sb _ d] data_block_u32(3) [OF sb d] by blast
  then have "disk ?t b = disk s b" by (simp add: a(3) disk_bitmap_update)
  moreover have "length (i_addrs (xv6fs_i s i)) = 13" using assms(3) by (simp add: imap_ok_def)
  then have "i_addrs (xv6fs_i ?t i) ! 12 = of_nat b" by (simp add: set_addr_def inode_defs a(3))
  moreover have "unat (of_nat b :: u32) = b" "(of_nat b :: u32) \<noteq> 0"
    by (rule data_block_u32 [OF sb d])+
  ultimately have "file_map ?t i m = block_opt (le32_at (disk s b) (m - 12))" if "12 \<le> m" "m < 140" for m
    using that by (simp add: file_map_def ind_entries_def Let_def)
  moreover have "file_map s i m = None" if "12 \<le> m" for m
    using that assms(4) by (simp add: file_map_def ind_entries_def Let_def block_opt_def)
  moreover have "i \<in> idirty ?t" by (simp add: mark_inode_dirty_def)
  ultimately show ?thesis using call by blast
qed

theorem get_block_getblk_stale_indirect_witness:
  "\<exists>t. xv6fs_get_block ref_faulty 1 12 True (demo_fs\<lparr>disk := (disk demo_fs)(6 := replicate 512 1)\<rparr>) = (Inl EIO, t) \<and>
     file_map t 1 12 = Some 16843009"
proof -
  let ?s = "demo_fs\<lparr>disk := (disk demo_fs)(6 := replicate 512 1)\<rparr>"
  have x: "xv6fs_i ?s = xv6fs_i demo_fs" by (simp add: xv6fs_i_def fun_eq_iff)
  have bm: "bmap_inv ?s" by (auto simp: bmap_inv_def blocks_512_def)
  have "inode_blocks ?s 1 = inode_blocks demo_fs 1"
    by (simp add: inode_blocks_def addr_list_def ind_entries_def x)
  then have im: "imap_ok ?s 1" using demo_imap_ok
    by (simp add: imap_ok_def x inode_blocks_def addr_list_def ind_entries_def flip: replicate_add)
  obtain s1 where bal: "xv6fs_balloc ref_faulty ?s = (Inr 6, s1)" by (rule ref_faulty_balloc [of ?s]) simp_all
  have "le32_at (replicate 512 1) 0 = 16843009" by (simp add: le32_at_def le32_to_cpu_def get_bytes_def)
  then show ?thesis
    using get_block_getblk_stale_indirect [OF ref_faulty_bitops bm im _ _ _ bal, of 12]
    by (auto simp: x block_opt_def)
qed

end
