(* ===== verification/Xv6fs_Mkfs.thy ===== *)
theory Xv6fs_Mkfs
  imports Xv6fs_Super
begin

text \<open>
  The image tool \<^verbatim>\<open>src/mkfs.xv6fs.c\<close>, as it stands: the sector functions
  \<open>wsect\<close> and \<open>rsect\<close>, the byte-order helpers, the allocation functions that
  are still empty, and \<open>main\<close>, which checks its options, truncates the image
  and reports success without having written a block.

  The image is the list of its bytes.  \<open>lseek\<close>, \<open>read\<close> and \<open>write\<close> have their
  POSIX meaning: writing past the end fills the gap with zeros, reading past
  the end is short; whether the device accepts a write is an argument.  A call
  of \<open>exit\<close> is the value \<open>Exit\<close>.  The option parser \<open>getopt\<close> is represented
  by the list of options it returns and the arguments that remain.
\<close>

section \<open>Sectors\<close>

datatype 'a run = Val 'a | Exit nat

definition xint :: "u32 \<Rightarrow> u32" where
  "xint x = x"

definition xshort :: "u16 \<Rightarrow> u16" where
  "xshort x = x"

text \<open>\<open>write\<close> at an offset, after \<open>lseek\<close>.\<close>

definition write_at :: "nat \<Rightarrow> byte list \<Rightarrow> byte list \<Rightarrow> byte list" where
  "write_at off buf img =
     take off img @ replicate (off - length img) 0 @ buf @ drop (off + length buf) img"

definition wsect :: "(nat \<Rightarrow> bool) \<Rightarrow> u32 \<Rightarrow> byte list \<Rightarrow> byte list \<Rightarrow> byte list run" where
  "wsect write_ok bnum buf img =
     (let off = unat bnum * XV6FS_BSIZE
      in if \<not> write_ok off then Exit 1 else Val (write_at off (take XV6FS_BSIZE buf) img))"

definition rsect :: "u32 \<Rightarrow> byte list \<Rightarrow> byte list run" where
  "rsect bnum img =
     (let buf = take XV6FS_BSIZE (drop (unat bnum * XV6FS_BSIZE) img)
      in if length buf \<noteq> XV6FS_BSIZE then Exit 1 else Val buf)"

section \<open>The allocation functions\<close>

text \<open>They are not implemented: they ignore their arguments and change nothing.\<close>

definition rinode :: "u32 \<Rightarrow> xv6fs_dinode \<Rightarrow> xv6fs_dinode" where
  "rinode ino ip = ip"

definition winode :: "u32 \<Rightarrow> xv6fs_dinode \<Rightarrow> byte list \<Rightarrow> byte list" where
  "winode ino ip img = img"

definition ialloc :: "u16 \<Rightarrow> u32" where
  "ialloc type = 0"

definition balloc_mark :: "u32 \<Rightarrow> byte list \<Rightarrow> byte list" where
  "balloc_mark used img = img"

definition mkfs_balloc :: u32 where
  "mkfs_balloc = 0"

definition iappend :: "u32 \<Rightarrow> byte list \<Rightarrow> byte list \<Rightarrow> byte list" where
  "iappend ino data img = img"

section \<open>The main program\<close>

datatype opt = Opt_s int | Opt_other

text \<open>\<open>Opt_s n\<close>: the option \<open>-s\<close> with an argument that \<open>atoi\<close> reads as \<open>n\<close>.\<close>

fun parse_size :: "opt list \<Rightarrow> u32 \<Rightarrow> u32 run" where
  "parse_size [] fssize = Val fssize"
| "parse_size (Opt_s n # opts) fssize =
     (if (of_int n :: u32) < 100 then Exit 1 else parse_size opts (of_int n))"
| "parse_size (Opt_other # opts) fssize = Exit 1"

text \<open>
  \<open>trunc\<close> is what \<open>O_TRUNC\<close> leaves of the file: nothing of a regular file,
  everything of a device.  The result is the exit status and the image.
\<close>

definition mkfs_main ::
    "bool \<Rightarrow> (byte list \<Rightarrow> byte list) \<Rightarrow> opt list \<Rightarrow> 'a list \<Rightarrow> byte list \<Rightarrow> nat \<times> byte list" where
  "mkfs_main open_ok trunc opts args img =
     (case parse_size opts 1000 of
        Exit n \<Rightarrow> (n, img)
      | Val fssize \<Rightarrow>
          if args = [] then (1, img)
          else if \<not> open_ok then (1, img)
          else (0, trunc img))"

section \<open>Properties\<close>

lemma length_write_at: "length (write_at off buf img) = max (off + length buf) (length img)"
  by (auto simp: write_at_def max_def min_def)

lemma write_at_same: "take (length buf) (drop off (write_at off buf img)) = buf"
  by (cases "off \<le> length img") (simp_all add: write_at_def)

lemma write_at_other:
  assumes "j + n \<le> off \<or> off + length buf \<le> j" "j + n \<le> length img"
  shows "take n (drop j (write_at off buf img)) = take n (drop j img)"
proof (rule nth_equalityI)
  show "length (take n (drop j (write_at off buf img))) = length (take n (drop j img))"
    using assms(2) by (simp add: length_write_at)
next
  fix i assume "i < length (take n (drop j (write_at off buf img)))"
  then have i: "i < n" by simp
  have "write_at off buf img ! (j + i) = img ! (j + i)"
    using assms i by (auto simp: write_at_def nth_append)
  then show "take n (drop j (write_at off buf img)) ! i = take n (drop j img) ! i"
    using i assms(2) by (simp add: length_write_at)
qed

text \<open>
  The sectors of the image tool are a store: \<open>rsect\<close> returns the block
  \<open>wsect\<close> wrote, and still returns what it did before for every other block
  that is inside the image.
\<close>

lemma wsect_rsect:
  assumes "length buf = XV6FS_BSIZE" "wsect write_ok bnum buf img = Val img'"
  shows "rsect bnum img' = Val buf \<and>
    (\<forall>c. c \<noteq> bnum \<and> (unat c + 1) * 512 \<le> length img \<longrightarrow> rsect c img' = rsect c img)"
proof -
  have i: "img' = write_at (unat bnum * 512) buf img"
    using assms by (simp add: wsect_def Let_def split: if_splits)
  have "rsect bnum img' = Val buf"
    using write_at_same [of buf "unat bnum * 512" img] assms(1) by (simp add: rsect_def Let_def i)
  moreover have "rsect c img' = rsect c img" if c: "c \<noteq> bnum" "(unat c + 1) * 512 \<le> length img" for c
  proof -
    have "unat c \<noteq> unat bnum" using c(1) by (simp add: word_unat_eq_iff)
    then have "unat c * 512 + 512 \<le> unat bnum * 512 \<or> unat bnum * 512 + 512 \<le> unat c * 512" by linarith
    then have "take 512 (drop (unat c * 512) img') = take 512 (drop (unat c * 512) img)"
      using write_at_other [of "unat c * 512" 512 "unat bnum * 512" buf img] assms(1) c(2) by (simp add: i)
    then show ?thesis by (simp add: rsect_def)
  qed
  ultimately show ?thesis by blast
qed

text \<open>
  C40: An image that the tool has just made cannot be mounted.  For a regular
  file the tool exits with status 0 and prints that the image was written,
  but leaves an empty file, in which block 1 cannot be read: the driver's
  \<open>xv6fs_fill_super\<close> fails with \<open>-EIO\<close> on it.
\<close>

theorem mkfs_image_not_mountable:
  assumes "mkfs_main True (\<lambda>_. []) opts args img = (0, img')"
    and "kzalloc_ok K" "set_blocksize_ok K" "sb_bread_ok K = (\<lambda>b. (b + 1) * 512 \<le> length img')"
  shows "img' = [] \<and> fst (xv6fs_fill_super K m) = Inl EIO"
proof -
  have "parse_size opts sz = Exit n \<Longrightarrow> n = 1" for sz n
    by (induction opts sz rule: parse_size.induct) (auto split: if_splits)
  then have "img' = []" using assms(1) by (auto simp: mkfs_main_def split: run.splits if_splits)
  then show ?thesis using assms(2-4) by (simp add: xv6fs_fill_super_def Let_def sb_bread_def)
qed

theorem mkfs_image_not_mountable_witness:
  "mkfs_main True (\<lambda>_. []) [Opt_s 1000] [()] [1, 2, 3] = (0, []) \<and>
   fst (xv6fs_fill_super (ref_kernel\<lparr>sb_bread_ok := \<lambda>b. (b + 1) * 512 \<le> length ([] :: byte list)\<rparr>) demo_device) =
     Inl EIO"
proof -
  have p: "mkfs_main True (\<lambda>_. []) [Opt_s 1000] [()] [1, 2, 3] = (0, [])"
    by (simp add: mkfs_main_def word_less_nat_alt)
  show ?thesis using p mkfs_image_not_mountable [OF p,
      of "ref_kernel\<lparr>sb_bread_ok := \<lambda>b. (b + 1) * 512 \<le> length ([] :: byte list)\<rparr>" demo_device]
    by (simp add: ref_kernel_def)
qed

end
