(* ===== verification/Spec2Isabelle.thy ===== *)
theory Spec2Isabelle
  imports Xv6fs_Crash Xv6fs_Faults Xv6fs_Module Xv6fs_Mkfs
begin

text \<open>
  A verification of the XV6 file-system driver for Linux (\<^verbatim>\<open>src/\<close>).

  \<^bold>\<open>The program.\<close>  A kernel module mounts devices in the XV6 format: a boot
  block, a superblock (block 1), a log area, inode blocks, a free-block bitmap
  and data blocks of 512 bytes.  \<^verbatim>\<open>xv6fs.h\<close> holds the layout and the byte-order
  conversions, \<^verbatim>\<open>bmap.c\<close> the bitmap allocator, \<^verbatim>\<open>inode.c\<close> the inode table, the
  inode cache and the map from file blocks to device blocks, \<^verbatim>\<open>dir.c\<close> the
  directories, \<^verbatim>\<open>super.c\<close> mounting, write-back and eviction, \<^verbatim>\<open>xv6fs_main.c\<close> the
  module entry points.  \<^verbatim>\<open>mkfs.xv6fs.c\<close> is a user program that makes images.

  \<^bold>\<open>The model.\<close>  One mounted file system is the record \<open>fs\<close> of \<open>Xv6fs_Kernel\<close>:
  the buffer cache, the buffer references the driver holds, the fields of
  \<open>struct xv6fs_sb_info\<close> and the VFS inode cache.  Operations pass that state
  explicitly; errors are values (\<open>errno + 'a\<close>, or \<open>Err\<close> of \<open>dir_ret\<close>); C integers
  are words of their width where they can wrap (block numbers, link counts,
  counters).  What the kernel decides (whether a block can be read, whether
  memory is there, whether a page is in its page cache, the results of its bit
  operations) is the record \<open>kernel\<close>, an argument; the documented behaviour of the bit operations is the locale
  \<open>le_bitops\<close>, interpreted on executable functions.

  \<^item> \<open>Xv6fs_Prelude\<close>: words, byte lists and the lemmas the other theories share.
  \<^item> \<open>Xv6fs_Layout\<close> (\<^verbatim>\<open>xv6fs.h\<close>): constants, superblock, inode and directory
    entry on disk, block-number macros, conversions; they are inverse to each
    other and slots do not overlap.
  \<^item> \<open>Xv6fs_Kernel\<close>: the state, buffers, the kernel's side, an example volume.
  \<^item> \<open>Xv6fs_Bmap\<close> (\<^verbatim>\<open>bmap.c\<close>): \<open>xv6fs_balloc\<close> takes the lowest clear bit and
    changes no other, \<open>xv6fs_bfree\<close> clears one, \<open>xv6fs_b_count_free\<close> counts;
    the locale \<open>slot_allocator\<close> is their contract.
  \<^item> \<open>Xv6fs_Mapping\<close> (\<^verbatim>\<open>inode.c\<close>): \<open>xv6fs_get_block\<close>, \<open>xv6fs_truncate_blocks\<close> and
    \<open>xv6fs_setattr\<close> against the abstract block map \<open>file_map\<close>.  The kernel's
    \<open>truncate_setsize\<close> sets the size and clears the rest of the block of the new
    end when its page is cached.
  \<^item> \<open>Xv6fs_Itable\<close> (\<^verbatim>\<open>inode.c\<close>, \<^verbatim>\<open>super.c\<close>): the mount-time scan, \<open>xv6fs_iget\<close>,
    \<open>xv6fs_new_inode\<close>, \<open>xv6fs_write_inode\<close>, \<open>xv6fs_evict_inode\<close>, with the table
    invariant; inode allocation is another \<open>slot_allocator\<close>.
  \<^item> \<open>Xv6fs_Dir\<close> (\<^verbatim>\<open>dir.c\<close>): the cursor and every directory function; on a
    well-formed directory the cursor refines a plain scan of slots.
  \<^item> \<open>Xv6fs_Dirops\<close>: what insertion and removal do to the slots of a directory, and
    what a failed insertion leaves (\<open>only_indirect\<close>: nothing but, at most, an
    indirect block the directory has got).
  \<^item> \<open>Xv6fs_Namespace\<close>: a directory as a map from names to inode numbers; the
    locale \<open>name_space\<close> and its interpretation give the behaviour of arbitrary
    sequences of operations; lookup, listing, unlink, rmdir and link.
  \<^item> \<open>Xv6fs_Ownership\<close>: no block has two owners, and an operation for one inode
    leaves every other file and directory alone.
  \<^item> \<open>Xv6fs_Create\<close>: \<open>xv6fs_create\<close> and \<open>xv6fs_mkdir\<close> on a consistent volume, and
    what is left when they fail.
  \<^item> \<open>Xv6fs_Tree\<close>: the specification of the name space (inodes with a type, a
    link count and entries), its invariant, and that each operation keeps it.
  \<^item> \<open>Xv6fs_Sync\<close>: the table in memory is what the inode blocks hold.
  \<^item> \<open>Xv6fs_Volume\<close>: the whole volume, cached inodes and those in the table; the
    invariant \<open>vol_inv\<close>; each operation of the driver keeps its part \<open>store_inv\<close>
    and changes the name space \<open>tree_of\<close> as stated.
  \<^item> \<open>Xv6fs_Sample\<close>: a volume given by its bytes that satisfies \<open>vol_inv\<close>.
  \<^item> \<open>Xv6fs_File\<close> (\<^verbatim>\<open>file.c\<close>, the address-space operations of \<^verbatim>\<open>inode.c\<close>): the
    methods the page cache calls; a regular file is an array of bytes, and what
    was written is read back.
  \<^item> \<open>Xv6fs_Ops\<close>: the operation tables and the dispatch through them.
  \<^item> \<open>Xv6fs_Vfs\<close>: the calls of the VFS, what it checks before it makes them, and
    whole histories of calls, made through the tables: they return, keep \<open>vol_inv\<close> and refine \<open>Xv6fs_Tree\<close>.
  \<^item> \<open>Xv6fs_Space\<close>: room on the volume.  A conservation law for blocks gives the
    exact reasons for a write or a create to fail, so both succeed when there
    is room; resizing a file byte by byte.
  \<^item> \<open>Xv6fs_Super\<close> (\<^verbatim>\<open>super.c\<close>): \<open>xv6fs_fill_super\<close> with its cleanup,
    \<open>xv6fs_put_super\<close>, \<open>xv6fs_statfs\<close>.
  \<^item> \<open>Xv6fs_Remount\<close>: unmounting and mounting the device again gives the same
    volume: names, inodes and bytes.
  \<^item> \<open>Xv6fs_Crash\<close>: the states between the calls of a history; a device whose
    superblock and inode blocks come from them, each from any, still mounts.
  \<^item> \<open>Xv6fs_Faults\<close>: what the error paths leave when \<open>sb_getblk\<close> fails for a block
    just allocated.
  \<^item> \<open>Xv6fs_Module\<close> (\<^verbatim>\<open>xv6fs_main.c\<close>, the slab cache of \<^verbatim>\<open>inode.c\<close>): the life cycle
    of the module as a step relation and its invariant.
  \<^item> \<open>Xv6fs_Mkfs\<close> (\<^verbatim>\<open>mkfs.xv6fs.c\<close>): the image tool as it stands.

  \<^bold>\<open>Loops.\<close>  The scans of the bitmap, of the inode table and of the block
  addresses are total functions with a termination proof.  The loops over a
  directory need not end, so they are partial functions into \<open>option\<close>, with
  \<open>None\<close> for a call that does not return; on a well-formed directory the
  theorems state that they return.  No fuel is used.

  \<^bold>\<open>Hypotheses.\<close>  \<open>kernel_bitops K\<close>: the bit operations behave as documented.
  \<open>bmap_inv\<close>: 512-byte blocks, a superblock whose areas do not overlap, and
  metadata blocks beyond the first bitmap group marked in use.  \<open>imap_ok\<close>: the
  blocks of an inode are distinct data blocks in use.  \<open>dir_ok\<close>: a directory of
  whole entries, not longer than a file can be, with readable blocks.  \<open>io_ok\<close>:
  the device does not fail; theorems on error paths do not assume it.
  \<open>vol_ok\<close>: every cached inode satisfies \<open>imap_ok\<close>, no two share a block, and the
  inode table is consistent and does not offer inode 0.  \<open>vol_inv\<close>: \<open>vol_ok\<close> for
  every inode of the volume, cached or not, with no block in use that nobody
  owns, and a name space that satisfies \<open>tree_inv\<close>.  \<open>vfs_allowed\<close>: what the VFS
  checks and locks before a call (live directories, names looked up before,
  directories removed by \<open>rmdir\<close> only); \<open>setattr_copy_ok\<close>: \<open>setattr_copy\<close> keeps the
  type, size, links, addresses and tables; \<open>page_cache_ok\<close>: the kernel's page cache uses
  the callback as documented (it looks blocks up to read, allocates and zeroes
  them to write, and extends the size); \<open>kill_block_super_ok\<close>: the kernel's part
  of an unmount deletes the unlinked inodes and writes dirty inodes and blocks back.  \<open>vol_inv\<close> includes \<open>synced\<close>: the inode
  blocks agree with the table.  Each is satisfied by the example volumes
  \<open>demo_fs\<close> and \<open>sample_fs\<close> that the witnesses use.

  \<^bold>\<open>What the model showed.\<close>  Among the properties are some that state a defect:
  the reserved inode 0 is handed out first (\<open>first_new_inode_is_zero\<close>), listings
  repeat an entry or read through a null pointer (\<open>readdir_resume_repeats\<close>,
  \<open>readdir_seek_null\<close>), a lookup can loop for ever (\<open>lookup_hangs\<close>), two error
  paths of the mount leak (\<open>fill_super_balanced\<close>), the image tool writes nothing
  (\<open>mkfs_image_not_mountable\<close>), a file made smaller keeps the rest of its last
  block on the device when the page is not cached (\<open>resize_correct\<close>), and when a buffer cannot be had two
  files share a block (\<open>add_entry_getblk_shares_block\<close>) or a file maps blocks
  named by stale data (\<open>get_block_getblk_stale_indirect\<close>).

  \<^bold>\<open>Not modelled.\<close>  Locks and interleavings inside an operation: an operation is
  one step.  The list node that overlays bytes 8 to 23 of a free slot of the
  in-memory inode table: a free slot reads as zeros, and the free list is a list
  of slot numbers.  That is the C list as long as a node is added only when it is
  in no list, which \<open>itable_ok\<close> gives (\<open>load_dinodes_correct\<close>,
  \<open>new_inode_correct\<close> and \<open>evict_unlinked_inode\<close> keep it); no property speaks of
  a slot that is added a second time, as happens when a stale directory entry
  names a free inode and \<open>xv6fs_iget\<close> of it fails.  The kernel's page cache,
  which is the parameter \<open>page_cache\<close>: pages and the buffers of their blocks are
  one store, so the loss of pages that were not written is not a behaviour of
  the model, and nothing is assumed of \<open>mpage_writepages\<close>, \<open>generic_file_fsync\<close>,
  \<open>generic_file_mmap\<close> and \<open>generic_file_llseek\<close>.  A crash in the middle of
  a call: \<open>crash_mounts\<close> takes blocks as they are between calls, and claims
  nothing of how names, blocks and inodes fit together after it.  Histories in
  which the device fails.  Attributes the format has no place for (owner, mode bits, times),
  which a remount resets, and \<open>setattr\<close> on a directory, which has no such method.  Log messages; the kernel's own functions
  beyond what is said above; the build files and the virtual-machine scripts.
\<close>

end
